(* ===== verification/Sched_Prelude.thy ===== *)
theory Sched_Prelude
  imports Main "HOL-Library.Word" "HOL-Library.Multiset"
begin

text \<open>
  Shared vocabulary of the scheduler development: the machine-integer types of the C++ sources,
  the collections of rewrite rules the component theories extend, and generic facts on lists
  (in-place updates, swaps, counting) that several components use.
\<close>

unbundle bit_operations_syntax

section \<open>Machine integers\<close>

text \<open>
  \<^verbatim>\<open>uint8_t\<close>, \<^verbatim>\<open>uint16_t\<close>, \<^verbatim>\<open>uint32_t\<close> and \<^verbatim>\<open>uint64_t\<close> are words of that width. \<^verbatim>\<open>int64_t\<close> epoch
  seconds and C \<^verbatim>\<open>int\<close> arguments are \<^typ>\<open>int\<close>; array sizes and indices (\<^verbatim>\<open>size_t\<close>) are \<^typ>\<open>nat\<close>,
  bounded by \<open>SIZE_MAX\<close> where the allocator checks it.
\<close>

type_synonym u8 = "8 word"
type_synonym u16 = "16 word"
type_synonym u32 = "32 word"
type_synonym u64 = "64 word"

section \<open>Collections of rules\<close>

named_theorems array_simps \<open>unconditional equations of the growable array\<close>
named_theorems frame_simps \<open>fields an operation does not write\<close>
named_theorems inv_intros \<open>preservation of a component's invariant by its operations\<close>

section \<open>Lists updated in place\<close>

definition swap_at :: "'a list \<Rightarrow> nat \<Rightarrow> nat \<Rightarrow> 'a list" where
  "swap_at xs i j = xs[i := xs ! j, j := xs ! i]"

lemma length_swap_at [simp]: "length (swap_at xs i j) = length xs"
  by (simp add: swap_at_def)

lemma nth_swap_at:
  "i < length xs \<Longrightarrow> j < length xs \<Longrightarrow> k < length xs \<Longrightarrow>
   swap_at xs i j ! k = (if k = j then xs ! i else if k = i then xs ! j else xs ! k)"
  by (auto simp: swap_at_def nth_list_update)

lemma mset_swap_at [simp]:
  "i < length xs \<Longrightarrow> j < length xs \<Longrightarrow> mset (swap_at xs i j) = mset xs"
  unfolding swap_at_def by (cases "i = j") (auto simp: mset_swap)

lemma length_filter_update:
  assumes "i < length xs"
  shows "length (filter P (xs[i := x])) + (if P (xs ! i) then 1 else 0)
    = length (filter P xs) + (if P x then 1 else 0)"
proof -
  have xs: "xs = take i xs @ xs ! i # drop (Suc i) xs"
    using assms by (rule id_take_nth_drop)
  have upd: "xs[i := x] = take i xs @ x # drop (Suc i) xs"
    using assms by (rule upd_conv_take_nth_drop)
  have "length (filter P xs)
    = length (filter P (take i xs)) + (if P (xs ! i) then 1 else 0)
      + length (filter P (drop (Suc i) xs))"
    by (subst xs) simp
  then show ?thesis by (simp add: upd)
qed

lemma length_filter_less_nth:
  "length (filter P xs) < length xs \<Longrightarrow> \<exists>i < length xs. \<not> P (xs ! i)"
  by (metis filter_True in_set_conv_nth less_irrefl)

lemma filter_disj_length:
  "(\<And>x. \<not> (P x \<and> Q x)) \<Longrightarrow>
   length (filter P xs) + length (filter Q xs) = length (filter (\<lambda>x. P x \<or> Q x) xs)"
  by (induction xs) auto

lemma mset_butlast_last: "xs \<noteq> [] \<Longrightarrow> mset xs = add_mset (last xs) (mset (butlast xs))"
  by (metis append_butlast_last_id mset_append mset.simps add_mset_add_single)

section \<open>First hits of a sequence\<close>

text \<open>The first of at most \<open>n\<close> elements of \<open>f 0, f 1, \<dots>\<close> that satisfies \<open>P\<close>.\<close>

definition first_hit :: "('a \<Rightarrow> bool) \<Rightarrow> (nat \<Rightarrow> 'a) \<Rightarrow> nat \<Rightarrow> 'a \<Rightarrow> bool" where
  "first_hit P f n t \<longleftrightarrow> (\<exists>i < n. t = f i \<and> P t \<and> (\<forall>j < i. \<not> P (f j)))"

lemma first_hit_0 [simp]: "\<not> first_hit P f 0 t"
  by (simp add: first_hit_def)

lemma first_hit_now: "P (f 0) \<Longrightarrow> first_hit P f (Suc n) t \<longleftrightarrow> t = f 0"
  unfolding first_hit_def by (metis gr0I not_less_zero zero_less_Suc)

lemma first_hit_later:
  assumes "\<not> P (f 0)"
  shows "first_hit P f (Suc n) t \<longleftrightarrow> first_hit P (\<lambda>i. f (Suc i)) n t"
proof
  assume "first_hit P f (Suc n) t"
  then obtain i where i: "i < Suc n" "t = f i" "P t" "\<forall>j < i. \<not> P (f j)"
    unfolding first_hit_def by blast
  then obtain k where "i = Suc k" using assms by (cases i) auto
  with i show "first_hit P (\<lambda>i. f (Suc i)) n t"
    unfolding first_hit_def by (intro exI [of _ k]) auto
next
  assume "first_hit P (\<lambda>i. f (Suc i)) n t"
  then obtain k where k: "k < n" "t = f (Suc k)" "P t" "\<forall>j < k. \<not> P (f (Suc j))"
    unfolding first_hit_def by blast
  have "\<not> P (f j)" if "j < Suc k" for j using that assms k(4) by (cases j) auto
  with k show "first_hit P f (Suc n) t"
    unfolding first_hit_def by (intro exI [of _ "Suc k"]) auto
qed

section \<open>Modular probing\<close>

lemma nat_and_mask_mod:
  "(x::nat) AND (2 ^ n - 1) = x mod 2 ^ n"
  by (metis mask_eq_exp_minus_1 take_bit_eq_mask take_bit_eq_mod)

lemma mod_step: "Suc ((a + j) mod m) mod m = (a + Suc j) mod (m::nat)"
  by (simp add: mod_Suc_eq)

lemma probe_covers:
  assumes "p < (m::nat)"
  obtains d where "d < m" and "p = (a + d) mod m"
proof
  show "(p + (m - a mod m)) mod m < m" using assms by simp
  have "(a + (p + (m - a mod m))) mod m = (a mod m + (p + (m - a mod m))) mod m"
    by (simp add: mod_add_left_eq)
  also have "\<dots> = (p + m) mod m"
  proof -
    have "a mod m \<le> m" using assms by (simp add: less_imp_le)
    then have "a mod m + (p + (m - a mod m)) = p + m" by simp
    then show ?thesis by simp
  qed
  also have "\<dots> = p" using assms by simp
  finally show "p = (a + (p + (m - a mod m)) mod m) mod m"
    by (simp add: mod_add_right_eq)
qed

lemma probe_inj:
  assumes "(a + i) mod m = (a + j) mod (m::nat)" "i < m" "j < m"
  shows "i = j"
proof -
  have "i mod m = j mod m" using assms(1) by (simp add: nat_mod_eq_iff)
  then show ?thesis using assms by simp
qed

end
