(* ===== verification/Esp_Date.thy ===== *)
theory Esp_Date
  imports Complex_Main Sched_Prelude
begin

text \<open>
  The interface of the ESPDate library, which is not part of this repository: the scheduler only
  calls it. The operations it calls are the fields of a record that every definition using them
  takes as an argument. What the proofs rely on is stated as named predicates over that record,
  and a calendar for a time zone with a fixed offset shows that they can all hold together.
\<close>

section \<open>Floating-point values\<close>

text \<open>
  A C++ \<^verbatim>\<open>double\<close>: the finite values are exact reals (rounding is not modelled), the others
  are kept apart because \<^verbatim>\<open>ScheduleCalculator::validate\<close> tests for them and comparisons with a NaN
  are false.
\<close>

datatype double = Fin real | PInf | NInf | NaN

fun d_isfinite :: "double \<Rightarrow> bool" where
  "d_isfinite (Fin r) = True"
| "d_isfinite _ = False"

fun d_less :: "double \<Rightarrow> double \<Rightarrow> bool" where
  "d_less NaN y = False"
| "d_less x NaN = False"
| "d_less (Fin a) (Fin b) = (a < b)"
| "d_less NInf y = (y \<noteq> NInf)"
| "d_less x PInf = (x \<noteq> PInf)"
| "d_less x y = False"

fun d_eq :: "double \<Rightarrow> double \<Rightarrow> bool" where
  "d_eq NaN y = False"
| "d_eq x y = (x = y)"

definition d_le :: "double \<Rightarrow> double \<Rightarrow> bool" where
  "d_le x y \<longleftrightarrow> d_less x y \<or> d_eq x y"

fun d_neg :: "double \<Rightarrow> double" where
  "d_neg (Fin a) = Fin (- a)"
| "d_neg PInf = NInf"
| "d_neg NInf = PInf"
| "d_neg NaN = NaN"

fun d_add :: "double \<Rightarrow> double \<Rightarrow> double" where
  "d_add (Fin a) (Fin b) = Fin (a + b)"
| "d_add NaN y = NaN"
| "d_add x NaN = NaN"
| "d_add PInf NInf = NaN"
| "d_add NInf PInf = NaN"
| "d_add PInf y = PInf"
| "d_add x PInf = PInf"
| "d_add NInf y = NInf"
| "d_add x NInf = NInf"

definition d_sub :: "double \<Rightarrow> double \<Rightarrow> double" where
  "d_sub x y = d_add x (d_neg y)"

text \<open>Multiplication by a positive constant.\<close>

fun d_scale :: "real \<Rightarrow> double \<Rightarrow> double" where
  "d_scale c (Fin a) = Fin (c * a)"
| "d_scale c x = x"

text \<open>\<^verbatim>\<open>std::min(a, b)\<close> is \<^verbatim>\<open>b < a ? b : a\<close> and \<^verbatim>\<open>std::max(a, b)\<close> is \<^verbatim>\<open>a < b ? b : a\<close>.\<close>

definition d_min :: "double \<Rightarrow> double \<Rightarrow> double" where
  "d_min a b = (if d_less b a then b else a)"

definition d_max :: "double \<Rightarrow> double \<Rightarrow> double" where
  "d_max a b = (if d_less a b then b else a)"

lemma d_le_Fin [simp]: "d_le (Fin a) (Fin b) \<longleftrightarrow> a \<le> b"
  by (auto simp: d_le_def)

lemma d_sub_Fin [simp]: "d_sub (Fin a) (Fin b) = Fin (a - b)"
  by (simp add: d_sub_def)

lemma d_min_Fin [simp]: "d_min (Fin a) (Fin b) = Fin (min a b)"
  by (auto simp: d_min_def)

lemma d_max_Fin [simp]: "d_max (Fin a) (Fin b) = Fin (max a b)"
  by (auto simp: d_max_def)

text \<open>\<^verbatim>\<open>std::fmod\<close> on finite values: the remainder of the division truncated towards zero.\<close>

definition trunc_real :: "real \<Rightarrow> int" where
  "trunc_real x = (if 0 \<le> x then \<lfloor>x\<rfloor> else \<lceil>x\<rceil>)"

definition fmod :: "real \<Rightarrow> real \<Rightarrow> real" where
  "fmod x y = x - y * of_int (trunc_real (x / y))"

section \<open>Dates\<close>

text \<open>The scheduler reads one field of \<^verbatim>\<open>DateTime\<close>; \<^verbatim>\<open>DateTime{}\<close> is the epoch.\<close>

record DateTime =
  epochSeconds :: int

definition epochDate :: DateTime where
  "epochDate = \<lparr>epochSeconds = 0\<rparr>"

lemma DateTime_eqI: "epochSeconds a = epochSeconds b \<Longrightarrow> (a :: DateTime) = b"
  by (cases a; cases b) simp

record SunCycleResult =
  sun_ok :: bool
  sun_value :: DateTime

record MoonPhaseResult =
  moon_ok :: bool
  moon_angleDegrees :: real
  moon_illumination :: double

record ESPDate =
  addSeconds :: "DateTime \<Rightarrow> int \<Rightarrow> DateTime"
  addMinutes :: "DateTime \<Rightarrow> int \<Rightarrow> DateTime"
  addDays :: "DateTime \<Rightarrow> int \<Rightarrow> DateTime"
  secondUtc :: "DateTime \<Rightarrow> int"
  minuteUtc :: "DateTime \<Rightarrow> int"
  hourUtc :: "DateTime \<Rightarrow> int"
  setTimeOfDayUtc :: "DateTime \<Rightarrow> int \<Rightarrow> int \<Rightarrow> int \<Rightarrow> DateTime"
  getMonthLocal :: "DateTime \<Rightarrow> int"
  getDayLocal :: "DateTime \<Rightarrow> int"
  getWeekdayLocal :: "DateTime \<Rightarrow> int"
  startOfDayLocal :: "DateTime \<Rightarrow> DateTime"
  differenceInMinutes :: "DateTime \<Rightarrow> DateTime \<Rightarrow> int"
  setTimeOfDayLocal :: "DateTime \<Rightarrow> int \<Rightarrow> int \<Rightarrow> int \<Rightarrow> DateTime"
  isBefore :: "DateTime \<Rightarrow> DateTime \<Rightarrow> bool"
  isEqual :: "DateTime \<Rightarrow> DateTime \<Rightarrow> bool"
  date_sunrise :: "DateTime \<Rightarrow> SunCycleResult"
  date_sunset :: "DateTime \<Rightarrow> SunCycleResult"
  date_moonPhase :: "DateTime \<Rightarrow> MoonPhaseResult"

section \<open>What the proofs rely on\<close>

text \<open>Arithmetic on UTC instants: documented behaviour of the library's UTC helpers.\<close>

definition utc_arithmetic :: "ESPDate \<Rightarrow> bool" where
  "utc_arithmetic date \<longleftrightarrow>
     (\<forall>d n. epochSeconds (addSeconds date d n) = epochSeconds d + n) \<and>
     (\<forall>d n. epochSeconds (addMinutes date d n) = epochSeconds d + 60 * n) \<and>
     (\<forall>d. secondUtc date d = epochSeconds d mod 60) \<and>
     (\<forall>d. epochSeconds (setTimeOfDayUtc date d (hourUtc date d) (minuteUtc date d) 0)
        = epochSeconds d - epochSeconds d mod 60) \<and>
     (\<forall>a b. isBefore date a b \<longleftrightarrow> epochSeconds a < epochSeconds b)"

text \<open>
  The scheduler reads hour and minute of an instant as the time elapsed since local midnight, and
  turns them back into an instant with \<^verbatim>\<open>setTimeOfDayLocal\<close>, which reads them as the local clock shows them.
\<close>

definition local_minutes :: "ESPDate \<Rightarrow> DateTime \<Rightarrow> int" where
  "local_minutes date d = differenceInMinutes date d (startOfDayLocal date d)"

definition clock_reading :: "ESPDate \<Rightarrow> DateTime \<Rightarrow> DateTime" where
  "clock_reading date d = setTimeOfDayLocal date d (local_minutes date d div 60) (local_minutes date d mod 60) 0"

text \<open>
  The two agree until the clock is moved, for instance to daylight-saving time: after that, and until
  the next midnight, they differ by the shift. From \<open>lo\<close> until \<open>hi\<close> the clock is steady when every whole
  minute from \<open>lo\<close> on is given back, or becomes an instant after \<open>hi\<close>. A zone with daylight-saving time is
  steady from the midnight after one change until an hour before the next.
\<close>

definition steady_clock :: "ESPDate \<Rightarrow> int \<Rightarrow> int \<Rightarrow> bool" where
  "steady_clock date lo hi \<longleftrightarrow>
     (\<forall>d. epochSeconds d mod 60 = 0 \<and> lo \<le> epochSeconds d \<and> 0 \<le> local_minutes date d \<longrightarrow>
        clock_reading date d = d \<or> hi < epochSeconds (clock_reading date d))"

lemma steady_clock_mono: "steady_clock date lo hi \<Longrightarrow> lo \<le> lo' \<Longrightarrow> hi' \<le> hi \<Longrightarrow> steady_clock date lo' hi'"
  unfolding steady_clock_def by (meson order_trans le_less_trans)

text \<open>What planning between \<open>lo\<close> and \<open>hi\<close> relies on.\<close>

definition steady_period :: "ESPDate \<Rightarrow> int \<Rightarrow> int \<Rightarrow> bool" where
  "steady_period date lo hi \<longleftrightarrow> utc_arithmetic date \<and> steady_clock date lo hi \<and> lo \<le> hi"

lemma steady_period_until: "steady_period date lo hi \<Longrightarrow> lo \<le> hi' \<Longrightarrow> hi' \<le> hi \<Longrightarrow> steady_period date lo hi'"
  by (auto simp: steady_period_def intro: steady_clock_mono)

lemma utc_arithmetic_simps:
  assumes "utc_arithmetic date"
  shows "epochSeconds (addSeconds date d n) = epochSeconds d + n"
    and "epochSeconds (addMinutes date d n) = epochSeconds d + 60 * n"
    and "secondUtc date d = epochSeconds d mod 60"
    and "epochSeconds (setTimeOfDayUtc date d (hourUtc date d) (minuteUtc date d) 0)
      = epochSeconds d - epochSeconds d mod 60"
    and "isBefore date a b \<longleftrightarrow> epochSeconds a < epochSeconds b"
  using assms by (auto simp: utc_arithmetic_def)

section \<open>A fixed-offset calendar\<close>

text \<open>
  A time zone \<open>off\<close> seconds east of UTC, with the proleptic Gregorian calendar, the sun rising at
  six and setting at eighteen hours local time and a moon phase that advances one degree every two
  hours. It is used to exhibit inputs at which the hypotheses above hold.
\<close>

definition civil_month_day :: "int \<Rightarrow> int \<times> int" where
  "civil_month_day days =
     (let z = days + 719468;
          doe = z mod 146097;
          yoe = (doe - doe div 1460 + doe div 36524 - doe div 146096) div 365;
          doy = doe - (365 * yoe + yoe div 4 - yoe div 100);
          mp = (5 * doy + 2) div 153
      in (if mp < 10 then mp + 3 else mp - 9, doy - (153 * mp + 2) div 5 + 1))"

definition local_days :: "int \<Rightarrow> DateTime \<Rightarrow> int" where
  "local_days off d = (epochSeconds d + off) div 86400"

definition local_time :: "int \<Rightarrow> DateTime \<Rightarrow> int \<Rightarrow> int \<Rightarrow> int \<Rightarrow> DateTime" where
  "local_time off d hh mm ss =
     \<lparr>epochSeconds = local_days off d * 86400 + hh * 3600 + mm * 60 + ss - off\<rparr>"

definition fixed_offset_date :: "int \<Rightarrow> ESPDate" where
  "fixed_offset_date off =
     \<lparr>addSeconds = \<lambda>d n. \<lparr>epochSeconds = epochSeconds d + n\<rparr>,
      addMinutes = \<lambda>d n. \<lparr>epochSeconds = epochSeconds d + 60 * n\<rparr>,
      addDays = \<lambda>d n. \<lparr>epochSeconds = epochSeconds d + 86400 * n\<rparr>,
      secondUtc = \<lambda>d. epochSeconds d mod 60,
      minuteUtc = \<lambda>d. epochSeconds d div 60 mod 60,
      hourUtc = \<lambda>d. epochSeconds d div 3600 mod 24,
      setTimeOfDayUtc = \<lambda>d. local_time 0 d,
      getMonthLocal = \<lambda>d. fst (civil_month_day (local_days off d)),
      getDayLocal = \<lambda>d. snd (civil_month_day (local_days off d)),
      getWeekdayLocal = \<lambda>d. (local_days off d + 4) mod 7,
      startOfDayLocal = \<lambda>d. local_time off d 0 0 0,
      differenceInMinutes = \<lambda>a b. (epochSeconds a - epochSeconds b) div 60,
      setTimeOfDayLocal = \<lambda>d. local_time off d,
      isBefore = \<lambda>a b. epochSeconds a < epochSeconds b,
      isEqual = \<lambda>a b. epochSeconds a = epochSeconds b,
      date_sunrise = \<lambda>d. \<lparr>sun_ok = True, sun_value = local_time off d 6 0 0\<rparr>,
      date_sunset = \<lambda>d. \<lparr>sun_ok = True, sun_value = local_time off d 18 0 0\<rparr>,
      date_moonPhase = \<lambda>d. \<lparr>moon_ok = True,
        moon_angleDegrees = of_int (epochSeconds d div 7200 mod 360),
        moon_illumination = Fin (of_int (epochSeconds d div 7200 mod 360) / 360)\<rparr>\<rparr>"

definition utc_date :: ESPDate where
  "utc_date = fixed_offset_date 0"

lemma split_seconds:
  "(e div 86400) * 86400 + (e div 3600 mod 24) * 3600 + (e div 60 mod 60) * 60 = e - e mod (60::int)"
proof -
  have a: "e div 3600 = e div 60 div 60" and b: "e div 86400 = e div 60 div 60 div 24"
    by (simp_all flip: zdiv_zmult2_eq)
  have "e div 60 div 60 div 24 * 24 + e div 60 div 60 mod 24 = e div 60 div 60"
    and "e div 60 div 60 * 60 + e div 60 mod 60 = e div 60"
    and "e div 60 * 60 + e mod 60 = e"
    by (rule div_mult_mod_eq)+
  then show ?thesis unfolding a b by linarith
qed

lemma fixed_offset_utc_arithmetic: "utc_arithmetic (fixed_offset_date off)"
  by (simp add: utc_arithmetic_def fixed_offset_date_def local_time_def local_days_def split_seconds)

lemma split_local_minutes:
  assumes "x mod 60 = (0::int)" and "m = (x - x div 86400 * 86400) div 60"
  shows "0 \<le> m \<and> x div 86400 * 86400 + m div 60 * 3600 + m mod 60 * 60 = x"
proof -
  have r: "x - x div 86400 * 86400 = x mod 86400" by (simp add: minus_div_mult_eq_mod)
  have "x mod 86400 mod 60 = x mod 60" by (rule mod_mod_cancel) simp
  then have "x mod 86400 div 60 * 60 = x mod 86400"
    using assms(1) div_mult_mod_eq [of "x mod 86400" 60] by simp
  then have m: "m * 60 = x mod 86400" "0 \<le> m" using assms(2) r by (auto simp: pos_imp_zdiv_nonneg_iff)
  moreover have "m div 60 * 60 + m mod 60 = m" by (rule div_mult_mod_eq)
  ultimately show ?thesis using r by linarith
qed

lemma fixed_offset_reading:
  assumes "off mod 60 = 0" "epochSeconds d mod 60 = 0"
  shows "0 \<le> local_minutes (fixed_offset_date off) d" "clock_reading (fixed_offset_date off) d = d"
proof -
  let ?x = "epochSeconds d + off" and ?m = "local_minutes (fixed_offset_date off) d"
  have "?x mod 60 = 0" using assms by (metis add.right_neutral mod_add_eq mod_0)
  moreover have m: "?m = (?x - ?x div 86400 * 86400) div 60"
    by (simp add: local_minutes_def fixed_offset_date_def local_time_def local_days_def algebra_simps)
  ultimately have s: "0 \<le> ?m \<and> ?x div 86400 * 86400 + ?m div 60 * 3600 + ?m mod 60 * 60 = ?x"
    by (rule split_local_minutes)
  then show "0 \<le> ?m" by blast
  have "epochSeconds (clock_reading (fixed_offset_date off) d) =
      ?x div 86400 * 86400 + ?m div 60 * 3600 + ?m mod 60 * 60 - off"
    by (simp add: clock_reading_def fixed_offset_date_def local_time_def local_days_def)
  then show "clock_reading (fixed_offset_date off) d = d" using s by (intro DateTime_eqI) simp
qed

lemma fixed_offset_steady: "off mod 60 = 0 \<Longrightarrow> steady_clock (fixed_offset_date off) lo hi"
  by (simp add: steady_clock_def fixed_offset_reading)

section \<open>A calendar with a change to summer time\<close>

text \<open>
  A zone one hour east of UTC that puts its clock forward by an hour at the instant \<open>change\<close>, as the zones of
  the European Union do in March. A local time is turned into an instant with the offset that is
  in force then.
\<close>

definition zone_offset :: "int \<Rightarrow> int \<Rightarrow> int" where
  "zone_offset change e = (if e < change then 3600 else 7200)"

definition zone_days :: "int \<Rightarrow> DateTime \<Rightarrow> int" where
  "zone_days change d = (epochSeconds d + zone_offset change (epochSeconds d)) div 86400"

definition zone_instant :: "int \<Rightarrow> int \<Rightarrow> int" where
  "zone_instant change w = (if w - 3600 < change then w - 3600 else w - 7200)"

definition summer_time_date :: "int \<Rightarrow> ESPDate" where
  "summer_time_date change = (fixed_offset_date 3600)
     \<lparr>getMonthLocal := \<lambda>d. fst (civil_month_day (zone_days change d)),
      getDayLocal := \<lambda>d. snd (civil_month_day (zone_days change d)),
      getWeekdayLocal := \<lambda>d. (zone_days change d + 4) mod 7,
      startOfDayLocal := \<lambda>d. \<lparr>epochSeconds = zone_instant change (zone_days change d * 86400)\<rparr>,
      setTimeOfDayLocal := \<lambda>d hh mm ss.
        \<lparr>epochSeconds = zone_instant change (zone_days change d * 86400 + hh * 3600 + mm * 60 + ss)\<rparr>\<rparr>"

lemma summer_time_utc_arithmetic: "utc_arithmetic (summer_time_date change)"
  using fixed_offset_utc_arithmetic [of 3600] by (simp add: utc_arithmetic_def summer_time_date_def)

lemma zone_instant_minute: "zone_instant change (n * 86400) mod 60 = 0"
proof -
  have "n * 86400 - 3600 = 60 * (n * 1440 - 60)" "n * 86400 - 7200 = 60 * (n * 1440 - 120)" by simp_all
  then show ?thesis unfolding zone_instant_def by (simp only: mod_mult_self1_is_0 if_cancel simp_thms split: if_split)
qed

text \<open>On the day of the change, after it, a minute is turned into the instant an hour before it.\<close>

lemma summer_time_reading:
  assumes "epochSeconds d mod 60 = 0"
  shows "epochSeconds (clock_reading (summer_time_date change) d) =
    (if change \<le> epochSeconds d \<and> zone_days change d * 86400 - 3600 < change then epochSeconds d - 3600
     else epochSeconds d)"
proof -
  let ?e = "epochSeconds d" and ?D = "zone_days change d * 86400" and ?m = "local_minutes (summer_time_date change) d"
  have m: "?m = (?e - zone_instant change ?D) div 60"
    by (simp add: local_minutes_def summer_time_date_def fixed_offset_date_def)
  have "(?e - zone_instant change ?D) mod 60 = 0"
    using assms zone_instant_minute [of change "zone_days change d"] by (metis mod_diff_eq diff_0_right mod_0)
  then have "?m * 60 = ?e - zone_instant change ?D"
    using div_mult_mod_eq [of "?e - zone_instant change ?D" 60] m by simp
  moreover have "?m div 60 * 3600 + ?m mod 60 * 60 = ?m * 60"
    using div_mult_mod_eq [of ?m 60] by linarith
  moreover have "epochSeconds (clock_reading (summer_time_date change) d) =
      zone_instant change (?D + (?m div 60 * 3600 + ?m mod 60 * 60))"
    by (simp add: clock_reading_def summer_time_date_def ac_simps)
  ultimately have r: "epochSeconds (clock_reading (summer_time_date change) d) =
      zone_instant change (?D + (?e - zone_instant change ?D))" by simp
  have "?D \<le> ?e + zone_offset change ?e" using div_mult_mod_eq [of "?e + zone_offset change ?e" 86400]
      pos_mod_sign [of 86400 "?e + zone_offset change ?e"] unfolding zone_days_def by linarith
  then show ?thesis unfolding r by (auto simp: zone_instant_def zone_offset_def split: if_splits)
qed

lemma summer_time_steady:
  assumes "hi < change - 3600"
  shows "steady_clock (summer_time_date change) lo hi"
proof -
  have "clock_reading (summer_time_date change) d = d \<or> hi < epochSeconds (clock_reading (summer_time_date change) d)"
    if "epochSeconds d mod 60 = 0" for d
    using summer_time_reading [OF that, of change] assms
    by (cases "change \<le> epochSeconds d \<and> zone_days change d * 86400 - 3600 < change") (auto intro: DateTime_eqI)
  then show ?thesis by (simp add: steady_clock_def)
qed

end
