(* ===== verification/Schedule_Field.thy ===== *)
theory Schedule_Field
  imports Sched_Prelude
begin

text \<open>
  \<^verbatim>\<open>schedule/schedule_field.h\<close> and \<^verbatim>\<open>schedule/schedule_field.cpp\<close>: a cron field as a 64-bit mask of
  the values it accepts, or the wildcard. Every constructor is shown to accept exactly the values
  its name promises.
\<close>

section \<open>The field and its constructors\<close>

record ScheduleField =
  sf_mask :: u64
  sf_isAny :: bool

definition emptyField :: ScheduleField where
  "emptyField = \<lparr>sf_mask = 0, sf_isAny = False\<rparr>"

text \<open>\<^verbatim>\<open>1ULL << value\<close>, for \<open>value\<close> from 0 to 63.\<close>

definition bit_of :: "int \<Rightarrow> u64" where
  "bit_of v = push_bit (nat v) 1"

definition sf_any :: ScheduleField where
  "sf_any = emptyField\<lparr>sf_isAny := True\<rparr>"

definition sf_only :: "int \<Rightarrow> ScheduleField" where
  "sf_only v =
     (if v < 0 \<or> v > 63 then emptyField else emptyField\<lparr>sf_mask := bit_of v\<rparr>)"

text \<open>
  The loop \<^verbatim>\<open>for (value = from; value <= to; value += step) mask |= 1ULL << value\<close> of \<^verbatim>\<open>range\<close>,
  \<^verbatim>\<open>every\<close> and \<^verbatim>\<open>rangeEvery\<close>. The callers have checked \<^verbatim>\<open>step > 0\<close>. The additions are exact here;
  in C++ \<^verbatim>\<open>value += step\<close> stays below \<^verbatim>\<open>INT_MAX\<close> for every step up to \<^verbatim>\<open>INT_MAX - 63\<close>.
\<close>

function mask_loop :: "int \<Rightarrow> int \<Rightarrow> int \<Rightarrow> u64 \<Rightarrow> u64" where
  "mask_loop v to step m =
     (if v \<le> to \<and> 0 < step then mask_loop (v + step) to step (m OR bit_of v) else m)"
  by pat_completeness auto
termination
  by (relation "measure (\<lambda>(v, to, step, m). nat (to + 1 - v))") auto

declare mask_loop.simps [simp del]

definition sf_range :: "int \<Rightarrow> int \<Rightarrow> ScheduleField" where
  "sf_range from to =
     (if from < 0 \<or> to < 0 \<or> from > to \<or> to > 63 then emptyField
      else emptyField\<lparr>sf_mask := mask_loop from to 1 0\<rparr>)"

definition sf_every :: "int \<Rightarrow> ScheduleField" where
  "sf_every step =
     (if step \<le> 0 then emptyField else emptyField\<lparr>sf_mask := mask_loop 0 63 step 0\<rparr>)"

definition sf_rangeEvery :: "int \<Rightarrow> int \<Rightarrow> int \<Rightarrow> ScheduleField" where
  "sf_rangeEvery from to step =
     (if step \<le> 0 \<or> from < 0 \<or> to < 0 \<or> from > to \<or> to > 63 then emptyField
      else emptyField\<lparr>sf_mask := mask_loop from to step 0\<rparr>)"

text \<open>The loop of \<^verbatim>\<open>list\<close>: one value outside 0 to 63 empties the whole field.\<close>

fun list_loop :: "int list \<Rightarrow> u64 \<Rightarrow> u64" where
  "list_loop [] m = m"
| "list_loop (v # vs) m = (if v < 0 \<or> v > 63 then 0 else list_loop vs (m OR bit_of v))"

definition sf_list :: "int list option \<Rightarrow> ScheduleField" where
  "sf_list values =
     (case values of
        None \<Rightarrow> emptyField
      | Some vs \<Rightarrow> if vs = [] then emptyField else emptyField\<lparr>sf_mask := list_loop vs 0\<rparr>)"

definition sf_matches :: "ScheduleField \<Rightarrow> int \<Rightarrow> bool" where
  "sf_matches field v =
     (if sf_isAny field then True
      else if v < 0 \<or> v > 63 then False
      else (sf_mask field AND bit_of v) \<noteq> 0)"

definition sf_empty :: "ScheduleField \<Rightarrow> bool" where
  "sf_empty field \<longleftrightarrow> \<not> sf_isAny field \<and> sf_mask field = 0"

section \<open>Masks as sets of values\<close>

lemma bit_bit_of: "0 \<le> v \<Longrightarrow> v \<le> 63 \<Longrightarrow> bit (bit_of v) i \<longleftrightarrow> i = nat v"
  by (auto simp: bit_of_def bit_push_bit_iff bit_1_iff bit_exp_iff)

lemma and_bit_of:
  assumes "0 \<le> v" "v \<le> 63"
  shows "(m AND bit_of v) \<noteq> 0 \<longleftrightarrow> bit m (nat v)"
proof -
  have "(m AND bit_of v) \<noteq> 0 \<longleftrightarrow> (\<exists>i. bit (m AND bit_of v) i)"
    by (metis bit_0_eq bit_eq_iff bot_apply bot_bool_def)
  then show ?thesis using assms by (auto simp: bit_and_iff bit_bit_of)
qed

text \<open>What a field accepts, written over the bits of its mask.\<close>

lemma sf_matches_iff:
  "sf_matches f v \<longleftrightarrow> sf_isAny f \<or> 0 \<le> v \<and> v \<le> 63 \<and> bit (sf_mask f) (nat v)"
  by (auto simp: sf_matches_def and_bit_of)

lemma bit_mask_loop:
  assumes "0 < step" "to \<le> 63"
  shows "0 \<le> v \<Longrightarrow> bit (mask_loop v to step m) i \<longleftrightarrow>
    bit m i \<or> v \<le> int i \<and> int i \<le> to \<and> step dvd (int i - v)"
  using assms
proof (induction v to step m rule: mask_loop.induct)
  case (1 v to step m)
  show ?case
  proof (cases "v \<le> to")
    case True
    have "bit (m OR bit_of v) i \<longleftrightarrow> bit m i \<or> int i = v"
      using 1(2,4) True by (auto simp: bit_or_iff bit_bit_of)
    moreover have "int i = v \<or> v + step \<le> int i \<and> step dvd (int i - (v + step)) \<longleftrightarrow>
      v \<le> int i \<and> step dvd (int i - v)"
    proof -
      have "step dvd (int i - v) \<longleftrightarrow> step dvd (int i - (v + step))"
        by (metis diff_diff_eq dvd_diff_commute dvd_refl dvd_diff dvd_add_right_iff diff_add_cancel)
      moreover have "step \<le> int i - v" if "v < int i" "step dvd (int i - v)"
        using that zdvd_imp_le by auto
      ultimately show ?thesis using \<open>0 < step\<close> by auto
    qed
    ultimately show ?thesis
      using 1 True by (subst mask_loop.simps) auto
  next
    case False
    then show ?thesis by (subst mask_loop.simps) auto
  qed
qed

lemma bit_list_loop:
  "bit (list_loop vs m) i \<longleftrightarrow>
     (\<forall>v \<in> set vs. 0 \<le> v \<and> v \<le> 63) \<and> (bit m i \<or> int i \<in> set vs)"
  by (induction vs m rule: list_loop.induct) (auto simp: bit_or_iff bit_bit_of not_less)

lemma sf_matches_any [simp]: "sf_isAny sf_any" "sf_matches sf_any x"
  by (simp_all add: sf_any_def sf_matches_def)

lemma sf_matches_only: "sf_matches (sf_only v) x \<longleftrightarrow> 0 \<le> v \<and> v \<le> 63 \<and> x = v"
  by (auto simp: sf_matches_iff sf_only_def emptyField_def bit_bit_of)

lemma sf_matches_list:
  "sf_matches (sf_list (Some vs)) x \<longleftrightarrow> set vs \<subseteq> {0..63} \<and> x \<in> set vs"
  by (auto simp: sf_matches_iff sf_list_def emptyField_def bit_list_loop)

section \<open>What the constructors accept\<close>

lemma schedule_field_list:
  "sf_matches (sf_list values) x \<longleftrightarrow>
     (case values of None \<Rightarrow> False
      | Some vs \<Rightarrow> set vs \<subseteq> {0..63} \<and> x \<in> set vs)"
  by (cases "values") (simp_all add: sf_matches_list, simp add: sf_matches_iff sf_list_def emptyField_def)

text \<open>
  C40: every constructor of \<^verbatim>\<open>ScheduleField\<close> accepts exactly the values it names: \<^verbatim>\<open>any\<close> all,
  \<^verbatim>\<open>only\<close> one, \<^verbatim>\<open>range\<close> an interval, \<^verbatim>\<open>every\<close> the multiples of its step, \<^verbatim>\<open>rangeEvery\<close> the
  members of an arithmetic progression and \<^verbatim>\<open>list\<close> the listed values, with arguments outside 0 to 63, a null
  pointer or an empty list accepting nothing.
\<close>

theorem schedule_field_constructors:
  "sf_matches sf_any x \<and>
   (sf_matches (sf_only v) x \<longleftrightarrow> 0 \<le> v \<and> v \<le> 63 \<and> x = v) \<and>
   (sf_matches (sf_range from to) x \<longleftrightarrow> 0 \<le> from \<and> from \<le> x \<and> x \<le> to \<and> to \<le> 63) \<and>
   (sf_matches (sf_every step) x \<longleftrightarrow> 0 < step \<and> 0 \<le> x \<and> x \<le> 63 \<and> step dvd x) \<and>
   (sf_matches (sf_rangeEvery from to step) x \<longleftrightarrow>
      0 < step \<and> 0 \<le> from \<and> from \<le> x \<and> x \<le> to \<and> to \<le> 63 \<and> step dvd (x - from)) \<and>
   (sf_matches (sf_list values) x \<longleftrightarrow> (case values of None \<Rightarrow> False | Some vs \<Rightarrow> set vs \<subseteq> {0..63} \<and> x \<in> set vs))"
  unfolding sf_matches_only schedule_field_list
  by (auto simp: sf_matches_iff sf_range_def sf_every_def sf_rangeEvery_def emptyField_def
      bit_mask_loop)

end
