(* ===== verification/Schedule_Spec.thy ===== *)
theory Schedule_Spec
  imports Esp_Date Schedule_Field
begin

text \<open>
  \<^verbatim>\<open>schedule/schedule_spec.h\<close> and \<^verbatim>\<open>schedule/schedule_spec.cpp\<close>: the schedule description a job
  carries and the helpers that build one.
\<close>

datatype ScheduleKind =
  Cron | OneShotUtc | Sunrise | Sunset | MoonPhaseAngle | MoonIlluminationPercent

datatype MoonPhaseName =
  NewMoon | WaxingCrescent | FirstQuarter | WaxingGibbous
  | FullMoon | WaningGibbous | LastQuarter | WaningCrescent

record ScheduleSpec =
  sp_kind :: ScheduleKind
  sp_isOneShot :: bool
  sp_onceAtUtc :: DateTime
  sp_minute :: ScheduleField
  sp_hour :: ScheduleField
  sp_dayOfMonth :: ScheduleField
  sp_month :: ScheduleField
  sp_dayOfWeek :: ScheduleField
  sp_sunOffsetMinutes :: int
  sp_moonPhaseAngleDegrees :: int
  sp_moonPhaseToleranceDegrees :: int
  sp_moonIlluminationTargetPercent :: double
  sp_moonIlluminationTolerancePercent :: double

definition defaultSpec :: ScheduleSpec where
  "defaultSpec =
     \<lparr>sp_kind = Cron, sp_isOneShot = False, sp_onceAtUtc = epochDate,
      sp_minute = sf_any, sp_hour = sf_any, sp_dayOfMonth = sf_any, sp_month = sf_any,
      sp_dayOfWeek = sf_any, sp_sunOffsetMinutes = 0, sp_moonPhaseAngleDegrees = 0,
      sp_moonPhaseToleranceDegrees = 1, sp_moonIlluminationTargetPercent = Fin 0,
      sp_moonIlluminationTolerancePercent = Fin (1 / 2)\<rparr>"

fun moonPhaseAngleForName :: "MoonPhaseName \<Rightarrow> int" where
  "moonPhaseAngleForName NewMoon = 0"
| "moonPhaseAngleForName WaxingCrescent = 45"
| "moonPhaseAngleForName FirstQuarter = 90"
| "moonPhaseAngleForName WaxingGibbous = 135"
| "moonPhaseAngleForName FullMoon = 180"
| "moonPhaseAngleForName WaningGibbous = 225"
| "moonPhaseAngleForName LastQuarter = 270"
| "moonPhaseAngleForName WaningCrescent = 315"

definition onceUtc :: "DateTime \<Rightarrow> ScheduleSpec" where
  "onceUtc whenUtc =
     defaultSpec\<lparr>sp_kind := OneShotUtc, sp_isOneShot := True, sp_onceAtUtc := whenUtc\<rparr>"

definition dailyAtLocal :: "int \<Rightarrow> int \<Rightarrow> ScheduleSpec" where
  "dailyAtLocal hour minute =
     defaultSpec\<lparr>sp_hour := sf_only hour, sp_minute := sf_only minute\<rparr>"

text \<open>The loop of \<^verbatim>\<open>weeklyAtLocal\<close> collects the set bits 0 to 6 of the mask, in order.\<close>

definition dowDays :: "u8 \<Rightarrow> int list" where
  "dowDays dowMask = map int (filter (\<lambda>b. (dowMask AND push_bit b 1) \<noteq> 0) [0..<7])"

definition weeklyAtLocal :: "u8 \<Rightarrow> int \<Rightarrow> int \<Rightarrow> ScheduleSpec" where
  "weeklyAtLocal dowMask hour minute =
     (let days = dowDays dowMask in
      defaultSpec\<lparr>sp_hour := sf_only hour, sp_minute := sf_only minute,
        sp_dayOfWeek := (if length days = 0 then sf_any else sf_list (Some days))\<rparr>)"

definition monthlyOnDayLocal :: "int \<Rightarrow> int \<Rightarrow> int \<Rightarrow> ScheduleSpec" where
  "monthlyOnDayLocal dayOfMonth hour minute =
     (let day = (if dayOfMonth < 1 then 1 else if dayOfMonth > 31 then 31 else dayOfMonth) in
      defaultSpec\<lparr>sp_dayOfMonth := sf_only day, sp_hour := sf_only hour, sp_minute := sf_only minute\<rparr>)"

definition spec_sunrise :: "int \<Rightarrow> ScheduleSpec" where
  "spec_sunrise offsetMinutes =
     defaultSpec\<lparr>sp_kind := Sunrise, sp_sunOffsetMinutes := offsetMinutes\<rparr>"

definition spec_sunset :: "int \<Rightarrow> ScheduleSpec" where
  "spec_sunset offsetMinutes =
     defaultSpec\<lparr>sp_kind := Sunset, sp_sunOffsetMinutes := offsetMinutes\<rparr>"

definition moonPhaseAngle :: "int \<Rightarrow> int \<Rightarrow> ScheduleSpec" where
  "moonPhaseAngle angleDegrees toleranceDegrees =
     defaultSpec\<lparr>sp_kind := MoonPhaseAngle, sp_moonPhaseAngleDegrees := angleDegrees,
       sp_moonPhaseToleranceDegrees := toleranceDegrees\<rparr>"

definition spec_moonPhase :: "MoonPhaseName \<Rightarrow> int \<Rightarrow> ScheduleSpec" where
  "spec_moonPhase name toleranceDegrees =
     moonPhaseAngle (moonPhaseAngleForName name) toleranceDegrees"

definition moonIlluminationPercent :: "double \<Rightarrow> double \<Rightarrow> ScheduleSpec" where
  "moonIlluminationPercent percent tolerancePercent =
     defaultSpec\<lparr>sp_kind := MoonIlluminationPercent, sp_moonIlluminationTargetPercent := percent,
       sp_moonIlluminationTolerancePercent := tolerancePercent\<rparr>"

definition custom ::
  "ScheduleField \<Rightarrow> ScheduleField \<Rightarrow> ScheduleField \<Rightarrow> ScheduleField \<Rightarrow> ScheduleField \<Rightarrow> ScheduleSpec"
where
  "custom minute hour dayOfMonth month dow =
     defaultSpec\<lparr>sp_minute := minute, sp_hour := hour, sp_dayOfMonth := dayOfMonth, sp_month := month,
       sp_dayOfWeek := dow\<rparr>"

lemma and_push_bit_u8: "(m AND push_bit b 1) \<noteq> 0 \<longleftrightarrow> bit (m :: u8) b"
proof -
  have "(m AND push_bit b 1) \<noteq> 0 \<longleftrightarrow> (\<exists>i. bit (m AND push_bit b 1) i)"
    by (metis bit_0_eq bit_eq_iff bot_apply bot_bool_def)
  also have "\<dots> \<longleftrightarrow> bit m b"
    by (auto simp: bit_and_iff bit_exp_iff dest: bit_imp_le_length intro: exI [of _ b])
  finally show ?thesis .
qed

lemma set_dowDays: "set (dowDays m) = int ` {b. b < 7 \<and> bit m b}"
  unfolding dowDays_def and_push_bit_u8 by auto

end
