(* ===== verification/Schedule_Calculator.thy ===== *)
theory Schedule_Calculator
  imports Schedule_Spec
begin

text \<open>
  \<^verbatim>\<open>schedule/schedule_calculator.cpp\<close>: validation of a schedule and the search for its next
  occurrence. An out-parameter that is only written on success is an \<open>option\<close> result. The
  bounded \<^verbatim>\<open>for\<close> loops are recursive functions on the number of iterations left.
\<close>

section \<open>Constants and helpers\<close>

definition kMaxSearchMinutes :: nat where "kMaxSearchMinutes = 366 * 24 * 60"
definition kMaxSunSearchDays :: nat where "kMaxSunSearchDays = 732"
definition kMaxMoonSearchMinutes :: nat where "kMaxMoonSearchMinutes = 62 * 24 * 60"
definition kMinSunOffsetMinutes :: int where "kMinSunOffsetMinutes = -1440"
definition kMaxSunOffsetMinutes :: int where "kMaxSunOffsetMinutes = 1440"
definition kMinMoonPhaseAngle :: int where "kMinMoonPhaseAngle = 0"
definition kMaxMoonPhaseAngle :: int where "kMaxMoonPhaseAngle = 359"
definition kMaxMoonPhaseTolerance :: int where "kMaxMoonPhaseTolerance = 30"
definition kMinIlluminationPercent :: real where "kMinIlluminationPercent = 0"
definition kMaxIlluminationPercent :: real where "kMaxIlluminationPercent = 100"
definition kMaxIlluminationTolerancePercent :: real where "kMaxIlluminationTolerancePercent = 50"
definition kFullCircleDegrees :: real where "kFullCircleDegrees = 360"
definition kComparisonEpsilon :: real where "kComparisonEpsilon = 1 / 10 ^ 9"

definition resolvedScheduleKind :: "ScheduleSpec \<Rightarrow> ScheduleKind" where
  "resolvedScheduleKind spec =
     (if sp_kind spec = Cron \<and> sp_isOneShot spec then OneShotUtc else sp_kind spec)"

definition roundToNextMinute :: "ESPDate \<Rightarrow> DateTime \<Rightarrow> DateTime" where
  "roundToNextMinute date fromUtc =
     (let rounded = (if secondUtc date fromUtc > 0 then addMinutes date fromUtc 1 else fromUtc)
      in setTimeOfDayUtc date rounded (hourUtc date rounded) (minuteUtc date rounded) 0)"

definition allowedMask :: "int \<Rightarrow> int \<Rightarrow> u64" where
  "allowedMask mn mx =
     (let mn = (if mn < 0 then 0 else mn);
          mx = (if mx > 63 then 63 else mx)
      in if mx \<ge> 63 then NOT 0
         else let upper = push_bit (nat (mx + 1)) 1 - 1;
                  lower = (if mn = 0 then 0 else push_bit (nat mn) 1 - 1)
              in upper AND NOT lower)"

definition fieldWithinRange :: "ScheduleField \<Rightarrow> int \<Rightarrow> int \<Rightarrow> bool" where
  "fieldWithinRange field mn mx =
     (if sf_isAny field then True
      else let msk = sf_mask field; allowed = allowedMask mn mx
           in msk \<noteq> 0 \<and> (msk AND allowed) \<noteq> 0)"

definition normalizeAngle360 :: "real \<Rightarrow> real" where
  "normalizeAngle360 angle =
     (let normalized = fmod angle kFullCircleDegrees in
      if normalized < 0 then normalized + kFullCircleDegrees else normalized)"

definition unwrapAngle :: "real \<Rightarrow> real \<Rightarrow> real" where
  "unwrapAngle previousUnwrapped currentWrapped =
     (let previousWrapped = normalizeAngle360 previousUnwrapped;
          delta = currentWrapped - previousWrapped;
          delta = (if delta > 180 then delta - kFullCircleDegrees
                   else if delta < -180 then delta + kFullCircleDegrees else delta)
      in previousUnwrapped + delta)"

definition valueWithinPeriodicWindow :: "real \<Rightarrow> real \<Rightarrow> real \<Rightarrow> bool" where
  "valueWithinPeriodicWindow v center tolerance =
     (let distance = \<bar>v - center\<bar>;
          wrapped = fmod distance kFullCircleDegrees;
          wrapped = (if wrapped < 0 then wrapped + kFullCircleDegrees else wrapped);
          minimumDistance = min wrapped (kFullCircleDegrees - wrapped)
      in minimumDistance \<le> tolerance + kComparisonEpsilon)"

definition segmentIntersectsRange :: "double \<Rightarrow> double \<Rightarrow> double \<Rightarrow> double \<Rightarrow> bool" where
  "segmentIntersectsRange a b minValue maxValue =
     (let lo = d_min a b; hi = d_max a b
      in d_le (d_sub minValue (Fin kComparisonEpsilon)) hi \<and>
         d_le lo (d_add maxValue (Fin kComparisonEpsilon)))"

definition segmentIntersectsPeriodicWindow :: "real \<Rightarrow> real \<Rightarrow> real \<Rightarrow> real \<Rightarrow> bool" where
  "segmentIntersectsPeriodicWindow a b center tolerance =
     (let lo = min a b;
          hi = max a b;
          firstPeriod = \<lfloor>(lo - (center + tolerance)) / kFullCircleDegrees\<rfloor> - 1;
          lastPeriod = \<lceil>(hi - (center - tolerance)) / kFullCircleDegrees\<rceil> + 1
      in list_ex (\<lambda>period.
           let shift = of_int period * kFullCircleDegrees;
               minWindow = center - tolerance + shift;
               maxWindow = center + tolerance + shift
           in segmentIntersectsRange (Fin lo) (Fin hi) (Fin minWindow) (Fin maxWindow))
         [firstPeriod..lastPeriod])"

section \<open>The searches\<close>

text \<open>The day test of the cron search: both fields restricted means either may match.\<close>

definition cron_day_ok :: "ScheduleSpec \<Rightarrow> int \<Rightarrow> int \<Rightarrow> bool" where
  "cron_day_ok spec day dayOfWeek =
     (let domAny = sf_isAny (sp_dayOfMonth spec);
          dowAny = sf_isAny (sp_dayOfWeek spec);
          domOk = sf_matches (sp_dayOfMonth spec) day;
          dowOk = sf_matches (sp_dayOfWeek spec) dayOfWeek
      in if domAny \<and> dowAny then True
         else if domAny then dowOk
         else if dowAny then domOk
         else domOk \<or> dowOk)"

fun cron_loop :: "ESPDate \<Rightarrow> ScheduleSpec \<Rightarrow> DateTime \<Rightarrow> nat \<Rightarrow> DateTime option" where
  "cron_loop date spec cursor 0 = None"
| "cron_loop date spec cursor (Suc n) =
     (let month = getMonthLocal date cursor;
          day = getDayLocal date cursor;
          dayOfWeek = getWeekdayLocal date cursor;
          startOfDay = startOfDayLocal date cursor;
          minutesIntoDay = differenceInMinutes date cursor startOfDay
      in if minutesIntoDay < 0 then cron_loop date spec (addMinutes date cursor 1) n
         else let hour = minutesIntoDay div 60;
                  minute = minutesIntoDay mod 60
              in if sf_matches (sp_month spec) month \<and> sf_matches (sp_hour spec) hour \<and>
                    sf_matches (sp_minute spec) minute \<and> cron_day_ok spec day dayOfWeek
                 then Some (setTimeOfDayLocal date cursor hour minute 0)
                 else cron_loop date spec (addMinutes date cursor 1) n)"

definition computeNextCronOccurrence ::
  "ESPDate \<Rightarrow> ScheduleSpec \<Rightarrow> DateTime \<Rightarrow> DateTime option" where
  "computeNextCronOccurrence date spec fromUtc =
     cron_loop date spec (roundToNextMinute date fromUtc) kMaxSearchMinutes"

fun sun_loop ::
  "ESPDate \<Rightarrow> ScheduleSpec \<Rightarrow> DateTime \<Rightarrow> DateTime \<Rightarrow> bool \<Rightarrow> int \<Rightarrow> nat \<Rightarrow> DateTime option" where
  "sun_loop date spec rounded startOfDay sunrise dayOffset 0 = None"
| "sun_loop date spec rounded startOfDay sunrise dayOffset (Suc n) =
     (let cursor = addDays date startOfDay dayOffset;
          cycle = (if sunrise then date_sunrise date cursor else date_sunset date cursor)
      in if \<not> sun_ok cycle then sun_loop date spec rounded startOfDay sunrise (dayOffset + 1) n
         else let candidate = addMinutes date (sun_value cycle) (sp_sunOffsetMinutes spec)
              in if isBefore date candidate rounded
                 then sun_loop date spec rounded startOfDay sunrise (dayOffset + 1) n
                 else Some candidate)"

definition computeNextSunOccurrence ::
  "ESPDate \<Rightarrow> ScheduleSpec \<Rightarrow> DateTime \<Rightarrow> bool \<Rightarrow> DateTime option" where
  "computeNextSunOccurrence date spec fromUtc sunrise =
     (let rounded = roundToNextMinute date fromUtc;
          startOfDay = startOfDayLocal date rounded
      in sun_loop date spec rounded startOfDay sunrise 0 kMaxSunSearchDays)"

fun moon_phase_loop ::
  "ESPDate \<Rightarrow> ScheduleSpec \<Rightarrow> real \<Rightarrow> DateTime \<Rightarrow> nat \<Rightarrow> DateTime option" where
  "moon_phase_loop date spec previousUnwrapped current 0 = None"
| "moon_phase_loop date spec previousUnwrapped current (Suc n) =
     (let currentPhase = date_moonPhase date current in
      if \<not> moon_ok currentPhase then None
      else let currentUnwrapped = unwrapAngle previousUnwrapped (moon_angleDegrees currentPhase);
               angle = of_int (sp_moonPhaseAngleDegrees spec);
               tolerance = of_int (sp_moonPhaseToleranceDegrees spec);
               crossed = \<not> valueWithinPeriodicWindow previousUnwrapped angle tolerance \<and>
                 segmentIntersectsPeriodicWindow previousUnwrapped currentUnwrapped angle tolerance
           in if crossed then Some current
              else moon_phase_loop date spec currentUnwrapped (addMinutes date current 1) n)"

definition computeNextMoonPhaseOccurrence ::
  "ESPDate \<Rightarrow> ScheduleSpec \<Rightarrow> DateTime \<Rightarrow> DateTime option" where
  "computeNextMoonPhaseOccurrence date spec fromUtc =
     (let rounded = roundToNextMinute date fromUtc;
          previous = addMinutes date rounded (-1);
          previousPhase = date_moonPhase date previous
      in if \<not> moon_ok previousPhase then None
         else moon_phase_loop date spec (moon_angleDegrees previousPhase) rounded
                kMaxMoonSearchMinutes)"

fun moon_illumination_loop ::
  "ESPDate \<Rightarrow> ScheduleSpec \<Rightarrow> double \<Rightarrow> DateTime \<Rightarrow> nat \<Rightarrow> DateTime option" where
  "moon_illumination_loop date spec previousIllumination current 0 = None"
| "moon_illumination_loop date spec previousIllumination current (Suc n) =
     (let currentPhase = date_moonPhase date current in
      if \<not> moon_ok currentPhase then None
      else let currentIllumination = d_scale 100 (moon_illumination currentPhase);
               minWindow = d_sub (sp_moonIlluminationTargetPercent spec)
                 (sp_moonIlluminationTolerancePercent spec);
               maxWindow = d_add (sp_moonIlluminationTargetPercent spec)
                 (sp_moonIlluminationTolerancePercent spec);
               wasInside = d_le (d_sub minWindow (Fin kComparisonEpsilon)) previousIllumination \<and>
                 d_le previousIllumination (d_add maxWindow (Fin kComparisonEpsilon))
           in if \<not> wasInside \<and>
                 segmentIntersectsRange previousIllumination currentIllumination minWindow maxWindow
              then Some current
              else moon_illumination_loop date spec currentIllumination (addMinutes date current 1) n)"

definition computeNextMoonIlluminationOccurrence ::
  "ESPDate \<Rightarrow> ScheduleSpec \<Rightarrow> DateTime \<Rightarrow> DateTime option" where
  "computeNextMoonIlluminationOccurrence date spec fromUtc =
     (let rounded = roundToNextMinute date fromUtc;
          previous = addMinutes date rounded (-1);
          previousPhase = date_moonPhase date previous
      in if \<not> moon_ok previousPhase then None
         else moon_illumination_loop date spec (d_scale 100 (moon_illumination previousPhase)) rounded
                kMaxMoonSearchMinutes)"

section \<open>The public functions\<close>

definition validate :: "ScheduleSpec \<Rightarrow> bool" where
  "validate spec =
     (case resolvedScheduleKind spec of
        OneShotUtc \<Rightarrow> True
      | Cron \<Rightarrow>
          fieldWithinRange (sp_minute spec) 0 59 \<and> fieldWithinRange (sp_hour spec) 0 23 \<and>
          fieldWithinRange (sp_dayOfMonth spec) 1 31 \<and> fieldWithinRange (sp_month spec) 1 12 \<and>
          fieldWithinRange (sp_dayOfWeek spec) 0 6
      | Sunrise \<Rightarrow>
          sp_sunOffsetMinutes spec \<ge> kMinSunOffsetMinutes \<and>
          sp_sunOffsetMinutes spec \<le> kMaxSunOffsetMinutes
      | Sunset \<Rightarrow>
          sp_sunOffsetMinutes spec \<ge> kMinSunOffsetMinutes \<and>
          sp_sunOffsetMinutes spec \<le> kMaxSunOffsetMinutes
      | MoonPhaseAngle \<Rightarrow>
          sp_moonPhaseAngleDegrees spec \<ge> kMinMoonPhaseAngle \<and>
          sp_moonPhaseAngleDegrees spec \<le> kMaxMoonPhaseAngle \<and>
          sp_moonPhaseToleranceDegrees spec \<ge> 0 \<and>
          sp_moonPhaseToleranceDegrees spec \<le> kMaxMoonPhaseTolerance
      | MoonIlluminationPercent \<Rightarrow>
          d_isfinite (sp_moonIlluminationTargetPercent spec) \<and>
          d_isfinite (sp_moonIlluminationTolerancePercent spec) \<and>
          d_le (Fin kMinIlluminationPercent) (sp_moonIlluminationTargetPercent spec) \<and>
          d_le (sp_moonIlluminationTargetPercent spec) (Fin kMaxIlluminationPercent) \<and>
          d_less (Fin 0) (sp_moonIlluminationTolerancePercent spec) \<and>
          d_le (sp_moonIlluminationTolerancePercent spec) (Fin kMaxIlluminationTolerancePercent))"

definition computeNext :: "ESPDate \<Rightarrow> ScheduleSpec \<Rightarrow> DateTime \<Rightarrow> DateTime option" where
  "computeNext date spec fromUtc =
     (case resolvedScheduleKind spec of
        OneShotUtc \<Rightarrow> Some (sp_onceAtUtc spec)
      | Cron \<Rightarrow> computeNextCronOccurrence date spec fromUtc
      | Sunrise \<Rightarrow> computeNextSunOccurrence date spec fromUtc True
      | Sunset \<Rightarrow> computeNextSunOccurrence date spec fromUtc False
      | MoonPhaseAngle \<Rightarrow> computeNextMoonPhaseOccurrence date spec fromUtc
      | MoonIlluminationPercent \<Rightarrow> computeNextMoonIlluminationOccurrence date spec fromUtc)"

section \<open>Validation\<close>

lemma bit_allowedMask:
  assumes "0 \<le> mn" "mn \<le> mx" "mx < 63"
  shows "bit (allowedMask mn mx) i \<longleftrightarrow> mn \<le> int i \<and> int i \<le> mx"
proof -
  have p: "push_bit n 1 - 1 = (mask n :: u64)" for n
    by (simp add: mask_eq_exp_minus_1)
  have "allowedMask mn mx = mask (nat (mx + 1)) AND NOT (mask (nat mn))"
    using assms unfolding allowedMask_def p by (simp add: Let_def)
  then show ?thesis
    using assms by (auto simp: bit_and_iff bit_not_iff bit_mask_iff)
qed

text \<open>A field passes the range test exactly when it accepts some value of the range.\<close>

lemma fieldWithinRange_iff:
  assumes "0 \<le> mn" "mn \<le> mx" "mx < 63"
  shows "fieldWithinRange f mn mx \<longleftrightarrow> (\<exists>v. mn \<le> v \<and> v \<le> mx \<and> sf_matches f v)"
proof -
  have "(sf_mask f AND allowedMask mn mx) \<noteq> 0 \<longleftrightarrow> (\<exists>i. bit (sf_mask f AND allowedMask mn mx) i)"
    by (metis bit_0_eq bit_eq_iff bot_apply bot_bool_def)
  also have "\<dots> \<longleftrightarrow> (\<exists>i. bit (sf_mask f) i \<and> mn \<le> int i \<and> int i \<le> mx)"
    using bit_allowedMask [OF assms] by (auto simp: bit_and_iff)
  also have "\<dots> \<longleftrightarrow> (\<exists>v. mn \<le> v \<and> v \<le> mx \<and> bit (sf_mask f) (nat v))"
    using assms(1) by (metis nat_int nonneg_int_cases order_trans)
  finally have *: "(sf_mask f AND allowedMask mn mx) \<noteq> 0 \<longleftrightarrow>
    (\<exists>v. mn \<le> v \<and> v \<le> mx \<and> bit (sf_mask f) (nat v))" .
  show ?thesis
    using * assms by (auto simp: fieldWithinRange_def sf_matches_iff Let_def)
qed

section \<open>Rounding to a minute\<close>

lemma roundToNextMinute_epoch:
  assumes "utc_arithmetic date"
  shows "epochSeconds (roundToNextMinute date d)
    = (if epochSeconds d mod 60 = 0 then epochSeconds d
       else epochSeconds d - epochSeconds d mod 60 + 60)"
proof (cases "epochSeconds d mod 60 = 0")
  case True
  then show ?thesis
    by (simp add: roundToNextMinute_def utc_arithmetic_simps [OF assms] Let_def)
next
  case False
  then have "0 < epochSeconds d mod 60"
    using pos_mod_sign [of 60 "epochSeconds d"] by linarith
  moreover have "(epochSeconds d + 60) mod 60 = epochSeconds d mod 60" by simp
  ultimately show ?thesis
    by (simp add: roundToNextMinute_def utc_arithmetic_simps [OF assms] Let_def)
qed

lemma roundToNextMinute_bounds:
  assumes "utc_arithmetic date"
  shows "epochSeconds (roundToNextMinute date d) mod 60 = 0"
    and "epochSeconds d \<le> epochSeconds (roundToNextMinute date d)"
    and "u mod 60 = 0 \<Longrightarrow> epochSeconds d \<le> u \<longleftrightarrow> epochSeconds (roundToNextMinute date d) \<le> u"
proof -
  let ?e = "epochSeconds d"
  have m: "0 \<le> ?e mod 60" "?e mod 60 < 60" by simp_all
  have "(?e - ?e mod 60) mod 60 = 0" by (simp add: minus_mod_eq_mult_div)
  moreover have "(?e - ?e mod 60 + 60) mod 60 = (?e - ?e mod 60) mod 60" by (rule mod_add_self2)
  ultimately show "epochSeconds (roundToNextMinute date d) mod 60 = 0"
    unfolding roundToNextMinute_epoch [OF assms] by (simp only: split: if_splits) simp
  show "?e \<le> epochSeconds (roundToNextMinute date d)"
    unfolding roundToNextMinute_epoch [OF assms] by (auto intro: less_imp_le)
  show "?e \<le> u \<longleftrightarrow> epochSeconds (roundToNextMinute date d) \<le> u" if u: "u mod 60 = 0"
  proof (cases "?e mod 60 = 0")
    case False
    obtain q k where q: "u = 60 * q" and k: "?e = 60 * k + ?e mod 60"
      using u by (metis mult_div_mod_eq add.right_neutral)
    have "60 * k + ?e mod 60 \<le> 60 * q \<longleftrightarrow> 60 * k + 60 \<le> 60 * q"
    proof
      assume "60 * k + ?e mod 60 \<le> 60 * q"
      then have "60 * k < 60 * q" using m False by linarith
      then show "60 * k + 60 \<le> 60 * q" by simp
    qed (use m in linarith)
    then show ?thesis
      unfolding roundToNextMinute_epoch [OF assms] if_not_P [OF False] using k q by linarith
  qed (simp add: roundToNextMinute_epoch [OF assms])
qed

section \<open>The cron search finds the earliest matching minute\<close>

text \<open>
  What it means for a minute to match a cron schedule, independently of the search: month, hour,
  minute and day of the local calendar are accepted, where two restricted day fields are joined by
  "or".
\<close>

definition cron_matches :: "ESPDate \<Rightarrow> ScheduleSpec \<Rightarrow> DateTime \<Rightarrow> bool" where
  "cron_matches date spec t \<longleftrightarrow>
     (let m = differenceInMinutes date t (startOfDayLocal date t);
          dom_restricted = \<not> sf_isAny (sp_dayOfMonth spec);
          dow_restricted = \<not> sf_isAny (sp_dayOfWeek spec);
          dom_ok = sf_matches (sp_dayOfMonth spec) (getDayLocal date t);
          dow_ok = sf_matches (sp_dayOfWeek spec) (getWeekdayLocal date t)
      in 0 \<le> m \<and> sf_matches (sp_minute spec) (m mod 60) \<and> sf_matches (sp_hour spec) (m div 60) \<and>
         sf_matches (sp_month spec) (getMonthLocal date t) \<and>
         (if dom_restricted \<and> dow_restricted then dom_ok \<or> dow_ok else dom_ok \<and> dow_ok))"

lemma cron_day_ok_alt:
  "cron_day_ok spec day dow \<longleftrightarrow>
     (if \<not> sf_isAny (sp_dayOfMonth spec) \<and> \<not> sf_isAny (sp_dayOfWeek spec)
      then sf_matches (sp_dayOfMonth spec) day \<or> sf_matches (sp_dayOfWeek spec) dow
      else sf_matches (sp_dayOfMonth spec) day \<and> sf_matches (sp_dayOfWeek spec) dow)"
  by (auto simp: cron_day_ok_def Let_def sf_matches_def)

declare cron_loop.simps(2) [simp del]

lemma cron_loop_step:
  "cron_loop date spec c (Suc n) =
    (if cron_matches date spec c then Some (clock_reading date c) else cron_loop date spec (addMinutes date c 1) n)"
  by (auto simp: cron_loop.simps(2) cron_matches_def cron_day_ok_alt Let_def clock_reading_def local_minutes_def)

lemma first_hit_minutes:
  assumes "a mod 60 = 0"
  shows "first_hit P (\<lambda>i. \<lparr>epochSeconds = a + 60 * int i\<rparr>) n (t :: DateTime) \<longleftrightarrow>
    epochSeconds t mod 60 = 0 \<and> a \<le> epochSeconds t \<and> epochSeconds t < a + 60 * int n \<and> P t \<and>
    (\<forall>u. epochSeconds u mod 60 = 0 \<and> a \<le> epochSeconds u \<and> epochSeconds u < epochSeconds t \<longrightarrow> \<not> P u)"
    (is "_ \<longleftrightarrow> ?r")
proof -
  have grid: "\<exists>i. u = \<lparr>epochSeconds = a + 60 * int i\<rparr>"
    if "epochSeconds u mod 60 = 0" "a \<le> epochSeconds u" for u :: DateTime
  proof -
    have "(epochSeconds u - a) mod 60 = 0" using that(1) assms by (metis mod_diff_eq diff_0_right mod_0)
    then have "epochSeconds u = a + 60 * int (nat ((epochSeconds u - a) div 60))"
      using that(2) div_mult_mod_eq [of "epochSeconds u - a" 60] pos_imp_zdiv_nonneg_iff [of 60 "epochSeconds u - a"]
      by simp
    then show ?thesis by (metis DateTime_eqI DateTime.select_convs(1))
  qed
  have on: "(a + 60 * int i) mod 60 = 0" for i using assms by (metis mod_mult_self2)
  show ?thesis
  proof
    assume "first_hit P (\<lambda>i. \<lparr>epochSeconds = a + 60 * int i\<rparr>) n t"
    then obtain i where i: "i < n" "t = \<lparr>epochSeconds = a + 60 * int i\<rparr>" "P t"
      "\<forall>j < i. \<not> P \<lparr>epochSeconds = a + 60 * int j\<rparr>"
      unfolding first_hit_def by blast
    have "\<not> P u" if "epochSeconds u mod 60 = 0 \<and> a \<le> epochSeconds u \<and> epochSeconds u < epochSeconds t" for u
      using grid [of u] that i(2,4) by auto
    then show ?r using i on [of i] by auto
  next
    assume r: ?r
    then obtain i where i: "t = \<lparr>epochSeconds = a + 60 * int i\<rparr>" using grid [of t] by metis
    have "\<not> P \<lparr>epochSeconds = a + 60 * int j\<rparr>" if "j < i" for j
      using r i that on [of j] by auto
    then show "first_hit P (\<lambda>i. \<lparr>epochSeconds = a + 60 * int i\<rparr>) n t"
      unfolding first_hit_def using r i by auto
  qed
qed

lemma cron_loop_iff:
  assumes "utc_arithmetic date"
  shows "cron_loop date spec c n = Some t \<longleftrightarrow>
    (\<exists>u. first_hit (cron_matches date spec) (\<lambda>i. \<lparr>epochSeconds = epochSeconds c + 60 * int i\<rparr>) n u \<and>
      clock_reading date u = t)"
proof (induction n arbitrary: c)
  case (Suc n)
  let ?at = "\<lambda>i. \<lparr>epochSeconds = epochSeconds c + 60 * int i\<rparr>"
  have c0: "?at 0 = c" by (simp add: DateTime_eqI)
  have next_eq: "epochSeconds (addMinutes date c 1) = epochSeconds c + 60"
    by (simp add: utc_arithmetic_simps [OF assms])
  show ?case
  proof (cases "cron_matches date spec c")
    case True
    then have "first_hit (cron_matches date spec) ?at (Suc n) u \<longleftrightarrow> u = c" for u
      by (metis first_hit_now c0)
    then show ?thesis using True by (simp add: cron_loop_step)
  next
    case False
    have "cron_loop date spec c (Suc n) = Some t \<longleftrightarrow>
      (\<exists>u. first_hit (cron_matches date spec) (\<lambda>i. ?at (Suc i)) n u \<and> clock_reading date u = t)"
      using False Suc.IH [of "addMinutes date c 1"]
      by (simp add: cron_loop_step next_eq add.assoc distrib_left)
    also have "\<dots> \<longleftrightarrow> (\<exists>u. first_hit (cron_matches date spec) ?at (Suc n) u \<and> clock_reading date u = t)"
      using False c0 first_hit_later [where P = "cron_matches date spec" and f = ?at] by metis
    finally show ?thesis .
  qed
qed simp

text \<open>
  C19: the cron search takes the earliest whole minute \<open>u\<close>, not before the given instant and within 366
  days of it, that the schedule's fields accept when hour and minute are read as the time elapsed since
  local midnight; it fails only when there is none. The result is the instant at which the local clock shows
  that time: on a day on which the clock has not been moved before \<open>u\<close> this is \<open>u\<close> itself.
\<close>

theorem computeNextCronOccurrence_earliest:
  assumes "utc_arithmetic date"
  shows "computeNextCronOccurrence date spec fromUtc = Some t \<longleftrightarrow>
    (\<exists>u. epochSeconds u mod 60 = 0 \<and> epochSeconds fromUtc \<le> epochSeconds u \<and>
      epochSeconds u < epochSeconds (roundToNextMinute date fromUtc) + 60 * int kMaxSearchMinutes \<and>
      cron_matches date spec u \<and>
      (\<forall>v. epochSeconds v mod 60 = 0 \<and> epochSeconds fromUtc \<le> epochSeconds v \<and>
           epochSeconds v < epochSeconds u \<longrightarrow> \<not> cron_matches date spec v) \<and>
      t = (let m = differenceInMinutes date u (startOfDayLocal date u)
           in setTimeOfDayLocal date u (m div 60) (m mod 60) 0))"
proof -
  note b = roundToNextMinute_bounds [OF assms, where d = fromUtc]
  have "computeNextCronOccurrence date spec fromUtc = Some t \<longleftrightarrow>
    (\<exists>u. first_hit (cron_matches date spec)
        (\<lambda>i. \<lparr>epochSeconds = epochSeconds (roundToNextMinute date fromUtc) + 60 * int i\<rparr>) kMaxSearchMinutes u \<and>
      clock_reading date u = t)"
    unfolding computeNextCronOccurrence_def by (rule cron_loop_iff [OF assms])
  also have "\<dots> \<longleftrightarrow> (\<exists>u. epochSeconds u mod 60 = 0 \<and> epochSeconds fromUtc \<le> epochSeconds u \<and>
      epochSeconds u < epochSeconds (roundToNextMinute date fromUtc) + 60 * int kMaxSearchMinutes \<and>
      cron_matches date spec u \<and>
      (\<forall>v. epochSeconds v mod 60 = 0 \<and> epochSeconds fromUtc \<le> epochSeconds v \<and>
           epochSeconds v < epochSeconds u \<longrightarrow> \<not> cron_matches date spec v) \<and> t = clock_reading date u)"
    unfolding first_hit_minutes [OF b(1)] using b(3) by metis
  finally show ?thesis unfolding clock_reading_def local_minutes_def Let_def .
qed

text \<open>The search at one concrete instant: a daily schedule for 00:02 UTC, asked at 00:00:30.\<close>

lemma utc_date_laws [simp]: "utc_arithmetic utc_date" "steady_clock utc_date lo hi"
  unfolding utc_date_def by (rule fixed_offset_utc_arithmetic, rule fixed_offset_steady) simp

lemma utc_date_period: "lo \<le> hi \<Longrightarrow> steady_period utc_date lo hi"
  by (simp add: steady_period_def)

lemma utc_date_reading:
  "epochSeconds d mod 60 = 0 \<Longrightarrow> 0 \<le> local_minutes utc_date d \<and> clock_reading utc_date d = d"
  by (simp add: utc_date_def fixed_offset_reading)

theorem computeNextCronOccurrence_earliest_witness:
  "computeNextCronOccurrence utc_date (dailyAtLocal 0 2) \<lparr>epochSeconds = 30\<rparr>
     = Some \<lparr>epochSeconds = 120\<rparr>"
proof -
  have r: "epochSeconds (roundToNextMinute utc_date \<lparr>epochSeconds = 30\<rparr>) = 60"
    by (simp add: roundToNextMinute_epoch)
  have fields: "sf_matches (sp_minute (dailyAtLocal 0 2)) v \<longleftrightarrow> v = 2"
    "sf_matches (sp_hour (dailyAtLocal 0 2)) v \<longleftrightarrow> v = 0"
    "sf_isAny (sp_dayOfMonth (dailyAtLocal 0 2))" "sf_matches (sp_dayOfMonth (dailyAtLocal 0 2)) v"
    "sf_matches (sp_dayOfWeek (dailyAtLocal 0 2)) v" "sf_matches (sp_month (dailyAtLocal 0 2)) v" for v
    by (auto simp: dailyAtLocal_def defaultSpec_def sf_matches_only)
  have m: "cron_matches utc_date (dailyAtLocal 0 2) \<lparr>epochSeconds = 120\<rparr>"
    "\<not> cron_matches utc_date (dailyAtLocal 0 2) \<lparr>epochSeconds = 60\<rparr>"
    by (auto simp: cron_matches_def Let_def fields utc_date_def fixed_offset_date_def local_time_def
        local_days_def)
  have "u = \<lparr>epochSeconds = 60\<rparr>"
    if "epochSeconds u mod 60 = 0" "30 \<le> epochSeconds u" "epochSeconds u < 120" for u :: DateTime
  proof (rule DateTime_eqI)
    show "epochSeconds u = epochSeconds \<lparr>epochSeconds = 60\<rparr>" using that by (simp only: DateTime.simps) presburger
  qed
  then show ?thesis
    unfolding computeNextCronOccurrence_earliest [OF utc_date_laws(1)] r
    using m by (intro exI [of _ "\<lparr>epochSeconds = 120\<rparr>"])
      (auto simp: kMaxSearchMinutes_def mod_eq_0_iff_dvd utc_date_def fixed_offset_date_def local_time_def local_days_def)
qed

section \<open>Angles on the circle\<close>

lemma trunc_real_nonneg: "0 \<le> x \<Longrightarrow> trunc_real x = \<lfloor>x\<rfloor>"
  by (simp add: trunc_real_def)

lemma fmod_nonneg:
  assumes "0 \<le> x" "0 < y"
  shows "0 \<le> fmod x y" "fmod x y < y"
proof -
  have f: "of_int \<lfloor>x / y\<rfloor> \<le> x / y" "x / y < of_int \<lfloor>x / y\<rfloor> + 1" by linarith+
  have "y * of_int \<lfloor>x / y\<rfloor> \<le> x" using mult_left_mono [OF f(1), of y] assms(2) by simp
  then show "0 \<le> fmod x y" using assms by (simp add: fmod_def trunc_real_nonneg)
  have "x < y * (of_int \<lfloor>x / y\<rfloor> + 1)" using mult_strict_left_mono [OF f(2) assms(2)] assms(2) by simp
  then show "fmod x y < y" using assms by (simp add: fmod_def trunc_real_nonneg algebra_simps)
qed

lemma fmod_neg:
  assumes "x < 0" "0 < y"
  shows "- y < fmod x y" "fmod x y \<le> 0"
proof -
  have t: "trunc_real (x / y) = \<lceil>x / y\<rceil>" using divide_neg_pos [OF assms] by (simp add: trunc_real_def)
  have f: "x / y \<le> of_int \<lceil>x / y\<rceil>" "of_int \<lceil>x / y\<rceil> - 1 < x / y" by linarith+
  have "x \<le> y * of_int \<lceil>x / y\<rceil>" using mult_left_mono [OF f(1), of y] assms(2) by simp
  then show "fmod x y \<le> 0" by (simp add: fmod_def t)
  have "y * (of_int \<lceil>x / y\<rceil> - 1) < x" using mult_strict_left_mono [OF f(2) assms(2)] assms(2) by simp
  then show "- y < fmod x y" by (simp add: fmod_def t algebra_simps)
qed

lemma normalizeAngle360_spec:
  "0 \<le> normalizeAngle360 a \<and> normalizeAngle360 a < 360 \<and>
   (\<exists>k::int. normalizeAngle360 a = a + 360 * of_int k)"
proof -
  have c: "\<exists>k::int. fmod a 360 = a + 360 * of_int k"
    by (rule exI [of _ "- trunc_real (a / 360)"]) (simp add: fmod_def)
  then have d: "\<exists>k::int. fmod a 360 + 360 = a + 360 * of_int k"
    by (metis add.assoc distrib_left mult.right_neutral of_int_1 of_int_add)
  show ?thesis
    using fmod_nonneg [of a 360] fmod_neg [of a 360] c d
    by (cases "0 \<le> a") (auto simp: normalizeAngle360_def kFullCircleDegrees_def Let_def)
qed

lemma valueWithinPeriodicWindow_iff:
  assumes "0 \<le> tolerance"
  shows "valueWithinPeriodicWindow v center tolerance \<longleftrightarrow>
    (\<exists>k::int. \<bar>v - (center + 360 * of_int k)\<bar> \<le> tolerance + kComparisonEpsilon)"
proof -
  let ?d = "\<bar>v - center\<bar>" and ?t = "tolerance + kComparisonEpsilon"
  define w where "w = fmod ?d 360"
  define q where "q = \<lfloor>?d / 360\<rfloor>"
  have w: "0 \<le> w" "w < 360" using fmod_nonneg [of ?d 360] by (auto simp: w_def)
  have d: "?d = w + 360 * of_int q" by (simp add: w_def q_def fmod_def trunc_real_nonneg)
  have e: "valueWithinPeriodicWindow v center tolerance \<longleftrightarrow> w \<le> ?t \<or> 360 - w \<le> ?t"
    using w by (auto simp: valueWithinPeriodicWindow_def kFullCircleDegrees_def Let_def simp flip: w_def)
  have near: "\<bar>v - (center + 360 * of_int k)\<bar> \<le> ?t \<Longrightarrow> w \<le> ?t \<or> 360 - w \<le> ?t" for k :: int
  proof -
    obtain j :: int where j: "\<bar>v - (center + 360 * of_int k)\<bar> = \<bar>w + 360 * of_int j\<bar>"
    proof (cases "0 \<le> v - center")
      case True
      then show ?thesis using d that [of "q - k"] by (simp add: algebra_simps)
    next
      case False
      then have "v - (center + 360 * of_int k) = - (w + 360 * of_int (q + k))"
        using d by (simp add: algebra_simps)
      then show ?thesis using that [of "q + k"] by simp
    qed
    assume "\<bar>v - (center + 360 * of_int k)\<bar> \<le> ?t"
    then have a: "\<bar>w + 360 * of_int j\<bar> \<le> ?t" by (simp add: j)
    consider "0 \<le> j" | "j \<le> -1" by linarith
    then show ?thesis
    proof cases
      case 1
      then have "(0::real) \<le> of_int j" by simp
      then show ?thesis using a w by linarith
    next
      case 2
      then have "of_int j \<le> (-1::real)" by (metis of_int_le_iff of_int_minus of_int_1)
      then show ?thesis using a w by linarith
    qed
  qed
  have far: "\<exists>k::int. \<bar>v - (center + 360 * of_int k)\<bar> = \<bar>w + 360 * of_int j\<bar>" for j :: int
  proof (cases "0 \<le> v - center")
    case True
    then have "v - (center + 360 * of_int (q - j)) = w + 360 * of_int j" using d by (simp add: algebra_simps)
    then show ?thesis by metis
  next
    case False
    then have "v - (center + 360 * of_int (j - q)) = - (w + 360 * of_int j)" using d by (simp add: algebra_simps)
    then show ?thesis by (metis abs_minus_cancel)
  qed
  have "\<bar>w + 360 * of_int 0\<bar> = w" "\<bar>w + 360 * of_int (-1)\<bar> = 360 - w" using w by simp_all
  then have "\<exists>k::int. \<bar>v - (center + 360 * of_int k)\<bar> = w"
    "\<exists>k::int. \<bar>v - (center + 360 * of_int k)\<bar> = 360 - w"
    using far [of 0] far [of "-1"] by (simp_all only:)
  then show ?thesis unfolding e using near by metis
qed

lemma segmentIntersectsRange_Fin [simp]:
  "segmentIntersectsRange (Fin a) (Fin b) (Fin mn) (Fin mx) \<longleftrightarrow>
     mn - kComparisonEpsilon \<le> max a b \<and> min a b \<le> mx + kComparisonEpsilon"
  by (simp add: segmentIntersectsRange_def Let_def)

lemma kComparisonEpsilon_bounds: "0 < kComparisonEpsilon" "kComparisonEpsilon < 1"
  by (simp_all add: kComparisonEpsilon_def)

text \<open>The periods the loop visits are all the periods whose window can meet the segment.\<close>

lemma segmentIntersectsPeriodicWindow_iff:
  assumes "0 \<le> tolerance"
  shows "segmentIntersectsPeriodicWindow a b center tolerance \<longleftrightarrow>
    (\<exists>k::int. center - tolerance + 360 * of_int k - kComparisonEpsilon \<le> max a b \<and>
              min a b \<le> center + tolerance + 360 * of_int k + kComparisonEpsilon)"
    (is "_ \<longleftrightarrow> (\<exists>k. ?hit k)")
proof -
  let ?f = "\<lfloor>(min a b - (center + tolerance)) / 360\<rfloor> - 1"
  let ?l = "\<lceil>(max a b - (center - tolerance)) / 360\<rceil> + 1"
  note eps = kComparisonEpsilon_bounds
  have "segmentIntersectsPeriodicWindow a b center tolerance \<longleftrightarrow> (\<exists>k \<in> {?f..?l}. ?hit k)"
    by (simp add: segmentIntersectsPeriodicWindow_def Let_def list_ex_iff kFullCircleDegrees_def
        mult.commute)
  moreover have "k \<in> {?f..?l}" if "?hit k" for k
  proof -
    have "(min a b - (center + tolerance)) / 360 \<le> of_int k + 1"
      using that eps by (simp add: field_simps)
    then have "?f \<le> k" by linarith
    moreover have "of_int k - 1 \<le> (max a b - (center - tolerance)) / 360"
      using that eps by (simp add: field_simps)
    then have "k \<le> ?l" by linarith
    ultimately show ?thesis by simp
  qed
  ultimately show ?thesis by blast
qed

text \<open>
  C37: the loop over periods of \<^verbatim>\<open>segmentIntersectsPeriodicWindow\<close> decides exactly whether some
  angle of the segment lies in the window around the target angle, modulo full turns; the two
  helpers of the moon search agree on what "inside the window" means.
\<close>

theorem segmentIntersectsPeriodicWindow_complete:
  assumes "0 \<le> tolerance"
  shows "segmentIntersectsPeriodicWindow a b center tolerance \<longleftrightarrow>
    (\<exists>x. min a b \<le> x \<and> x \<le> max a b \<and> valueWithinPeriodicWindow x center tolerance)"
proof -
  have "(\<exists>x. min a b \<le> x \<and> x \<le> max a b \<and> \<bar>x - (center + 360 * of_int k)\<bar> \<le> tolerance + kComparisonEpsilon)
    \<longleftrightarrow> center - tolerance + 360 * of_int k - kComparisonEpsilon \<le> max a b \<and>
        min a b \<le> center + tolerance + 360 * of_int k + kComparisonEpsilon" (is "?l \<longleftrightarrow> ?r") for k :: int
  proof
    assume ?r
    define x where "x = max (min a b) (center - tolerance + 360 * of_int k - kComparisonEpsilon)"
    have "min a b \<le> x" "x \<le> max a b" "\<bar>x - (center + 360 * of_int k)\<bar> \<le> tolerance + kComparisonEpsilon"
      using \<open>?r\<close> assms kComparisonEpsilon_bounds unfolding x_def by auto
    then show ?l by blast
  qed (use assms in auto)
  then show ?thesis
    unfolding segmentIntersectsPeriodicWindow_iff [OF assms] valueWithinPeriodicWindow_iff [OF assms]
    by metis
qed

theorem segmentIntersectsPeriodicWindow_complete_witness:
  "segmentIntersectsPeriodicWindow 350 370 0 1"
proof -
  have "valueWithinPeriodicWindow 360 0 1"
    by (subst valueWithinPeriodicWindow_iff)
      (auto simp: kComparisonEpsilon_def intro!: exI [of _ 1])
  then show ?thesis
    by (subst segmentIntersectsPeriodicWindow_complete) (auto intro!: exI [of _ 360])
qed

text \<open>
  Unwrapping an angle keeps it equal to the measured one modulo full turns and moves at most
  half a turn from the previous one, so the moon search follows the phase across the 0/360 seam.
\<close>

lemma unwrapAngle_nearest:
  assumes "0 \<le> cur" "cur < 360"
  shows "\<bar>unwrapAngle prev cur - prev\<bar> \<le> 180 \<and> (\<exists>k::int. unwrapAngle prev cur = cur + 360 * of_int k)"
proof -
  define n where "n = normalizeAngle360 prev"
  obtain k :: int where n: "0 \<le> n" "n < 360" "n = prev + 360 * of_int k"
    using normalizeAngle360_spec [of prev] by (auto simp: n_def)
  define j :: int where "j = (if cur - n > 180 then - 1 else if cur - n < -180 then 1 else 0)"
  have u: "unwrapAngle prev cur = prev + (cur - n) + 360 * of_int j"
    by (simp add: unwrapAngle_def kFullCircleDegrees_def Let_def j_def n_def)
  have "unwrapAngle prev cur = cur + 360 * of_int (j - k)" using u n(3) by simp
  moreover have "\<bar>cur - n + 360 * of_int j\<bar> \<le> 180" using n(1,2) assms by (auto simp: j_def)
  ultimately show ?thesis unfolding u by (metis add.assoc add_diff_cancel_left')
qed

section \<open>The sun search\<close>

text \<open>The instant the search proposes for the day \<open>i\<close> days after the first one, if the sun has it.\<close>

definition sun_candidate ::
  "ESPDate \<Rightarrow> ScheduleSpec \<Rightarrow> DateTime \<Rightarrow> bool \<Rightarrow> int \<Rightarrow> DateTime option" where
  "sun_candidate date spec startOfDay sunrise i =
     (let cycle = (if sunrise then date_sunrise else date_sunset) date (addDays date startOfDay i)
      in if sun_ok cycle then Some (addMinutes date (sun_value cycle) (sp_sunOffsetMinutes spec)) else None)"

lemma sun_loop_iff:
  "sun_loop date spec rounded day sunrise off n = Some t \<longleftrightarrow>
     (\<exists>i < n. sun_candidate date spec day sunrise (off + int i) = Some t \<and> \<not> isBefore date t rounded \<and>
        (\<forall>j < i. \<forall>c. sun_candidate date spec day sunrise (off + int j) = Some c \<longrightarrow>
           isBefore date c rounded))"
proof (induction n arbitrary: off)
  case (Suc n)
  define cand where "cand = (\<lambda>i. sun_candidate date spec day sunrise (off + int i))"
  have s: "sun_candidate date spec day sunrise (off + 1 + int i) = cand (Suc i)" for i
    by (simp add: cand_def add.assoc)
  have step: "sun_loop date spec rounded day sunrise off (Suc n) =
    (case cand 0 of Some c \<Rightarrow> if isBefore date c rounded then
         sun_loop date spec rounded day sunrise (off + 1) n else Some c
     | None \<Rightarrow> sun_loop date spec rounded day sunrise (off + 1) n)"
    by (simp add: cand_def sun_candidate_def Let_def)
  have later: "(\<exists>i < Suc n. cand i = Some t \<and> \<not> isBefore date t rounded \<and>
      (\<forall>j < i. \<forall>c. cand j = Some c \<longrightarrow> isBefore date c rounded)) \<longleftrightarrow>
    (\<exists>i < n. cand (Suc i) = Some t \<and> \<not> isBefore date t rounded \<and>
      (\<forall>j < i. \<forall>c. cand (Suc j) = Some c \<longrightarrow> isBefore date c rounded))"
    if "\<forall>c. cand 0 = Some c \<longrightarrow> isBefore date c rounded"
    using that by (auto simp: Ex_less_Suc2 All_less_Suc2)
  show ?case
  proof (cases "\<forall>c. cand 0 = Some c \<longrightarrow> isBefore date c rounded")
    case True
    then show ?thesis
      using later [OF True] Suc.IH [of "off + 1"] unfolding step s
      by (auto simp: cand_def split: option.splits)
  next
    case False
    then obtain c where "cand 0 = Some c" "\<not> isBefore date c rounded" by blast
    then show ?thesis unfolding step by (auto simp: Ex_less_Suc2 All_less_Suc2 cand_def)
  qed
qed simp

text \<open>
  C38: the sun search returns the event, shifted by the schedule's offset, of the first of the next
  732 days on which there is one that does not lie before the rounded start.
\<close>

theorem computeNextSunOccurrence_first_day:
  "computeNextSunOccurrence date spec fromUtc sunrise = Some t \<longleftrightarrow>
     (let rounded = roundToNextMinute date fromUtc;
          candidate = sun_candidate date spec (startOfDayLocal date rounded) sunrise
      in \<exists>i < kMaxSunSearchDays. candidate (int i) = Some t \<and> \<not> isBefore date t rounded \<and>
           (\<forall>j < i. \<forall>c. candidate (int j) = Some c \<longrightarrow> isBefore date c rounded))"
  by (simp add: computeNextSunOccurrence_def Let_def sun_loop_iff)

text \<open>Asked at midnight UTC, the fixed calendar's sunrise of the same day is returned.\<close>

theorem computeNextSunOccurrence_first_day_witness:
  "computeNextSunOccurrence utc_date (spec_sunrise 0) epochDate True = Some \<lparr>epochSeconds = 21600\<rparr>"
proof -
  have r: "roundToNextMinute utc_date epochDate = epochDate"
    by (rule DateTime_eqI) (simp add: roundToNextMinute_epoch epochDate_def)
  have "sun_candidate utc_date (spec_sunrise 0) (startOfDayLocal utc_date epochDate) True 0
    = Some \<lparr>epochSeconds = 21600\<rparr>" "\<not> isBefore utc_date \<lparr>epochSeconds = 21600\<rparr> epochDate"
    by (simp_all add: sun_candidate_def spec_sunrise_def defaultSpec_def utc_date_def
        fixed_offset_date_def local_time_def local_days_def epochDate_def)
  then show ?thesis
    unfolding computeNextSunOccurrence_first_day Let_def r
    by (intro exI [of _ 0]) (auto simp: kMaxSunSearchDays_def)
qed

section \<open>No occurrence lies in the past\<close>

lemma moon_phase_loop_ge:
  assumes "utc_arithmetic date"
  shows "moon_phase_loop date spec p c n = Some t \<Longrightarrow> epochSeconds c \<le> epochSeconds t"
proof (induction n arbitrary: p c)
  case (Suc n)
  have "t = c \<or> (\<exists>p'. moon_phase_loop date spec p' (addMinutes date c 1) n = Some t)"
    using Suc.prems unfolding moon_phase_loop.simps Let_def by (metis option.distinct(1) option.inject)
  then consider "t = c" | p' where "moon_phase_loop date spec p' (addMinutes date c 1) n = Some t" by blast
  then show ?case
  proof cases
    case 2
    from Suc.IH [OF this] show ?thesis by (simp add: utc_arithmetic_simps(2) [OF assms])
  qed simp
qed simp

lemma moon_illumination_loop_ge:
  assumes "utc_arithmetic date"
  shows "moon_illumination_loop date spec p c n = Some t \<Longrightarrow> epochSeconds c \<le> epochSeconds t"
proof (induction n arbitrary: p c)
  case (Suc n)
  have "t = c \<or> (\<exists>p'. moon_illumination_loop date spec p' (addMinutes date c 1) n = Some t)"
    using Suc.prems unfolding moon_illumination_loop.simps Let_def by (metis option.distinct(1) option.inject)
  then consider "t = c" | p' where "moon_illumination_loop date spec p' (addMinutes date c 1) n = Some t" by blast
  then show ?case
  proof cases
    case 2
    from Suc.IH [OF this] show ?thesis by (simp add: utc_arithmetic_simps(2) [OF assms])
  qed simp
qed simp

lemma computeNext_ge:
  assumes "utc_arithmetic date" "resolvedScheduleKind spec = Cron \<longrightarrow> steady_clock date lo hi" "lo \<le> epochSeconds fromUtc"
    and "resolvedScheduleKind spec \<noteq> OneShotUtc"
    and nxt: "computeNext date spec fromUtc = Some t"
  shows "epochSeconds fromUtc \<le> epochSeconds t \<or> hi < epochSeconds t"
proof -
  note b = roundToNextMinute_bounds [OF assms(1), where d = fromUtc]
  have "epochSeconds (roundToNextMinute date fromUtc) \<le> epochSeconds t \<or> hi < epochSeconds t"
  proof (cases "resolvedScheduleKind spec")
    case Cron
    then obtain u where u: "first_hit (cron_matches date spec)
      (\<lambda>i. \<lparr>epochSeconds = epochSeconds (roundToNextMinute date fromUtc) + 60 * int i\<rparr>) kMaxSearchMinutes u"
      "clock_reading date u = t"
      using nxt cron_loop_iff [OF assms(1)] by (auto simp: computeNext_def computeNextCronOccurrence_def)
    then have "epochSeconds u mod 60 = 0" "epochSeconds (roundToNextMinute date fromUtc) \<le> epochSeconds u"
      "0 \<le> local_minutes date u"
      unfolding first_hit_minutes [OF b(1)] by (auto simp: cron_matches_def local_minutes_def Let_def)
    moreover from this(2) have "lo \<le> epochSeconds u" using b(2) assms(3) by linarith
    ultimately show ?thesis using assms(2) Cron u(2) unfolding steady_clock_def by metis
  qed (use nxt assms(4) utc_arithmetic_simps(5) [OF assms(1)] in
    \<open>auto simp: computeNext_def computeNextSunOccurrence_def sun_loop_iff Let_def
        computeNextMoonPhaseOccurrence_def computeNextMoonIlluminationOccurrence_def
      split: if_splits dest!: moon_phase_loop_ge [OF assms(1)] moon_illumination_loop_ge [OF assms(1)]\<close>)
  then show ?thesis using b(2) by linarith
qed

text \<open>
  C36: the next occurrence computed for a recurring schedule is never earlier than the instant it was
  asked from. For sun and moon schedules this needs nothing of the local calendar; for a cron schedule the local
  clock has to be steady, from that instant on and up to it: no later minute is turned back into an instant
  before it. On the day of a change to summer time that fails, and so does the conclusion (\<open>Clock_Change\<close>).
\<close>

theorem computeNext_not_before:
  assumes "utc_arithmetic date"
    and "resolvedScheduleKind spec = Cron \<longrightarrow> steady_clock date (epochSeconds fromUtc) (epochSeconds fromUtc)"
    and "resolvedScheduleKind spec \<noteq> OneShotUtc" "computeNext date spec fromUtc = Some t"
  shows "epochSeconds fromUtc \<le> epochSeconds t"
  using computeNext_ge [OF assms(1,2) order_refl assms(3,4)] by linarith

theorem computeNext_not_before_witness:
  "computeNext utc_date (spec_sunrise 0) epochDate = Some \<lparr>epochSeconds = 21600\<rparr> \<and>
   epochSeconds epochDate \<le> epochSeconds \<lparr>epochSeconds = 21600\<rparr>"
proof -
  have k: "resolvedScheduleKind (spec_sunrise 0) = Sunrise"
    by (simp add: resolvedScheduleKind_def spec_sunrise_def defaultSpec_def)
  have l: "sun_loop utc_date (spec_sunrise 0) epochDate epochDate True 0 (Suc n)
    = Some \<lparr>epochSeconds = 21600\<rparr>" for n
    by (simp add: spec_sunrise_def defaultSpec_def utc_date_def fixed_offset_date_def
        local_time_def local_days_def epochDate_def)
  have "roundToNextMinute utc_date epochDate = epochDate"
    by (rule DateTime_eqI) (simp add: roundToNextMinute_epoch epochDate_def)
  moreover have "startOfDayLocal utc_date epochDate = epochDate"
    by (simp add: utc_date_def fixed_offset_date_def local_time_def local_days_def epochDate_def)
  ultimately have c: "computeNext utc_date (spec_sunrise 0) epochDate = Some \<lparr>epochSeconds = 21600\<rparr>"
    using l [of 731]
    by (simp add: computeNext_def k computeNextSunOccurrence_def Let_def kMaxSunSearchDays_def
        del: sun_loop.simps)
  then show ?thesis
    using computeNext_not_before [OF utc_date_laws(1), of "spec_sunrise 0" epochDate] k by simp
qed

section \<open>What validation accepts\<close>

lemma dowDays_accepts:
  "dowDays m \<noteq> [] \<Longrightarrow> fieldWithinRange (sf_list (Some (dowDays m))) 0 6"
proof -
  assume "dowDays m \<noteq> []"
  then obtain v where v: "v \<in> set (dowDays m)" by (meson hd_in_set)
  moreover have "set (dowDays m) \<subseteq> {0..63}" by (auto simp: set_dowDays)
  ultimately have "sf_matches (sf_list (Some (dowDays m))) v"
    by (auto simp: sf_matches_list)
  moreover have "0 \<le> v" "v \<le> 6" using v by (auto simp: set_dowDays)
  ultimately show ?thesis by (auto simp: fieldWithinRange_iff)
qed

lemma validate_custom:
  "validate (custom mi h dm mo dw) \<longleftrightarrow>
     (\<exists>v \<in> {0..59}. sf_matches mi v) \<and> (\<exists>v \<in> {0..23}. sf_matches h v) \<and>
     (\<exists>v \<in> {1..31}. sf_matches dm v) \<and> (\<exists>v \<in> {1..12}. sf_matches mo v) \<and>
     (\<exists>v \<in> {0..6}. sf_matches dw v)"
  by (auto simp: validate_def resolvedScheduleKind_def custom_def defaultSpec_def fieldWithinRange_iff)

text \<open>
  C39: \<^verbatim>\<open>validate\<close> accepts a schedule built by \<^verbatim>\<open>custom\<close> exactly when each of its five fields accepts
  at least one value of that field's calendar range, and those of the other helpers exactly on their
  documented ranges: a time of day, a sun offset within a day, an angle of the circle with a tolerance of
  at most 30 degrees; the day argument of the monthly helper is clamped and the weekly mask may be anything.
\<close>

theorem validate_helpers:
  "(validate (custom fmi fh fdm fmo fdw) \<longleftrightarrow>
     (\<exists>v \<in> {0..59}. sf_matches fmi v) \<and> (\<exists>v \<in> {0..23}. sf_matches fh v) \<and>
     (\<exists>v \<in> {1..31}. sf_matches fdm v) \<and> (\<exists>v \<in> {1..12}. sf_matches fmo v) \<and>
     (\<exists>v \<in> {0..6}. sf_matches fdw v)) \<and>
   (validate (dailyAtLocal h mi) \<longleftrightarrow> 0 \<le> h \<and> h \<le> 23 \<and> 0 \<le> mi \<and> mi \<le> 59) \<and>
   (validate (weeklyAtLocal dowMask h mi) \<longleftrightarrow> 0 \<le> h \<and> h \<le> 23 \<and> 0 \<le> mi \<and> mi \<le> 59) \<and>
   (validate (monthlyOnDayLocal d h mi) \<longleftrightarrow> 0 \<le> h \<and> h \<le> 23 \<and> 0 \<le> mi \<and> mi \<le> 59) \<and>
   (validate (spec_sunrise off) \<longleftrightarrow> \<bar>off\<bar> \<le> 1440) \<and> (validate (spec_sunset off) \<longleftrightarrow> \<bar>off\<bar> \<le> 1440) \<and>
   (validate (moonPhaseAngle a tol) \<longleftrightarrow> 0 \<le> a \<and> a < 360 \<and> 0 \<le> tol \<and> tol \<le> 30) \<and>
   (validate (spec_moonPhase name tol) \<longleftrightarrow> 0 \<le> tol \<and> tol \<le> 30) \<and>
   (validate (moonIlluminationPercent pc ptol) \<longleftrightarrow>
      (\<exists>p t. pc = Fin p \<and> ptol = Fin t \<and> 0 \<le> p \<and> p \<le> 100 \<and> 0 < t \<and> t \<le> 50)) \<and>
   validate (onceUtc whenUtc)"
proof (intro conjI)
  note defs = validate_def resolvedScheduleKind_def defaultSpec_def
  have only: "fieldWithinRange (sf_only v) 0 mx \<longleftrightarrow> 0 \<le> v \<and> v \<le> mx" if "0 \<le> mx" "mx < 63" for v mx
    using that by (auto simp: fieldWithinRange_iff sf_matches_only)
  have any: "fieldWithinRange sf_any mn mx" for mn mx by (simp add: fieldWithinRange_def)
  show "validate (custom fmi fh fdm fmo fdw) \<longleftrightarrow>
     (\<exists>v \<in> {0..59}. sf_matches fmi v) \<and> (\<exists>v \<in> {0..23}. sf_matches fh v) \<and>
     (\<exists>v \<in> {1..31}. sf_matches fdm v) \<and> (\<exists>v \<in> {1..12}. sf_matches fmo v) \<and>
     (\<exists>v \<in> {0..6}. sf_matches fdw v)" by (rule validate_custom)
  show "validate (dailyAtLocal h mi) \<longleftrightarrow> 0 \<le> h \<and> h \<le> 23 \<and> 0 \<le> mi \<and> mi \<le> 59"
    by (auto simp: defs dailyAtLocal_def only any)
  show "validate (weeklyAtLocal dowMask h mi) \<longleftrightarrow> 0 \<le> h \<and> h \<le> 23 \<and> 0 \<le> mi \<and> mi \<le> 59"
    using dowDays_accepts [of dowMask] by (auto simp: defs weeklyAtLocal_def only any Let_def)
  show "validate (monthlyOnDayLocal d h mi) \<longleftrightarrow> 0 \<le> h \<and> h \<le> 23 \<and> 0 \<le> mi \<and> mi \<le> 59"
    by (auto simp: defs monthlyOnDayLocal_def only any fieldWithinRange_iff sf_matches_only Let_def)
  show "validate (spec_sunrise off) \<longleftrightarrow> \<bar>off\<bar> \<le> 1440" "validate (spec_sunset off) \<longleftrightarrow> \<bar>off\<bar> \<le> 1440"
    by (auto simp: defs spec_sunrise_def spec_sunset_def kMinSunOffsetMinutes_def kMaxSunOffsetMinutes_def)
  show "validate (moonPhaseAngle a tol) \<longleftrightarrow> 0 \<le> a \<and> a < 360 \<and> 0 \<le> tol \<and> tol \<le> 30"
    by (auto simp: defs moonPhaseAngle_def kMinMoonPhaseAngle_def kMaxMoonPhaseAngle_def
        kMaxMoonPhaseTolerance_def)
  show "validate (spec_moonPhase name tol) \<longleftrightarrow> 0 \<le> tol \<and> tol \<le> 30"
    by (cases name) (auto simp: defs spec_moonPhase_def moonPhaseAngle_def kMinMoonPhaseAngle_def
        kMaxMoonPhaseAngle_def kMaxMoonPhaseTolerance_def)
  show "validate (moonIlluminationPercent pc ptol) \<longleftrightarrow>
      (\<exists>p t. pc = Fin p \<and> ptol = Fin t \<and> 0 \<le> p \<and> p \<le> 100 \<and> 0 < t \<and> t \<le> 50)"
    by (cases pc; cases ptol) (auto simp: defs moonIlluminationPercent_def kMinIlluminationPercent_def
        kMaxIlluminationPercent_def kMaxIlluminationTolerancePercent_def)
  show "validate (onceUtc whenUtc)" by (simp add: defs onceUtc_def)
qed

end
