(* ===== verification/Runtime_Array.thy ===== *)
theory Runtime_Array
  imports Sched_Prelude
begin

text \<open>
  The allocator entry point (\<^verbatim>\<open>scheduler_allocator.h\<close>) and the first two containers of
  \<^verbatim>\<open>core/runtime_containers.h\<close>: the growable array \<^verbatim>\<open>SchedulerArray<T>\<close> and the owned C string
  \<^verbatim>\<open>SchedulerOwnedString\<close>. Raw memory is not modelled; the elements between \<^verbatim>\<open>data_[0]\<close> and
  \<^verbatim>\<open>data_[size_ - 1]\<close> are a list, and \<^verbatim>\<open>capacity_\<close> is kept because it decides when the allocator
  is asked and so when an operation can fail.
\<close>

section \<open>The allocator\<close>

text \<open>
  Whether \<^verbatim>\<open>malloc\<close> (or \<^verbatim>\<open>ESPBufferManager::allocate\<close>) grants a request is the environment's
  choice. A \<open>heap\<close> is the sequence of its answers: \<open>h n\<close> is the answer to the \<open>n\<close>-th request from
  now on. Every function that allocates takes the sequence and returns what is left of it.
\<close>

type_synonym heap = "nat \<Rightarrow> bool"

definition SIZE_MAX :: nat where
  "SIZE_MAX = 2 ^ 32 - 1"

definition schedulerAllocate :: "nat \<Rightarrow> nat \<Rightarrow> heap \<Rightarrow> bool \<times> heap" where
  "schedulerAllocate requested elemSize h =
     (if requested = 0 then (False, h)
      else if requested > SIZE_MAX div elemSize then (False, h)
      else (h 0, \<lambda>n. h (Suc n)))"

lemma schedulerAllocate_bound:
  "schedulerAllocate requested sz h = (True, h') \<Longrightarrow> 0 < requested \<and> requested \<le> SIZE_MAX div sz"
  by (auto simp: schedulerAllocate_def split: if_splits)

text \<open>A heap that grants everything it is asked for, as long as the size check passes.\<close>

definition plenty :: heap where
  "plenty = (\<lambda>_. True)"

lemma plenty_shift [simp]: "(\<lambda>n. plenty (Suc n)) = plenty" and plenty_grants [simp]: "plenty n"
  by (simp_all add: plenty_def)

section \<open>SchedulerArray\<close>

text \<open>
  \<open>arr_elemSize\<close> is \<^verbatim>\<open>sizeof(T)\<close> of the template instance; \<^verbatim>\<open>size_\<close> is the length of \<open>arr_data\<close>.
\<close>

record 'a SchedulerArray =
  arr_data :: "'a list"
  arr_capacity :: nat
  arr_elemSize :: nat
  arr_usePSRAM :: bool

definition newArray :: "nat \<Rightarrow> bool \<Rightarrow> 'a SchedulerArray" where
  "newArray elemSize usePSRAM =
     \<lparr>arr_data = [], arr_capacity = 0, arr_elemSize = elemSize, arr_usePSRAM = usePSRAM\<rparr>"

definition arr_size :: "'a SchedulerArray \<Rightarrow> nat" where
  "arr_size a = length (arr_data a)"

definition arr_empty :: "'a SchedulerArray \<Rightarrow> bool" where
  "arr_empty a \<longleftrightarrow> arr_size a = 0"

definition arr_at :: "'a SchedulerArray \<Rightarrow> nat \<Rightarrow> 'a" where
  "arr_at a i = arr_data a ! i"

definition arr_set :: "'a SchedulerArray \<Rightarrow> nat \<Rightarrow> 'a \<Rightarrow> 'a SchedulerArray" where
  "arr_set a i x = a\<lparr>arr_data := (arr_data a)[i := x]\<rparr>"

definition reserve :: "nat \<Rightarrow> 'a SchedulerArray \<Rightarrow> heap \<Rightarrow> bool \<times> 'a SchedulerArray \<times> heap" where
  "reserve requested a h =
     (if requested \<le> arr_capacity a then (True, a, h)
      else let (ok, h') = schedulerAllocate requested (arr_elemSize a) h
           in if \<not> ok then (False, a, h') else (True, a\<lparr>arr_capacity := requested\<rparr>, h'))"

definition emplaceBack :: "'a \<Rightarrow> 'a SchedulerArray \<Rightarrow> heap \<Rightarrow> bool \<times> 'a SchedulerArray \<times> heap" where
  "emplaceBack x a h =
     (let (ok, a', h') =
        (if arr_size a = arr_capacity a
         then reserve (if arr_capacity a = 0 then 4 else arr_capacity a * 2) a h
         else (True, a, h))
      in if \<not> ok then (False, a', h') else (True, a'\<lparr>arr_data := arr_data a' @ [x]\<rparr>, h'))"

definition pushBack :: "'a \<Rightarrow> 'a SchedulerArray \<Rightarrow> heap \<Rightarrow> bool \<times> 'a SchedulerArray \<times> heap" where
  "pushBack x a h = emplaceBack x a h"

definition popBack :: "'a SchedulerArray \<Rightarrow> 'a SchedulerArray" where
  "popBack a = (if arr_size a = 0 then a else a\<lparr>arr_data := butlast (arr_data a)\<rparr>)"

definition arr_clear :: "'a SchedulerArray \<Rightarrow> 'a SchedulerArray" where
  "arr_clear a = a\<lparr>arr_data := []\<rparr>"

definition swapRemove :: "nat \<Rightarrow> 'a SchedulerArray \<Rightarrow> bool \<times> 'a SchedulerArray" where
  "swapRemove index a =
     (if index \<ge> arr_size a then (False, a)
      else let a' = (if index + 1 \<noteq> arr_size a then arr_set a index (arr_at a (arr_size a - 1)) else a)
           in (True, popBack a'))"

text \<open>The shifting loop of \<^verbatim>\<open>erase\<close>: each element moves one place down.\<close>

function erase_loop :: "nat \<Rightarrow> 'a list \<Rightarrow> 'a list" where
  "erase_loop cursor xs =
     (if cursor + 1 < length xs then erase_loop (cursor + 1) (xs[cursor := xs ! (cursor + 1)])
      else xs)"
  by pat_completeness auto
termination
  by (relation "measure (\<lambda>(cursor, xs). length xs - cursor)") auto

declare erase_loop.simps [simp del]

definition erase :: "nat \<Rightarrow> 'a SchedulerArray \<Rightarrow> 'a SchedulerArray" where
  "erase index a =
     (if index \<ge> arr_size a then a
      else a\<lparr>arr_data := butlast (erase_loop index (arr_data a))\<rparr>)"

subsection \<open>Well-formed arrays\<close>

text \<open>
  The live elements fit the buffer, and the buffer was granted by the allocator, so its size in
  bytes is representable.
\<close>

definition arr_wf :: "'a SchedulerArray \<Rightarrow> bool" where
  "arr_wf a \<longleftrightarrow> arr_size a \<le> arr_capacity a \<and> arr_capacity a \<le> SIZE_MAX div arr_elemSize a"

lemmas arr_defs = arr_size_def arr_empty_def arr_at_def arr_set_def

lemma newArray_simps [array_simps, simp]:
  "arr_data (newArray sz p) = []" "arr_elemSize (newArray sz p) = sz" "arr_wf (newArray sz p)"
  by (simp_all add: newArray_def arr_wf_def arr_size_def)

lemma arr_set_simps [array_simps, simp]:
  "arr_data (arr_set a i x) = (arr_data a)[i := x]"
  "arr_capacity (arr_set a i x) = arr_capacity a"
  "arr_elemSize (arr_set a i x) = arr_elemSize a"
  "arr_size (arr_set a i x) = arr_size a"
  "arr_wf (arr_set a i x) = arr_wf a"
  by (simp_all add: arr_defs arr_wf_def)

lemma popBack_simps [array_simps, simp]:
  "arr_data (popBack a) = butlast (arr_data a)"
  "arr_capacity (popBack a) = arr_capacity a"
  "arr_elemSize (popBack a) = arr_elemSize a"
  by (auto simp: popBack_def arr_size_def)

lemma popBack_wf [inv_intros]: "arr_wf a \<Longrightarrow> arr_wf (popBack a)"
  by (auto simp: arr_wf_def arr_size_def)

text \<open>
  \<^verbatim>\<open>pushBack\<close> either appends its argument or changes nothing but the allocator's state; it only
  fails when it had to grow.
\<close>

lemma pushBack_cases:
  assumes "pushBack x a h = (ok, a', h')"
  obtains (appended) "ok" "arr_data a' = arr_data a @ [x]" "arr_elemSize a' = arr_elemSize a"
    | (refused) "\<not> ok" "a' = a" "arr_size a = arr_capacity a"
  using assms
  by (auto simp: pushBack_def emplaceBack_def reserve_def split: if_splits prod.splits)

lemma pushBack_wf [inv_intros]:
  assumes "pushBack x a h = (ok, a', h')" and "arr_wf a"
  shows "arr_wf a'"
  using assms schedulerAllocate_bound [of _ "arr_elemSize a" h]
  by (force simp: pushBack_def emplaceBack_def reserve_def arr_wf_def arr_size_def
      split: if_splits prod.splits)

lemma pushBack_within_capacity:
  "arr_size a < arr_capacity a \<Longrightarrow> pushBack x a h = (True, a\<lparr>arr_data := arr_data a @ [x]\<rparr>, h)"
  by (simp add: pushBack_def emplaceBack_def)

lemma pushBack_refused_no_memory:
  assumes "pushBack x a h = (False, a', h')" and "arr_wf a" and "2 \<le> arr_elemSize a"
    and "arr_capacity a * 2 \<le> SIZE_MAX div arr_elemSize a" and "4 \<le> SIZE_MAX div arr_elemSize a"
  shows "\<not> h 0"
  using assms
  by (auto simp: pushBack_def emplaceBack_def reserve_def schedulerAllocate_def arr_wf_def
      split: if_splits prod.splits)

subsection \<open>Erasing\<close>

lemma erase_loop_shift:
  "i < length xs \<Longrightarrow> erase_loop i xs = take i xs @ drop (Suc i) xs @ [last xs]"
proof (induction i xs rule: erase_loop.induct)
  case (1 i xs)
  show ?case
  proof (cases "i + 1 < length xs")
    case True
    let ?ys = "xs[i := xs ! (i + 1)]"
    have "erase_loop i xs = erase_loop (i + 1) ?ys"
      using True by (simp add: erase_loop.simps [of i xs])
    also have "\<dots> = take (i + 1) ?ys @ drop (Suc (i + 1)) ?ys @ [last ?ys]"
      using 1 True by simp
    also have "take (i + 1) ?ys = take i xs @ [xs ! (i + 1)]"
      using True by (simp add: take_Suc_conv_app_nth)
    also have "last ?ys = last xs"
      using True by (cases "xs = []") (auto simp: last_list_update)
    also have "drop (Suc (i + 1)) ?ys = drop (Suc (Suc i)) xs" by simp
    finally show ?thesis
      using True by (simp add: Cons_nth_drop_Suc [symmetric])
  next
    case False
    with "1.prems" have "take i xs = butlast xs" "drop (Suc i) xs = []" "xs \<noteq> []"
      by (auto simp: butlast_conv_take intro: arg_cong [where f = "\<lambda>n. take n xs"])
    moreover have "erase_loop i xs = xs" using False by (simp add: erase_loop.simps [of i xs])
    ultimately show ?thesis by simp
  qed
qed

lemma erase_data:
  "arr_data (erase i a) = take i (arr_data a) @ drop (Suc i) (arr_data a)"
  by (auto simp: erase_def arr_size_def erase_loop_shift butlast_append)

lemma erase_wf [inv_intros]: "arr_wf a \<Longrightarrow> arr_wf (erase i a)"
  by (auto simp: arr_wf_def arr_size_def erase_data) (simp_all add: erase_def)

lemma swapRemove_mset:
  assumes "i < arr_size a"
  shows "mset (arr_data (snd (swapRemove i a))) = mset (arr_data a) - {#arr_data a ! i#}"
proof -
  let ?xs = "arr_data a"
  from assms have i: "i < length ?xs" and ne: "?xs \<noteq> []" by (auto simp: arr_size_def)
  show ?thesis
  proof (cases "i + 1 = length ?xs")
    case True
    then have "?xs ! i = last ?xs" using ne by (simp add: last_conv_nth flip: True)
    then show ?thesis
      using True i ne by (simp add: swapRemove_def arr_size_def mset_butlast_last [OF ne])
  next
    case False
    let ?ys = "?xs[i := last ?xs]"
    have "butlast ?ys = (butlast ?xs)[i := last ?xs]"
      using False i by (auto simp: butlast_list_update)
    moreover have "mset ((butlast ?xs)[i := last ?xs])
      = mset (butlast ?xs) - {#?xs ! i#} + {#last ?xs#}"
      using False i by (subst mset_update) (simp_all add: nth_butlast)
    moreover have "?xs ! i \<in># mset (butlast ?xs)"
      using False i by (metis One_nat_def Suc_eq_plus1 length_butlast
          less_diff_conv nth_butlast nth_mem set_mset_mset Suc_lessI)
    moreover have "?xs ! (length ?xs - Suc 0) = last ?xs" using ne by (simp add: last_conv_nth)
    ultimately show ?thesis
      using False i by (simp add: swapRemove_def arr_defs mset_butlast_last [OF ne])
  qed
qed

subsection \<open>No wrap-around in the doubling\<close>

text \<open>
  The model computes the doubled capacity exactly. A well-formed array whose elements take at least two bytes never wraps its doubled capacity:
  the product computed before \<^verbatim>\<open>reserve\<close> is called still fits \<^verbatim>\<open>size_t\<close>.
\<close>

lemma emplaceBack_capacity_no_wrap:
  assumes "arr_wf a" and "2 \<le> arr_elemSize a"
  shows "(if arr_capacity a = 0 then 4 else arr_capacity a * 2) \<le> SIZE_MAX"
proof -
  have "arr_capacity a \<le> SIZE_MAX div 2"
    using assms div_le_mono2 [of 2 "arr_elemSize a" SIZE_MAX] by (auto simp: arr_wf_def)
  then show ?thesis by (auto simp: SIZE_MAX_def)
qed

section \<open>SchedulerOwnedString\<close>

text \<open>
  A C string argument is \<open>None\<close> for \<^verbatim>\<open>nullptr\<close> and otherwise the characters before the
  terminator.
\<close>

record SchedulerOwnedString =
  str_data :: "string option"
  str_length :: nat
  str_usePSRAM :: bool

definition newString :: "bool \<Rightarrow> SchedulerOwnedString" where
  "newString usePSRAM = \<lparr>str_data = None, str_length = 0, str_usePSRAM = usePSRAM\<rparr>"

definition str_clear :: "SchedulerOwnedString \<Rightarrow> SchedulerOwnedString" where
  "str_clear s = s\<lparr>str_data := None, str_length := 0\<rparr>"

definition str_assign ::
  "string option \<Rightarrow> SchedulerOwnedString \<Rightarrow> heap \<Rightarrow> bool \<times> SchedulerOwnedString \<times> heap" where
  "str_assign text s h =
     (let s0 = s\<lparr>str_data := None, str_length := 0\<rparr> in
      case text of
        None \<Rightarrow> (True, s0, h)
      | Some t \<Rightarrow>
          if t = [] then (True, s0, h)
          else let (ok, h') = schedulerAllocate (length t + 1) 1 h in
               if \<not> ok then (False, s0, h')
               else (True, s0\<lparr>str_data := Some t, str_length := length t\<rparr>, h'))"

definition str_empty :: "SchedulerOwnedString \<Rightarrow> bool" where
  "str_empty s \<longleftrightarrow> str_data s = None \<or> str_length s = 0"

definition str_c_str :: "SchedulerOwnedString \<Rightarrow> string option" where
  "str_c_str s = str_data s"

text \<open>What a caller reads back: \<^verbatim>\<open>name.empty() ? nullptr : name.c_str()\<close>.\<close>

definition str_view :: "SchedulerOwnedString \<Rightarrow> string option" where
  "str_view s = (if str_empty s then None else str_c_str s)"

lemma str_assign_view:
  "str_assign text s h = (True, s', h') \<Longrightarrow>
   str_view s' = (case text of None \<Rightarrow> None | Some t \<Rightarrow> if t = [] then None else Some t)"
  by (auto simp: str_assign_def str_view_def str_empty_def str_c_str_def Let_def
      split: option.splits if_splits prod.splits)

lemma str_assign_refused:
  "str_assign text s h = (False, s', h') \<Longrightarrow> str_view s' = None"
  by (auto simp: str_assign_def str_view_def str_empty_def Let_def
      split: option.splits if_splits prod.splits)

end
