(* ===== verification/Scheduler_Types.thy ===== *)
theory Scheduler_Types
  imports Schedule_Calculator Runtime_Array
begin

text \<open>
  The types shared by the core, the executors and the facade: \<^verbatim>\<open>scheduler_result.h\<close>,
  \<^verbatim>\<open>scheduler_config.h\<close>, the option and information structures of \<^verbatim>\<open>scheduler.h\<close>,
  \<^verbatim>\<open>executors/scheduler_executor.h\<close> and \<^verbatim>\<open>service/scheduler_events.h\<close>.
\<close>

section \<open>Results\<close>

text \<open>
  \<^verbatim>\<open>SchedulerResult<T>\<close> carries an error code and a value. \<^verbatim>\<open>failure\<close> is only ever called with a code
  other than \<^verbatim>\<open>Ok\<close>, so a result is a sum: \<open>Inl\<close> the error, \<open>Inr\<close> the value.
\<close>

datatype SchedulerError =
  NotInitialized | AlreadyInitialized | InvalidSchedule | NoMemory | QueueFull | NotFound | Busy
  | ExecutorUnavailable | Timeout

type_synonym 'a SchedulerResult = "SchedulerError + 'a"

fun res_ok :: "'a SchedulerResult \<Rightarrow> bool" where
  "res_ok (Inl e) = False"
| "res_ok (Inr v) = True"

section \<open>Configuration\<close>

datatype SchedulerMode = Manual | Background

datatype AsyncExecutorBackend = WorkerPool | ESPWorker

datatype DispatchPolicy = Inline | Async

datatype OverlapPolicy = SkipIfRunning | QueueOne | AllowParallel

record SchedulerServiceConfig =
  svc_commandQueueDepth :: nat
  svc_eventQueueDepth :: nat
  svc_taskStackSize :: nat
  svc_taskPriority :: nat
  svc_coreId :: int
  svc_usePsramStack :: bool
  svc_controlTimeoutMs :: nat

record WorkerPoolConfig =
  wp_workerCount :: nat
  wp_queueDepth :: nat
  wp_stackSize :: nat
  wp_priority :: nat
  wp_coreId :: int
  wp_usePsramStack :: bool

record DedicatedTaskOptions =
  dt_name :: "string option"
  dt_stackSize :: nat
  dt_priority :: nat
  dt_coreId :: int
  dt_usePsramStack :: bool

text \<open>\<^verbatim>\<open>tskNO_AFFINITY\<close> of FreeRTOS.\<close>

definition tskNO_AFFINITY :: int where "tskNO_AFFINITY = 2147483647"

definition defaultDedicatedTask :: DedicatedTaskOptions where
  "defaultDedicatedTask =
     \<lparr>dt_name = Some ''sched-job'', dt_stackSize = 4096, dt_priority = 1, dt_coreId = tskNO_AFFINITY,
      dt_usePsramStack = False\<rparr>"

section \<open>Callbacks and invocations\<close>

text \<open>
  Function pointers, function objects and user data are opaque to the scheduler: it stores them and
  hands them on. They are represented by numbers, with \<open>None\<close> for a null pointer.
\<close>

datatype CallbackKind = RawFunction | OwningFunction

record CallbackRef =
  cb_kind :: CallbackKind
  cb_rawFn :: "nat option"
  cb_userData :: nat
  cb_owningFn :: "nat option"

definition makeEmptyCallback :: CallbackRef where
  "makeEmptyCallback =
     \<lparr>cb_kind = RawFunction, cb_rawFn = None, cb_userData = 0, cb_owningFn = None\<rparr>"

definition cb_valid :: "CallbackRef \<Rightarrow> bool" where
  "cb_valid cb \<longleftrightarrow> cb_rawFn cb \<noteq> None \<or> cb_owningFn cb \<noteq> None"

text \<open>Which function \<^verbatim>\<open>invoke\<close> calls, and with which argument; exceptions are swallowed.\<close>

definition cb_invoke :: "CallbackRef \<Rightarrow> (nat \<times> nat) option" where
  "cb_invoke cb =
     (case cb_owningFn cb of
        Some f \<Rightarrow> Some (f, cb_userData cb)
      | None \<Rightarrow> (case cb_rawFn cb of Some f \<Rightarrow> Some (f, cb_userData cb) | None \<Rightarrow> None))"

record JobInvocation =
  inv_jobId :: u32
  inv_generation :: u32
  inv_slotIndex :: nat
  inv_name :: "string option"
  inv_callback :: CallbackRef
  inv_dedicatedTask :: DedicatedTaskOptions

text \<open>
  \<^verbatim>\<open>ISchedulerExecutor::submit\<close> as a function on the state of all executors. \<^verbatim>\<open>IExecutorResolver\<close>
  hands out executors; \<open>None\<close> is a null pointer.
\<close>

type_synonym 'e executor = "JobInvocation \<Rightarrow> 'e \<Rightarrow> bool \<times> 'e"

record 'e IExecutorResolver =
  inlineExecutor :: "'e executor option"
  executorFor :: "u8 \<Rightarrow> 'e executor option"

datatype SchedulerEventKind = JobFinished

record SchedulerEvent =
  ev_kind :: SchedulerEventKind
  ev_jobId :: u32
  ev_generation :: u32
  ev_slotIndex :: nat

section \<open>Options and information\<close>

record JobOptions =
  opt_dispatch :: DispatchPolicy
  opt_overlap :: OverlapPolicy
  opt_executorId :: u8
  opt_startPaused :: bool
  opt_name :: "string option"
  opt_dedicatedTask :: "DedicatedTaskOptions option"

definition defaultOptions :: JobOptions where
  "defaultOptions =
     \<lparr>opt_dispatch = Inline, opt_overlap = SkipIfRunning, opt_executorId = 0,
      opt_startPaused = False, opt_name = None, opt_dedicatedTask = None\<rparr>"

record JobInfo =
  ji_id :: u32
  ji_name :: "string option"
  ji_paused :: bool
  ji_running :: bool
  ji_queuedWhileRunning :: bool
  ji_dispatch :: DispatchPolicy
  ji_overlap :: OverlapPolicy
  ji_executorId :: u8
  ji_hasNext :: bool
  ji_nextRunUtc :: DateTime
  ji_schedule :: ScheduleSpec

definition emptyJobInfo :: JobInfo where
  "emptyJobInfo =
     \<lparr>ji_id = 0, ji_name = None, ji_paused = False, ji_running = False,
      ji_queuedWhileRunning = False, ji_dispatch = Inline, ji_overlap = SkipIfRunning,
      ji_executorId = 0, ji_hasNext = False, ji_nextRunUtc = epochDate, ji_schedule = defaultSpec\<rparr>"

end
