(* ===== verification/Due_Heap.thy ===== *)
theory Due_Heap
  imports Runtime_Array
begin

text \<open>
  The binary min-heap of due entries (\<^verbatim>\<open>core/due_heap.h\<close>), kept in a \<^verbatim>\<open>SchedulerArray\<close>. The two
  sifting loops are recursive functions over the entry list; the interface the scheduler core
  relies on is the locale \<open>due_queue\<close>, interpreted on the heap's operations at the end.
\<close>

section \<open>Entries and operations\<close>

record DueHeapEntry =
  due_nextEpoch :: int
  due_slotIndex :: nat
  due_generation :: u32

type_synonym DueHeap = "DueHeapEntry SchedulerArray"

definition due_compare :: "DueHeapEntry \<Rightarrow> DueHeapEntry \<Rightarrow> bool" where
  "due_compare lhs rhs \<longleftrightarrow> due_nextEpoch lhs > due_nextEpoch rhs"

text \<open>The loop of \<^verbatim>\<open>push\<close>: move the entry at \<open>index\<close> up while its parent is due later.\<close>

function sift_up :: "DueHeapEntry list \<Rightarrow> nat \<Rightarrow> DueHeapEntry list" where
  "sift_up es index =
     (if index > 0
      then let parent = (index - 1) div 2 in
           if \<not> due_compare (es ! parent) (es ! index) then es
           else sift_up (swap_at es parent index) parent
      else es)"
  by pat_completeness auto
termination
  by (relation "measure (\<lambda>(es, index). index)") auto

declare sift_up.simps [simp del]

text \<open>The child the loop of \<^verbatim>\<open>pop\<close> descends to, or \<open>index\<close> itself when no child is due earlier.\<close>

definition sift_candidate :: "DueHeapEntry list \<Rightarrow> nat \<Rightarrow> nat" where
  "sift_candidate es index =
     (let left = index * 2 + 1;
          right = left + 1;
          candidate = index;
          candidate =
            (if left < length es \<and> due_compare (es ! candidate) (es ! left) then left else candidate);
          candidate =
            (if right < length es \<and> due_compare (es ! candidate) (es ! right) then right else candidate)
      in candidate)"

lemma sift_candidate_cases:
  "sift_candidate es i \<in> {i, 2 * i + 1, 2 * i + 2}"
  by (auto simp: sift_candidate_def Let_def)

lemma sift_candidate_less:
  "sift_candidate es i \<noteq> i \<Longrightarrow> i < sift_candidate es i \<and> sift_candidate es i < length es"
  by (auto simp: sift_candidate_def Let_def split: if_splits)

function sift_down :: "DueHeapEntry list \<Rightarrow> nat \<Rightarrow> DueHeapEntry list" where
  "sift_down es index =
     (let candidate = sift_candidate es index in
      if candidate = index then es else sift_down (swap_at es index candidate) candidate)"
  by pat_completeness auto
termination
proof (relation "measure (\<lambda>(es, index). length es - index)")
  fix es :: "DueHeapEntry list" and index x
  assume "x = sift_candidate es index" "x \<noteq> index"
  then show "((swap_at es index x, x), es, index) \<in> measure (\<lambda>(es, index). length es - index)"
    using sift_candidate_less [of es index] by auto
qed simp

declare sift_down.simps [simp del]

definition dueEmpty :: "DueHeap \<Rightarrow> bool" where
  "dueEmpty q \<longleftrightarrow> arr_empty q"

definition dueTop :: "DueHeap \<Rightarrow> DueHeapEntry" where
  "dueTop q = arr_at q 0"

definition duePush :: "DueHeapEntry \<Rightarrow> DueHeap \<Rightarrow> heap \<Rightarrow> bool \<times> DueHeap \<times> heap" where
  "duePush entry q h =
     (let (ok, q', h') = pushBack entry q h in
      if \<not> ok then (False, q', h')
      else (True, q'\<lparr>arr_data := sift_up (arr_data q') (arr_size q' - 1)\<rparr>, h'))"

text \<open>\<^verbatim>\<open>pop\<close> reads \<^verbatim>\<open>entries_[0]\<close> without a check: its precondition is a heap that is not empty.\<close>

definition duePop :: "DueHeap \<Rightarrow> DueHeapEntry \<times> DueHeap" where
  "duePop q =
     (let entry = arr_at q 0 in
      if arr_size q = 1 then (entry, popBack q)
      else let q1 = popBack (arr_set q 0 (arr_at q (arr_size q - 1)))
           in (entry, q1\<lparr>arr_data := sift_down (arr_data q1) 0\<rparr>))"

definition dueClear :: "DueHeap \<Rightarrow> DueHeap" where
  "dueClear q = arr_clear q"

section \<open>The heap property\<close>

definition parent :: "nat \<Rightarrow> nat" where
  "parent i = (i - 1) div 2"

definition ordered_at :: "DueHeapEntry list \<Rightarrow> nat \<Rightarrow> bool" where
  "ordered_at es i \<longleftrightarrow> due_nextEpoch (es ! parent i) \<le> due_nextEpoch (es ! i)"

definition is_heap :: "DueHeapEntry list \<Rightarrow> bool" where
  "is_heap es \<longleftrightarrow> (\<forall>i. 0 < i \<longrightarrow> i < length es \<longrightarrow> ordered_at es i)"

text \<open>Everywhere a heap, but the entry at \<open>k\<close> may be due before its parent.\<close>

definition heap_above :: "DueHeapEntry list \<Rightarrow> nat \<Rightarrow> bool" where
  "heap_above es k \<longleftrightarrow>
     (\<forall>i. 0 < i \<longrightarrow> i < length es \<longrightarrow> i \<noteq> k \<longrightarrow> ordered_at es i) \<and>
     (\<forall>i. 0 < i \<longrightarrow> i < length es \<longrightarrow> parent i = k \<longrightarrow> 0 < k \<longrightarrow>
        due_nextEpoch (es ! parent k) \<le> due_nextEpoch (es ! i))"

text \<open>Everywhere a heap, but the entry at \<open>k\<close> may be due after its children.\<close>

definition heap_below :: "DueHeapEntry list \<Rightarrow> nat \<Rightarrow> bool" where
  "heap_below es k \<longleftrightarrow>
     (\<forall>i. 0 < i \<longrightarrow> i < length es \<longrightarrow> parent i \<noteq> k \<longrightarrow> ordered_at es i) \<and>
     (\<forall>i. 0 < i \<longrightarrow> i < length es \<longrightarrow> parent i = k \<longrightarrow> 0 < k \<longrightarrow>
        due_nextEpoch (es ! parent k) \<le> due_nextEpoch (es ! i))"

lemma parent_less: "0 < i \<Longrightarrow> parent i < i"
  by (auto simp: parent_def)

lemma parent_child: "parent (2 * i + 1) = i" "parent (2 * i + 2) = i"
  by (simp_all add: parent_def)

lemma child_cases: "0 < i \<Longrightarrow> i = 2 * parent i + 1 \<or> i = 2 * parent i + 2"
  by (auto simp: parent_def)

lemma is_heap_root:
  assumes "is_heap es" and "i < length es"
  shows "due_nextEpoch (es ! 0) \<le> due_nextEpoch (es ! i)"
  using assms(2)
proof (induction i rule: less_induct)
  case (less i)
  show ?case
  proof (cases "i = 0")
    case False
    with less.prems have "parent i < i" and "ordered_at es i"
      using assms(1) by (auto simp: parent_less is_heap_def)
    with less show ?thesis by (force simp: ordered_at_def)
  qed simp
qed

subsection \<open>Sifting up\<close>

lemma heap_above_swap:
  assumes h: "heap_above es k" and k: "0 < k" "k < length es"
    and c: "due_compare (es ! parent k) (es ! k)"
  shows "heap_above (swap_at es (parent k) k) (parent k)"
proof -
  let ?p = "parent k" and ?ys = "swap_at es (parent k) k"
  have p: "?p < k" "?p < length es" using k parent_less [of k] by auto
  have nth: "?ys ! i = (if i = k then es ! ?p else if i = ?p then es ! k else es ! i)"
    if "i < length es" for i
    using that p k by (simp add: nth_swap_at)
  have pl: "parent i < length es" if "i < length es" for i
    using that by (auto simp: parent_def)
  have key: "due_nextEpoch (es ! k) < due_nextEpoch (es ! ?p)"
    using c by (simp add: due_compare_def)
  have ord: "due_nextEpoch (es ! parent i) \<le> due_nextEpoch (es ! i)"
    if "0 < i" "i < length es" "i \<noteq> k" for i
    using h that by (auto simp: heap_above_def ordered_at_def)
  have kids: "due_nextEpoch (es ! ?p) \<le> due_nextEpoch (es ! i)"
    if "0 < i" "i < length es" "parent i = k" for i
    using h that k by (auto simp: heap_above_def)
  have "ordered_at ?ys i" if i: "0 < i" "i < length es" "i \<noteq> ?p" for i
    using i pl [of i] p key ord [of i] kids [of i] by (auto simp: ordered_at_def nth)
  moreover have "due_nextEpoch (?ys ! parent ?p) \<le> due_nextEpoch (?ys ! i)"
    if i: "0 < i" "i < length es" "parent i = ?p" "0 < ?p" for i
  proof -
    have "due_nextEpoch (es ! parent ?p) \<le> due_nextEpoch (es ! ?p)"
      using ord [of ?p] i p by auto
    moreover have "parent ?p < ?p" using i by (simp add: parent_less)
    ultimately show ?thesis
      using i p pl [of ?p] ord [of i] by (auto simp: nth)
  qed
  ultimately show ?thesis by (simp add: heap_above_def)
qed

lemma heap_above_done:
  "heap_above es k \<Longrightarrow> k = 0 \<or> \<not> due_compare (es ! parent k) (es ! k) \<Longrightarrow> is_heap es"
  unfolding heap_above_def is_heap_def ordered_at_def due_compare_def
  by (metis gr_implies_not0 linorder_not_less)

lemma sift_up_heap:
  "k < length es \<Longrightarrow> heap_above es k \<Longrightarrow> is_heap (sift_up es k) \<and> mset (sift_up es k) = mset es"
proof (induction es k rule: sift_up.induct)
  case (1 es k)
  show ?case
  proof (cases "0 < k \<and> due_compare (es ! parent k) (es ! k)")
    case True
    then have p: "parent k < length es" using "1.prems" parent_less [of k] by simp
    have "sift_up es k = sift_up (swap_at es (parent k) k) (parent k)"
      using True by (simp add: sift_up.simps [of es k] parent_def Let_def)
    moreover have "heap_above (swap_at es (parent k) k) (parent k)"
      using "1.prems" True by (simp add: heap_above_swap)
    ultimately show ?thesis
      using "1.IH" [of "parent k"] True p "1.prems" by (simp add: parent_def)
  next
    case False
    then have "sift_up es k = es" by (auto simp: sift_up.simps [of es k] parent_def Let_def)
    with False "1.prems" show ?thesis by (auto intro: heap_above_done)
  qed
qed

lemma heap_above_snoc: "is_heap es \<Longrightarrow> heap_above (es @ [e]) (length es)"
proof -
  assume h: "is_heap es"
  have lt: "parent i < length es" if "0 < i" "i \<le> length es" for i
    using that parent_less [of i] by simp
  have "ordered_at (es @ [e]) i" if "0 < i" "i < length (es @ [e])" "i \<noteq> length es" for i
    using that h lt [of i] by (auto simp: is_heap_def ordered_at_def nth_append)
  moreover have "parent i \<noteq> length es" if "0 < i" "i < length (es @ [e])" for i
    using that lt [of i] by simp
  ultimately show ?thesis by (auto simp: heap_above_def)
qed

subsection \<open>Sifting down\<close>

lemma sift_candidate_least_self:
  "due_nextEpoch (es ! sift_candidate es i) \<le> due_nextEpoch (es ! i)"
  by (simp add: sift_candidate_def Let_def due_compare_def)

lemma sift_candidate_least_child:
  assumes "0 < j" "j < length es" "parent j = i"
  shows "due_nextEpoch (es ! sift_candidate es i) \<le> due_nextEpoch (es ! j)"
proof -
  from assms have "j = i * 2 + 1 \<or> j = i * 2 + 1 + 1" using child_cases [of j] by auto
  then show ?thesis
    using assms(2) by (elim disjE) (simp_all add: sift_candidate_def Let_def due_compare_def)
qed

lemma heap_below_swap:
  assumes h: "heap_below es k" and k: "k < length es" and c: "sift_candidate es k \<noteq> k"
  shows "heap_below (swap_at es k (sift_candidate es k)) (sift_candidate es k)"
proof -
  let ?c = "sift_candidate es k" and ?ys = "swap_at es k (sift_candidate es k)"
  have cl: "k < ?c" "?c < length es" using c sift_candidate_less by auto
  have pc: "parent ?c = k" using c sift_candidate_cases [of es k] by (auto simp: parent_def)
  have nth: "?ys ! i = (if i = ?c then es ! k else if i = k then es ! ?c else es ! i)"
    if "i < length es" for i
    using that cl k by (simp add: nth_swap_at)
  have pl: "parent i < length es" if "i < length es" for i
    using that by (auto simp: parent_def)
  have ord: "due_nextEpoch (es ! parent i) \<le> due_nextEpoch (es ! i)"
    if "0 < i" "i < length es" "parent i \<noteq> k" for i
    using h that by (auto simp: heap_below_def ordered_at_def)
  have kids: "due_nextEpoch (es ! ?c) \<le> due_nextEpoch (es ! i)"
    if "0 < i" "i < length es" "parent i = k" for i
    using that by (rule sift_candidate_least_child)
  have up: "due_nextEpoch (es ! parent k) \<le> due_nextEpoch (es ! i)"
    if "0 < i" "i < length es" "parent i = k" "0 < k" for i
    using h that by (auto simp: heap_below_def)
  have lower: "due_nextEpoch (es ! ?c) \<le> due_nextEpoch (es ! k)"
    by (rule sift_candidate_least_self)
  have "ordered_at ?ys i" if i: "0 < i" "i < length es" "parent i \<noteq> ?c" for i
  proof (cases "parent i = k")
    case True
    then have "i \<noteq> k" using i parent_less [of i] by auto
    then show ?thesis using True i cl pl [of i] lower kids [of i] by (auto simp: ordered_at_def nth)
  next
    case False
    then have "i \<noteq> ?c" using pc by auto
    then show ?thesis
      using False i cl pl [of i] ord [of i] up [of ?c] pc by (auto simp: ordered_at_def nth)
  qed
  moreover have "due_nextEpoch (?ys ! parent ?c) \<le> due_nextEpoch (?ys ! i)"
    if i: "0 < i" "i < length es" "parent i = ?c" for i
  proof -
    have "i \<noteq> ?c" "i \<noteq> k" using i cl parent_less [of i] by auto
    then show ?thesis using i cl pc k ord [of i] by (auto simp: nth)
  qed
  ultimately show ?thesis by (simp add: heap_below_def)
qed

lemma heap_below_done:
  assumes "heap_below es k" and "sift_candidate es k = k"
  shows "is_heap es"
  using assms sift_candidate_least_child [of _ es k]
  by (auto simp: heap_below_def is_heap_def ordered_at_def)

lemma sift_down_heap:
  "k < length es \<Longrightarrow> heap_below es k \<Longrightarrow>
   is_heap (sift_down es k) \<and> mset (sift_down es k) = mset es"
proof (induction es k rule: sift_down.induct)
  case (1 es k)
  show ?case
  proof (cases "sift_candidate es k = k")
    case True
    then have "sift_down es k = es" by (simp add: sift_down.simps [of es k])
    with True "1.prems" show ?thesis by (auto intro: heap_below_done)
  next
    case False
    then have "sift_down es k = sift_down (swap_at es k (sift_candidate es k)) (sift_candidate es k)"
      by (simp add: sift_down.simps [of es k] Let_def)
    moreover have "sift_candidate es k < length es" using False sift_candidate_less by blast
    ultimately show ?thesis
      using "1.IH" [OF refl False] heap_below_swap [OF "1.prems"(2,1) False] "1.prems" by simp
  qed
qed

lemma heap_below_root:
  assumes "is_heap es" "1 < length es"
  shows "heap_below (butlast (es[0 := x])) 0"
proof -
  have "ordered_at (butlast (es[0 := x])) i"
    if "0 < i" "i < length (butlast (es[0 := x]))" "parent i \<noteq> 0" for i
    using assms that parent_less [of i] by (auto simp: is_heap_def ordered_at_def nth_butlast)
  then show ?thesis by (simp add: heap_below_def)
qed

subsection \<open>Sizes\<close>

lemma length_sift_up [simp]: "length (sift_up es k) = length es"
proof (induction es k rule: sift_up.induct)
  case (1 es k)
  then show ?case by (subst sift_up.simps) (simp add: Let_def)
qed

lemma length_sift_down [simp]: "length (sift_down es k) = length es"
proof (induction es k rule: sift_down.induct)
  case (1 es k)
  then show ?case by (subst sift_down.simps) (simp add: Let_def)
qed

lemma duePop_size: "\<not> dueEmpty q \<Longrightarrow> arr_size (snd (duePop q)) = arr_size q - 1"
  by (simp add: duePop_def arr_defs dueEmpty_def Let_def)

lemma duePop_less: "\<not> dueEmpty q \<Longrightarrow> arr_size (snd (duePop q)) < arr_size q"
  using duePop_size [of q] by (simp add: dueEmpty_def arr_empty_def)

lemma duePop_fst [simp]: "fst (duePop q) = dueTop q"
  by (simp add: duePop_def dueTop_def Let_def)

section \<open>The queue the core relies on\<close>

text \<open>
  A queue with a key: \<open>push\<close> may be refused, \<open>top\<close> has the least key, \<open>pop\<close> takes it out. The
  client lemmas are about dropping entries from the top until one satisfies a predicate, which is
  how the core gets rid of stale entries.
\<close>

locale due_queue =
  fixes push :: "'a \<Rightarrow> 'q \<Rightarrow> heap \<Rightarrow> bool \<times> 'q \<times> heap"
    and isEmpty :: "'q \<Rightarrow> bool"
    and top :: "'q \<Rightarrow> 'a"
    and pop :: "'q \<Rightarrow> 'a \<times> 'q"
    and key :: "'a \<Rightarrow> int"
    and contents :: "'q \<Rightarrow> 'a multiset"
    and invar :: "'q \<Rightarrow> bool"
  assumes push_accepted: "push x q h = (True, q', h') \<Longrightarrow> invar q \<Longrightarrow>
      invar q' \<and> contents q' = add_mset x (contents q)"
    and push_refused: "push x q h = (False, q', h') \<Longrightarrow> q' = q"
    and isEmpty_iff: "isEmpty q \<longleftrightarrow> contents q = {#}"
    and pop_top: "fst (pop q) = top q"
    and pop_rest: "invar q \<Longrightarrow> \<not> isEmpty q \<Longrightarrow>
      invar (snd (pop q)) \<and> contents q = add_mset (top q) (contents (snd (pop q)))"
    and top_least: "invar q \<Longrightarrow> x \<in># contents q \<Longrightarrow> key (top q) \<le> key x"
begin

lemma pop_ordered:
  assumes "invar q" "\<not> isEmpty q" "\<not> isEmpty (snd (pop q))"
  shows "key (top q) \<le> key (top (snd (pop q)))"
proof -
  have r: "invar (snd (pop q))" "contents q = add_mset (top q) (contents (snd (pop q)))"
    using pop_rest [OF assms(1,2)] by auto
  have "top (snd (pop q)) \<in># contents (snd (pop q))"
    using pop_rest [OF r(1) assms(3)] by simp
  then show ?thesis using r(2) assms(1) by (intro top_least) auto
qed

inductive pruned :: "('a \<Rightarrow> bool) \<Rightarrow> 'q \<Rightarrow> 'q \<Rightarrow> bool" for P where
  stop: "pruned P q q"
| drop: "\<not> isEmpty q \<Longrightarrow> \<not> P (top q) \<Longrightarrow> pruned P (snd (pop q)) q' \<Longrightarrow> pruned P q q'"

lemma pruned_invar: "pruned P q q' \<Longrightarrow> invar q \<Longrightarrow> invar q'"
  by (induction rule: pruned.induct) (auto dest: pop_rest)

lemma pruned_subset: "pruned P q q' \<Longrightarrow> invar q \<Longrightarrow> contents q' \<subseteq># contents q"
proof (induction rule: pruned.induct)
  case (drop q q')
  then have "invar (snd (pop q))" and c: "contents q = add_mset (top q) (contents (snd (pop q)))"
    using pop_rest by auto
  then have "contents q' \<subseteq># contents (snd (pop q))" using drop.IH by simp
  then show ?case by (simp add: c subset_mset.le_iff_add) (metis union_mset_add_mset_right)
qed simp

lemma pruned_filter: "pruned P q q' \<Longrightarrow> invar q \<Longrightarrow> filter_mset P (contents q') = filter_mset P (contents q)"
proof (induction rule: pruned.induct)
  case (drop q q')
  then have "invar (snd (pop q))" and c: "contents q = add_mset (top q) (contents (snd (pop q)))"
    using pop_rest by auto
  then show ?case using drop by simp
qed simp

lemma pruned_kept: "pruned P q q' \<Longrightarrow> invar q \<Longrightarrow> P x \<Longrightarrow> x \<in># contents q \<Longrightarrow> x \<in># contents q'"
  using pruned_filter [of P q q'] by (metis count_filter_mset count_eq_zero_iff)

lemma pruned_top_least:
  assumes "pruned P q q'" "invar q" "P x" "x \<in># contents q"
  shows "\<not> isEmpty q' \<and> key (top q') \<le> key x"
proof -
  have "x \<in># contents q'" using assms by (rule pruned_kept)
  moreover have "invar q'" using assms(1,2) by (rule pruned_invar)
  ultimately show ?thesis using top_least isEmpty_iff by auto
qed

end

definition due_wf :: "DueHeap \<Rightarrow> bool" where
  "due_wf q \<longleftrightarrow> arr_wf q \<and> is_heap (arr_data q)"

lemma duePush_accepted:
  assumes "duePush x q h = (True, q', h')" and "due_wf q"
  shows "due_wf q' \<and> mset (arr_data q') = add_mset x (mset (arr_data q))"
proof -
  obtain ok q1 h1 where p: "pushBack x q h = (ok, q1, h1)" by (cases "pushBack x q h")
  with assms have ok: "ok" and q': "q' = q1\<lparr>arr_data := sift_up (arr_data q1) (arr_size q1 - 1)\<rparr>"
    by (auto simp: duePush_def split: if_splits)
  have d: "arr_data q1 = arr_data q @ [x]" using p ok by (auto elim: pushBack_cases)
  have "arr_wf q1" using pushBack_wf [OF p] assms(2) by (simp add: due_wf_def)
  moreover have "is_heap (arr_data q') \<and> mset (arr_data q') = mset (arr_data q1)"
    using assms(2) d sift_up_heap [of "length (arr_data q)" "arr_data q @ [x]"]
    by (simp add: q' due_wf_def arr_size_def heap_above_snoc)
  ultimately show ?thesis by (simp add: due_wf_def d q' arr_wf_def arr_size_def)
qed

lemma duePop_rest:
  assumes "due_wf q" and "\<not> dueEmpty q"
  shows "due_wf (snd (duePop q)) \<and>
    mset (arr_data q) = add_mset (dueTop q) (mset (arr_data (snd (duePop q))))"
proof -
  let ?xs = "arr_data q"
  have ne: "?xs \<noteq> []" using assms(2) by (simp add: dueEmpty_def arr_defs)
  show ?thesis
  proof (cases "length ?xs = 1")
    case True
    then obtain x where "?xs = [x]" by (cases ?xs) auto
    then show ?thesis
      using assms(1) by (simp add: duePop_def arr_defs dueTop_def due_wf_def is_heap_def popBack_wf)
  next
    case False
    let ?ys = "butlast (?xs[0 := last ?xs])"
    from False ne have len: "1 < length ?xs" by (cases ?xs) auto
    have pop: "snd (duePop q) = (popBack (arr_set q 0 (last ?xs)))\<lparr>arr_data := sift_down ?ys 0\<rparr>"
      using False ne by (simp add: duePop_def arr_defs last_conv_nth Let_def)
    have "is_heap (sift_down ?ys 0) \<and> mset (sift_down ?ys 0) = mset ?ys"
      using assms(1) len by (intro sift_down_heap heap_below_root) (auto simp: due_wf_def)
    moreover have "mset ?xs = add_mset (?xs ! 0) (mset ?ys)"
    proof -
      obtain y ys where xs: "?xs = y # ys" "ys \<noteq> []" using len by (cases ?xs) auto
      then show ?thesis by (simp add: mset_butlast_last)
    qed
    ultimately show ?thesis
      using assms(1) by (auto simp: pop due_wf_def dueTop_def arr_defs arr_wf_def)
  qed
qed

interpretation dq: due_queue duePush dueEmpty dueTop duePop due_nextEpoch
  "\<lambda>q. mset (arr_data q)" due_wf
proof unfold_locales
  fix x q h q' h'
  assume "duePush x q h = (False, q', h')"
  then show "q' = q"
    by (auto simp: duePush_def split: prod.splits if_splits elim: pushBack_cases)
next
  fix q x
  assume "due_wf q" "x \<in># mset (arr_data q)"
  then show "due_nextEpoch (dueTop q) \<le> due_nextEpoch x"
    by (auto simp: due_wf_def dueTop_def arr_defs in_set_conv_nth intro: is_heap_root)
qed (auto dest: duePush_accepted duePop_rest simp: dueEmpty_def arr_defs)

text \<open>
  C21: \<^verbatim>\<open>DueHeap\<close> is a priority queue. A push that is granted memory adds exactly its entry and a
  refused one changes nothing; a pop on a heap that is not empty removes exactly one entry, one
  whose epoch no other entry undercuts; both keep the array in heap order.
\<close>

theorem dueHeap_priority_queue:
  assumes "due_wf q"
  shows "(case duePush x q h of (ok, q', h') \<Rightarrow> due_wf q' \<and>
      mset (arr_data q') = (if ok then add_mset x (mset (arr_data q)) else mset (arr_data q))) \<and>
    (dueEmpty q \<or> (case duePop q of (e, q') \<Rightarrow> due_wf q' \<and>
      mset (arr_data q) = add_mset e (mset (arr_data q')) \<and>
      (\<forall>y \<in> set (arr_data q). due_nextEpoch e \<le> due_nextEpoch y)))"
proof
  show "case duePush x q h of (ok, q', h') \<Rightarrow> due_wf q' \<and>
      mset (arr_data q') = (if ok then add_mset x (mset (arr_data q)) else mset (arr_data q))"
  proof (cases "duePush x q h")
    case (fields ok q' h')
    then show ?thesis
      using dq.push_accepted [of x q h q' h'] dq.push_refused [of x q h q' h'] assms by (cases ok) auto
  qed
  show "dueEmpty q \<or> (case duePop q of (e, q') \<Rightarrow> due_wf q' \<and>
      mset (arr_data q) = add_mset e (mset (arr_data q')) \<and>
      (\<forall>y \<in> set (arr_data q). due_nextEpoch e \<le> due_nextEpoch y))"
    using dq.pop_rest [OF assms] dq.top_least [OF assms] duePop_fst [of q]
    by (cases "duePop q") auto
qed

theorem dueHeap_priority_queue_witness:
  "fst (duePush \<lparr>due_nextEpoch = 5, due_slotIndex = 0, due_generation = 1\<rparr> (newArray 16 False) plenty) \<and>
   mset (arr_data (fst (snd (duePush \<lparr>due_nextEpoch = 5, due_slotIndex = 0, due_generation = 1\<rparr>
     (newArray 16 False) plenty)))) = {#\<lparr>due_nextEpoch = 5, due_slotIndex = 0, due_generation = 1\<rparr>#}"
proof -
  have "due_wf (newArray 16 False)" by (simp add: due_wf_def is_heap_def)
  note q = dueHeap_priority_queue [OF this, of
      "\<lparr>due_nextEpoch = 5, due_slotIndex = 0, due_generation = 1\<rparr>" plenty]
  have "fst (duePush \<lparr>due_nextEpoch = 5, due_slotIndex = 0, due_generation = 1\<rparr> (newArray 16 False) plenty)"
    by (simp add: duePush_def pushBack_def emplaceBack_def reserve_def newArray_def arr_defs
        schedulerAllocate_def SIZE_MAX_def)
  then show ?thesis using q by (auto split: prod.splits)
qed

end
