(* ===== verification/Id_Index.thy ===== *)
theory Id_Index
  imports Runtime_Array
begin

text \<open>
  \<^verbatim>\<open>SchedulerIdIndex\<close> of \<^verbatim>\<open>core/runtime_containers.h\<close>: the open-addressing hash table with linear
  probing and tombstones that maps a job id to its slot. The table refines a partial function:
  \<open>ix_get\<close> after each operation is stated as a map update. The interface the core relies on is the
  locale \<open>job_index\<close>.
\<close>

section \<open>The table\<close>

datatype EntryState = Empty | Occupied | Deleted

record Entry =
  ie_jobId :: u32
  ie_slotIndex :: nat
  ie_state :: EntryState

text \<open>An empty list of entries stands for the null pointer \<^verbatim>\<open>entries_\<close> of a table never filled.\<close>

record SchedulerIdIndex =
  ix_entries :: "Entry list"
  ix_capacity :: nat
  ix_size :: nat
  ix_deletedCount :: nat
  ix_usePSRAM :: bool

definition emptyEntry :: Entry where
  "emptyEntry = \<lparr>ie_jobId = 0, ie_slotIndex = 0, ie_state = Empty\<rparr>"

definition newIndex :: "bool \<Rightarrow> SchedulerIdIndex" where
  "newIndex usePSRAM =
     \<lparr>ix_entries = [], ix_capacity = 0, ix_size = 0, ix_deletedCount = 0, ix_usePSRAM = usePSRAM\<rparr>"

definition entrySize :: nat where
  "entrySize = 12"

definition nextCapacity :: "nat \<Rightarrow> nat" where
  "nextCapacity current = (if current = 0 then 8 else current * 2)"

definition ix_hash :: "u32 \<Rightarrow> nat" where
  "ix_hash jobId = unat (jobId * 2654435761)"

text \<open>
  The probe loop that \<^verbatim>\<open>get\<close> and \<^verbatim>\<open>remove\<close> share: at most \<open>n\<close> steps from \<open>index\<close>, stopping at the
  first empty entry; the result is the position of the key.
\<close>

fun probe_loop :: "Entry list \<Rightarrow> u32 \<Rightarrow> nat \<Rightarrow> nat \<Rightarrow> nat \<Rightarrow> nat option" where
  "probe_loop es jobId msk index 0 = None"
| "probe_loop es jobId msk index (Suc n) =
     (let entry = es ! index in
      if ie_state entry = Empty then None
      else if ie_state entry = Occupied \<and> ie_jobId entry = jobId then Some index
      else probe_loop es jobId msk ((index + 1) AND msk) n)"

definition ix_find :: "SchedulerIdIndex \<Rightarrow> u32 \<Rightarrow> nat option" where
  "ix_find t jobId =
     (if ix_entries t = [] \<or> ix_capacity t = 0 \<or> jobId = 0 then None
      else let msk = ix_capacity t - 1
           in probe_loop (ix_entries t) jobId msk (ix_hash jobId AND msk) (ix_capacity t))"

definition ix_get :: "SchedulerIdIndex \<Rightarrow> u32 \<Rightarrow> nat option" where
  "ix_get t jobId = map_option (\<lambda>index. ie_slotIndex (ix_entries t ! index)) (ix_find t jobId)"

definition ix_remove :: "u32 \<Rightarrow> SchedulerIdIndex \<Rightarrow> bool \<times> SchedulerIdIndex" where
  "ix_remove jobId t =
     (case ix_find t jobId of
        None \<Rightarrow> (False, t)
      | Some index \<Rightarrow>
          (True, t\<lparr>ix_entries := (ix_entries t)[index :=
                     \<lparr>ie_jobId = 0, ie_slotIndex = 0, ie_state = Deleted\<rparr>],
                   ix_size := ix_size t - 1,
                   ix_deletedCount := ix_deletedCount t + 1\<rparr>))"

definition ix_clear :: "SchedulerIdIndex \<Rightarrow> SchedulerIdIndex" where
  "ix_clear t =
     (if ix_entries t = [] then t\<lparr>ix_size := 0, ix_deletedCount := 0\<rparr>
      else t\<lparr>ix_entries := map (\<lambda>_. emptyEntry) (ix_entries t), ix_size := 0, ix_deletedCount := 0\<rparr>)"

text \<open>The loop of \<^verbatim>\<open>insertOrAssign\<close>; its zero case is the code after the loop.\<close>

fun insert_loop ::
  "SchedulerIdIndex \<Rightarrow> u32 \<Rightarrow> nat \<Rightarrow> nat \<Rightarrow> nat \<Rightarrow> nat \<Rightarrow> bool \<times> SchedulerIdIndex" where
  "insert_loop t jobId slotIndex index firstDeleted 0 =
     (if firstDeleted \<noteq> ix_capacity t
      then (True, t\<lparr>ix_entries := (ix_entries t)[firstDeleted :=
                      \<lparr>ie_jobId = jobId, ie_slotIndex = slotIndex, ie_state = Occupied\<rparr>],
                    ix_deletedCount := ix_deletedCount t - 1,
                    ix_size := ix_size t + 1\<rparr>)
      else (False, t))"
| "insert_loop t jobId slotIndex index firstDeleted (Suc n) =
     (let entry = ix_entries t ! index in
      if ie_state entry = Empty then
        (let target = (if firstDeleted \<noteq> ix_capacity t then firstDeleted else index) in
         (True, t\<lparr>ix_entries := (ix_entries t)[target :=
                    \<lparr>ie_jobId = jobId, ie_slotIndex = slotIndex, ie_state = Occupied\<rparr>],
                  ix_deletedCount :=
                    (if ie_state (ix_entries t ! target) = Deleted
                     then ix_deletedCount t - 1 else ix_deletedCount t),
                  ix_size := ix_size t + 1\<rparr>))
      else if ie_state entry = Deleted then
        insert_loop t jobId slotIndex ((index + 1) AND (ix_capacity t - 1))
          (if firstDeleted = ix_capacity t then index else firstDeleted) n
      else if ie_jobId entry = jobId then
        (True, t\<lparr>ix_entries := (ix_entries t)[index := entry\<lparr>ie_slotIndex := slotIndex\<rparr>]\<rparr>)
      else
        insert_loop t jobId slotIndex ((index + 1) AND (ix_capacity t - 1)) firstDeleted n)"

definition insertOrAssign :: "u32 \<Rightarrow> nat \<Rightarrow> SchedulerIdIndex \<Rightarrow> bool \<times> SchedulerIdIndex" where
  "insertOrAssign jobId slotIndex t =
     insert_loop t jobId slotIndex (ix_hash jobId AND (ix_capacity t - 1)) (ix_capacity t)
       (ix_capacity t)"

fun rehash_loop :: "Entry list \<Rightarrow> SchedulerIdIndex \<Rightarrow> bool \<times> SchedulerIdIndex" where
  "rehash_loop [] t = (True, t)"
| "rehash_loop (entry # rest) t =
     (if ie_state entry = Occupied then
        (let (ok, t') = insertOrAssign (ie_jobId entry) (ie_slotIndex entry) t in
         if \<not> ok then (False, t') else rehash_loop rest t')
      else rehash_loop rest t)"

definition rehash :: "nat \<Rightarrow> SchedulerIdIndex \<Rightarrow> heap \<Rightarrow> bool \<times> SchedulerIdIndex \<times> heap" where
  "rehash newCapacity t h =
     (let (ok, h') = schedulerAllocate newCapacity entrySize h in
      if \<not> ok then (False, t, h')
      else let fresh = t\<lparr>ix_entries := replicate newCapacity emptyEntry, ix_capacity := newCapacity,
                         ix_size := 0, ix_deletedCount := 0\<rparr>;
               (done, t') = rehash_loop (ix_entries t) fresh in
           if \<not> done
           then (False, t\<lparr>ix_deletedCount :=
                          length (filter (\<lambda>e. ie_state e = Deleted) (ix_entries t))\<rparr>, h')
           else (True, t', h'))"

definition ensureCapacityForInsert ::
  "SchedulerIdIndex \<Rightarrow> heap \<Rightarrow> bool \<times> SchedulerIdIndex \<times> heap" where
  "ensureCapacityForInsert t h =
     (if ix_capacity t = 0 then rehash (nextCapacity (ix_capacity t)) t h
      else if (ix_size t + ix_deletedCount t + 1) * 10 \<ge> ix_capacity t * 7
      then rehash (nextCapacity (ix_capacity t)) t h
      else if ix_deletedCount t > ix_size t then rehash (ix_capacity t) t h
      else (True, t, h))"

definition ix_set ::
  "u32 \<Rightarrow> nat \<Rightarrow> SchedulerIdIndex \<Rightarrow> heap \<Rightarrow> bool \<times> SchedulerIdIndex \<times> heap" where
  "ix_set jobId slotIndex t h =
     (if jobId = 0 then (False, t, h)
      else let (ok, t1, h1) = ensureCapacityForInsert t h in
           if \<not> ok then (False, t1, h1)
           else let (ok2, t2) = insertOrAssign jobId slotIndex t1 in (ok2, t2, h1))"

section \<open>The invariant\<close>

definition occ :: "Entry \<Rightarrow> bool" where
  "occ e \<longleftrightarrow> ie_state e = Occupied"

definition del :: "Entry \<Rightarrow> bool" where
  "del e \<longleftrightarrow> ie_state e = Deleted"

definition entry_of :: "u32 \<Rightarrow> nat \<Rightarrow> Entry" where
  "entry_of k s = \<lparr>ie_jobId = k, ie_slotIndex = s, ie_state = Occupied\<rparr>"

lemma entry_of_simps [simp]:
  "ie_jobId (entry_of k s) = k" "ie_slotIndex (entry_of k s) = s" "ie_state (entry_of k s) = Occupied"
  "occ (entry_of k s)" "\<not> del (entry_of k s)"
  by (simp_all add: entry_of_def occ_def del_def)

text \<open>What the table holds, as a relation between ids and slots.\<close>

definition holds :: "Entry list \<Rightarrow> u32 \<Rightarrow> nat \<Rightarrow> bool" where
  "holds es k s \<longleftrightarrow> (\<exists>e \<in> set es. occ e \<and> ie_jobId e = k \<and> ie_slotIndex e = s)"

text \<open>
  Position \<open>p\<close> is on the probe path of \<open>k\<close>: no empty entry lies between the home position of \<open>k\<close>
  and \<open>p\<close>.
\<close>

definition on_path :: "Entry list \<Rightarrow> u32 \<Rightarrow> nat \<Rightarrow> bool" where
  "on_path es k p \<longleftrightarrow>
     (\<exists>d < length es. p = (ix_hash k + d) mod length es \<and>
        (\<forall>j < d. ie_state (es ! ((ix_hash k + j) mod length es)) \<noteq> Empty))"

definition table_ok :: "Entry list \<Rightarrow> bool" where
  "table_ok es \<longleftrightarrow>
     (\<forall>p < length es. occ (es ! p) \<longrightarrow> ie_jobId (es ! p) \<noteq> 0 \<and> on_path es (ie_jobId (es ! p)) p) \<and>
     (\<forall>p < length es. \<forall>q < length es. occ (es ! p) \<longrightarrow> occ (es ! q) \<longrightarrow>
        ie_jobId (es ! p) = ie_jobId (es ! q) \<longrightarrow> p = q)"

definition ix_wf :: "SchedulerIdIndex \<Rightarrow> bool" where
  "ix_wf t \<longleftrightarrow>
     length (ix_entries t) = ix_capacity t \<and>
     (ix_capacity t = 0 \<or> (\<exists>n. ix_capacity t = 2 ^ n)) \<and>
     ix_size t = length (filter occ (ix_entries t)) \<and>
     ix_deletedCount t = length (filter del (ix_entries t)) \<and>
     (0 < ix_capacity t \<longrightarrow> ix_size t + ix_deletedCount t < ix_capacity t) \<and>
     table_ok (ix_entries t)"

lemma ix_wf_newIndex [simp, inv_intros]: "ix_wf (newIndex p)"
  by (simp add: ix_wf_def newIndex_def table_ok_def)

lemma on_path_mono:
  assumes "on_path es k p" and "length es' = length es"
    and "\<And>i. i < length es \<Longrightarrow> ie_state (es ! i) \<noteq> Empty \<Longrightarrow> ie_state (es' ! i) \<noteq> Empty"
  shows "on_path es' k p"
proof -
  from assms(1) obtain d where d: "d < length es" "p = (ix_hash k + d) mod length es"
    "\<forall>j < d. ie_state (es ! ((ix_hash k + j) mod length es)) \<noteq> Empty"
    by (auto simp: on_path_def)
  moreover have "(ix_hash k + j) mod length es < length es" for j
    using d(1) by (intro mod_less_divisor) linarith
  ultimately show ?thesis using assms(2,3) by (auto simp: on_path_def)
qed

lemma on_path_update:
  "on_path es k q \<Longrightarrow> p < length es \<Longrightarrow> ie_state e \<noteq> Empty \<Longrightarrow> on_path (es[p := e]) k q"
  by (erule on_path_mono) (auto simp: nth_list_update)

text \<open>Storing a new key at a free position of its probe path keeps the table well formed.\<close>

lemma table_ok_store:
  assumes ok: "table_ok es" and p: "p < length es" "\<not> occ (es ! p)" "on_path es k p"
    and k: "k \<noteq> 0" "\<And>s'. \<not> holds es k s'"
  shows "table_ok (es[p := entry_of k s])"
proof -
  have fresh: "ie_jobId (es ! q) \<noteq> k" if "q < length es" "occ (es ! q)" for q
    using k(2) that by (force simp: holds_def)
  then show ?thesis
    using ok p k(1) unfolding table_ok_def by (simp add: nth_list_update on_path_update) metis
qed

lemma table_ok_same_keys:
  assumes "table_ok es" and "p < length es" "occ (es ! p)"
    and "ie_state e = Occupied" "ie_jobId e = ie_jobId (es ! p)"
  shows "table_ok (es[p := e])"
  using assms unfolding table_ok_def by (simp add: nth_list_update on_path_update occ_def) metis

lemma table_ok_tombstone:
  assumes "table_ok es" and "p < length es" and "ie_state e = Deleted"
  shows "table_ok (es[p := e])"
  using assms unfolding table_ok_def by (simp add: nth_list_update on_path_update occ_def)

lemma holds_nth:
  "holds es k s \<longleftrightarrow> (\<exists>q < length es. occ (es ! q) \<and> ie_jobId (es ! q) = k \<and> ie_slotIndex (es ! q) = s)"
  unfolding holds_def by (metis in_set_conv_nth)

lemma holds_nthI:
  "q < length es \<Longrightarrow> occ (es ! q) \<Longrightarrow> holds es (ie_jobId (es ! q)) (ie_slotIndex (es ! q))"
  by (auto simp: holds_nth)

lemma holds_unique:
  "table_ok es \<Longrightarrow> holds es k s \<Longrightarrow> holds es k s' \<Longrightarrow> s = s'"
  unfolding table_ok_def holds_nth by metis

lemma holds_nonzero: "table_ok es \<Longrightarrow> holds es k s \<Longrightarrow> k \<noteq> 0"
  unfolding table_ok_def holds_nth by metis

lemma holds_update:
  assumes "p < length es"
  shows "holds (es[p := e]) k s \<longleftrightarrow>
    (occ e \<and> ie_jobId e = k \<and> ie_slotIndex e = s) \<or>
    (\<exists>q < length es. q \<noteq> p \<and> occ (es ! q) \<and> ie_jobId (es ! q) = k \<and> ie_slotIndex (es ! q) = s)"
    (is "?lhs \<longleftrightarrow> ?rhs")
proof
  assume ?lhs
  then obtain q where q: "q < length es" "occ (es[p := e] ! q)" "ie_jobId (es[p := e] ! q) = k"
    "ie_slotIndex (es[p := e] ! q) = s"
    by (auto simp: holds_nth)
  then show ?rhs by (cases "q = p") (auto simp: assms)
next
  assume ?rhs
  then show ?lhs
  proof (elim disjE exE conjE)
    assume "occ e" "ie_jobId e = k" "ie_slotIndex e = s"
    then show ?lhs using assms by (auto simp: holds_nth intro!: exI [of _ p])
  next
    fix q
    assume "q < length es" "q \<noteq> p" "occ (es ! q)" "ie_jobId (es ! q) = k" "ie_slotIndex (es ! q) = s"
    then show ?lhs by (auto simp: holds_nth intro!: exI [of _ q])
  qed
qed

lemma holds_store:
  assumes "p < length es" "\<not> occ (es ! p)" "\<And>s'. \<not> holds es k s'"
  shows "holds (es[p := entry_of k s]) k' s' \<longleftrightarrow> (if k' = k then s' = s else holds es k' s')"
proof -
  have "(\<exists>q < length es. q \<noteq> p \<and> occ (es ! q) \<and> ie_jobId (es ! q) = k' \<and> ie_slotIndex (es ! q) = s')
    \<longleftrightarrow> holds es k' s'"
    using assms(2) by (auto simp: holds_nth)
  then show ?thesis using assms by (auto simp: holds_update)
qed

text \<open>The other positions never hold the key of position \<open>p\<close>.\<close>

lemma other_positions:
  assumes "table_ok es" "p < length es" "occ (es ! p)"
  shows "(\<exists>q < length es. q \<noteq> p \<and> occ (es ! q) \<and> ie_jobId (es ! q) = k' \<and> ie_slotIndex (es ! q) = s')
    \<longleftrightarrow> k' \<noteq> ie_jobId (es ! p) \<and> holds es k' s'"
  using assms unfolding table_ok_def holds_nth by metis

lemma holds_assign:
  assumes "table_ok es" "p < length es" "occ (es ! p)" "ie_jobId (es ! p) = k"
  shows "holds (es[p := (es ! p)\<lparr>ie_slotIndex := s\<rparr>]) k' s' \<longleftrightarrow>
    (if k' = k then s' = s else holds es k' s')"
  unfolding holds_update [OF assms(2)] other_positions [OF assms(1-3)]
  using assms(3,4) by (auto simp: occ_def)

lemma holds_tombstone:
  assumes "table_ok es" "p < length es" "occ (es ! p)" "ie_state e = Deleted"
  shows "holds (es[p := e]) k' s' \<longleftrightarrow> k' \<noteq> ie_jobId (es ! p) \<and> holds es k' s'"
  unfolding holds_update [OF assms(2)] other_positions [OF assms(1-3)]
  using assms(4) by (auto simp: occ_def)

section \<open>Probing\<close>

abbreviation pos :: "Entry list \<Rightarrow> u32 \<Rightarrow> nat \<Rightarrow> nat" where
  "pos es k j \<equiv> (ix_hash k + j) mod length es"

lemma and_pred_pow: "m = 2 ^ n \<Longrightarrow> (x::nat) AND (m - 1) = x mod m"
  using nat_and_mask_mod by simp

lemma pos_step:
  "length es = 2 ^ n \<Longrightarrow> (pos es k j + 1) AND (length es - 1) = pos es k (Suc j)"
  by (subst and_pred_pow) (simp_all only: mod_step Suc_eq_plus1 [symmetric])

lemma pos_less: "length es = 2 ^ n \<Longrightarrow> pos es k j < length es"
  by simp

lemma probe_loop_sound:
  "length es = 2 ^ n \<Longrightarrow> probe_loop es k (length es - 1) (pos es k j) r = Some p \<Longrightarrow>
   p < length es \<and> occ (es ! p) \<and> ie_jobId (es ! p) = k"
proof (induction r arbitrary: j)
  case (Suc r)
  show ?case
  proof (cases "ie_state (es ! pos es k j) = Occupied \<and> ie_jobId (es ! pos es k j) = k")
    case True
    then have "p = pos es k j" using Suc.prems(2) by (simp add: Let_def)
    with True show ?thesis using pos_less [OF Suc.prems(1)] by (simp only: occ_def)
  next
    case False
    then have "probe_loop es k (length es - 1) (pos es k (Suc j)) r = Some p"
      using Suc.prems pos_step [OF Suc.prems(1), of k j] by (auto simp: Let_def split: if_splits)
    then show ?thesis using Suc by blast
  qed
qed simp

lemma probe_loop_found:
  assumes len: "length es = 2 ^ n" and d: "d < length es"
    and hit: "occ (es ! pos es k d)" "ie_jobId (es ! pos es k d) = k"
    and before: "\<And>i. i < d \<Longrightarrow> ie_state (es ! pos es k i) \<noteq> Empty"
      "\<And>i. i < d \<Longrightarrow> \<not> (occ (es ! pos es k i) \<and> ie_jobId (es ! pos es k i) = k)"
  shows "j \<le> d \<Longrightarrow> probe_loop es k (length es - 1) (pos es k j) (length es - j) = Some (pos es k d)"
proof (induction "d - j" arbitrary: j)
  case 0
  then have "j = d" and "length es - j = Suc (length es - Suc j)" using d by auto
  then show ?case using hit by (simp add: occ_def)
next
  case (Suc x)
  then have "j < d" and l: "length es - j = Suc (length es - Suc j)" using d by auto
  moreover have "x = d - Suc j" using Suc.hyps(2) by simp
  ultimately have "probe_loop es k (length es - 1) (pos es k (Suc j)) (length es - Suc j) = Some (pos es k d)"
    using Suc.hyps(1) by (metis Suc_leI)
  then show ?case
    using before [of j] \<open>j < d\<close> pos_step [OF len, of k j]
    by (simp only: l probe_loop.simps Let_def) (auto simp: occ_def)
qed

lemma ix_find_iff:
  assumes "ix_wf t"
  shows "ix_find t k = Some p \<longleftrightarrow>
    p < ix_capacity t \<and> occ (ix_entries t ! p) \<and> ie_jobId (ix_entries t ! p) = k"
proof (cases "ix_capacity t = 0")
  case True
  then show ?thesis by (simp add: ix_find_def)
next
  case False
  let ?es = "ix_entries t"
  from False assms obtain n where len: "length ?es = 2 ^ n" and cap: "ix_capacity t = length ?es"
    and ok: "table_ok ?es"
    by (auto simp: ix_wf_def)
  have find: "ix_find t k = (if k = 0 then None
    else probe_loop ?es k (length ?es - 1) (pos ?es k 0) (length ?es - 0))"
    using False cap len and_pred_pow [OF len, of "ix_hash k"] by (auto simp: ix_find_def Let_def)
  show ?thesis
  proof
    assume "ix_find t k = Some p"
    then show "p < ix_capacity t \<and> occ (?es ! p) \<and> ie_jobId (?es ! p) = k"
      using find cap probe_loop_sound [OF len, of k 0] by (auto split: if_splits)
  next
    assume p: "p < ix_capacity t \<and> occ (?es ! p) \<and> ie_jobId (?es ! p) = k"
    then have "k \<noteq> 0" and path: "on_path ?es k p" using ok cap by (auto simp: table_ok_def)
    from path obtain d where d: "d < length ?es" "p = pos ?es k d"
      "\<And>j. j < d \<Longrightarrow> ie_state (?es ! pos ?es k j) \<noteq> Empty"
      by (auto simp: on_path_def)
    have "\<not> (occ (?es ! pos ?es k i) \<and> ie_jobId (?es ! pos ?es k i) = k)" if "i < d" for i
    proof
      assume "occ (?es ! pos ?es k i) \<and> ie_jobId (?es ! pos ?es k i) = k"
      then have "pos ?es k i = p" using ok p cap pos_less [OF len] unfolding table_ok_def by metis
      then show False using probe_inj [of "ix_hash k" i "length ?es" d] that d by simp
    qed
    then show "ix_find t k = Some p"
      using find \<open>k \<noteq> 0\<close> probe_loop_found [OF len d(1), of k 0] p d by simp
  qed
qed

lemma ix_get_iff:
  assumes "ix_wf t"
  shows "ix_get t k = Some s \<longleftrightarrow> holds (ix_entries t) k s"
  using ix_find_iff [OF assms] assms
  by (auto simp: ix_get_def holds_nth ix_wf_def)

lemma ix_get_None:
  "ix_wf t \<Longrightarrow> ix_get t k = None \<longleftrightarrow> (\<forall>s. \<not> holds (ix_entries t) k s)"
  using ix_get_iff [of t k] by (metis not_None_eq)

lemma ix_get_eqI:
  "ix_wf t \<Longrightarrow> (\<And>s. holds (ix_entries t) k s \<longleftrightarrow> r = Some s) \<Longrightarrow> ix_get t k = r"
  using ix_get_iff [of t k] ix_get_None [of t k] by (cases r) auto

section \<open>Inserting\<close>

lemma absent:
  assumes len: "length es = 2 ^ n" and ok: "table_ok es" and j: "j \<le> length es"
    and before: "\<And>i. i < j \<Longrightarrow> \<not> (occ (es ! pos es k i) \<and> ie_jobId (es ! pos es k i) = k)"
    and stop: "j = length es \<or> ie_state (es ! pos es k j) = Empty"
  shows "\<not> holds es k s"
proof
  assume "holds es k s"
  then obtain q where q: "q < length es" "occ (es ! q)" "ie_jobId (es ! q) = k"
    by (auto simp: holds_nth)
  with ok have "on_path es k q" by (auto simp: table_ok_def)
  then obtain d where d: "d < length es" "q = pos es k d"
    "\<And>i. i < d \<Longrightarrow> ie_state (es ! pos es k i) \<noteq> Empty"
    by (auto simp: on_path_def)
  have "j \<le> d" using before [of d] q d by (auto simp: not_less [symmetric])
  moreover have "ie_state (es ! pos es k d) \<noteq> Empty" using q d by (auto simp: occ_def)
  ultimately show False using stop d by (metis le_neq_implies_less not_less)
qed

text \<open>The three ways \<^verbatim>\<open>insertOrAssign\<close> can end.\<close>

definition insert_result :: "SchedulerIdIndex \<Rightarrow> u32 \<Rightarrow> nat \<Rightarrow> bool \<times> SchedulerIdIndex \<Rightarrow> bool" where
  "insert_result t k s r \<longleftrightarrow>
     (let es = ix_entries t in
      (\<exists>p < length es. occ (es ! p) \<and> ie_jobId (es ! p) = k \<and>
         r = (True, t\<lparr>ix_entries := es[p := (es ! p)\<lparr>ie_slotIndex := s\<rparr>]\<rparr>)) \<or>
      (\<exists>p < length es. \<not> occ (es ! p) \<and> on_path es k p \<and> (\<forall>s'. \<not> holds es k s') \<and>
         r = (True, t\<lparr>ix_entries := es[p := entry_of k s],
                      ix_deletedCount :=
                        (if del (es ! p) then ix_deletedCount t - 1 else ix_deletedCount t),
                      ix_size := ix_size t + 1\<rparr>)) \<or>
      (\<forall>p < length es. occ (es ! p)) \<and> r = (False, t))"

lemma insert_resultE [consumes 1, case_names assigned stored full]:
  assumes "insert_result t k s r"
  obtains (assigned) p where "p < length (ix_entries t)" "occ (ix_entries t ! p)"
      "ie_jobId (ix_entries t ! p) = k"
      "r = (True, t\<lparr>ix_entries := (ix_entries t)[p := (ix_entries t ! p)\<lparr>ie_slotIndex := s\<rparr>]\<rparr>)"
    | (stored) p where "p < length (ix_entries t)" "\<not> occ (ix_entries t ! p)"
      "on_path (ix_entries t) k p" "\<And>s'. \<not> holds (ix_entries t) k s'"
      "r = (True, t\<lparr>ix_entries := (ix_entries t)[p := entry_of k s],
                      ix_deletedCount :=
                        (if del (ix_entries t ! p) then ix_deletedCount t - 1 else ix_deletedCount t),
                      ix_size := ix_size t + 1\<rparr>)"
    | (full) "\<And>p. p < length (ix_entries t) \<Longrightarrow> occ (ix_entries t ! p)" "r = (False, t)"
  using assms unfolding insert_result_def Let_def by blast

lemma insert_loop_result:
  assumes len: "length (ix_entries t) = 2 ^ n" and cap: "ix_capacity t = length (ix_entries t)"
    and ok: "table_ok (ix_entries t)"
  shows "j \<le> length (ix_entries t) \<Longrightarrow>
    (\<And>i. i < j \<Longrightarrow> ie_state (ix_entries t ! pos (ix_entries t) k i) \<noteq> Empty) \<Longrightarrow>
    (\<And>i. i < j \<Longrightarrow> \<not> (occ (ix_entries t ! pos (ix_entries t) k i) \<and>
       ie_jobId (ix_entries t ! pos (ix_entries t) k i) = k)) \<Longrightarrow>
    (if fd = length (ix_entries t)
     then \<forall>i < j. ie_state (ix_entries t ! pos (ix_entries t) k i) \<noteq> Deleted
     else \<exists>i < j. fd = pos (ix_entries t) k i \<and> ie_state (ix_entries t ! fd) = Deleted) \<Longrightarrow>
    insert_result t k s
      (insert_loop t k s (pos (ix_entries t) k j) fd (length (ix_entries t) - j))"
proof (induction "length (ix_entries t) - j" arbitrary: j fd)
  case 0
  let ?es = "ix_entries t"
  have j: "j = length ?es" using 0 by simp
  have gone: "\<not> holds ?es k s'" for s'
    using "0.prems" j by (intro absent [OF len ok, where j = j]) auto
  show ?case
  proof (cases "fd = length ?es")
    case True
    have "occ (?es ! p)" if p: "p < length ?es" for p
    proof -
      obtain d where "d < length ?es" "p = pos ?es k d"
        using probe_covers [OF p, of "ix_hash k"] .
      then have "ie_state (?es ! p) \<noteq> Empty" "ie_state (?es ! p) \<noteq> Deleted"
        using "0.prems" True j by auto
      then show ?thesis by (cases "ie_state (?es ! p)") (auto simp: occ_def)
    qed
    then show ?thesis using True j cap by (simp add: insert_result_def Let_def)
  next
    case False
    then obtain i where i: "i < j" "fd = pos ?es k i" "ie_state (?es ! fd) = Deleted"
      using "0.prems" by auto
    have "on_path ?es k fd"
      unfolding on_path_def using i "0.prems" j by (intro exI [of _ i]) auto
    moreover have "fd < length ?es" using i(2) pos_less [OF len] by simp
    ultimately show ?thesis
      using False j cap i(3) gone
      unfolding insert_result_def Let_def
      by (intro disjI2 disjI1 exI [of _ fd]) (simp add: occ_def del_def entry_of_def)
  qed
next
  case (Suc x)
  let ?es = "ix_entries t" and ?p = "pos (ix_entries t) k j"
  have j: "j < length ?es" and l: "length ?es - j = Suc (length ?es - Suc j)"
    using Suc.hyps by auto
  have p: "?p < length ?es" using pos_less [OF len] .
  have nxt: "(?p + 1) AND (ix_capacity t - 1) = pos ?es k (Suc j)"
    using pos_step [OF len] cap by simp
  have IH: "insert_result t k s (insert_loop t k s (pos ?es k (Suc j)) fd' (length ?es - Suc j))"
    if "ie_state (?es ! ?p) \<noteq> Empty" "\<not> (occ (?es ! ?p) \<and> ie_jobId (?es ! ?p) = k)"
      "if fd' = length ?es then \<forall>i < Suc j. ie_state (?es ! pos ?es k i) \<noteq> Deleted
       else \<exists>i < Suc j. fd' = pos ?es k i \<and> ie_state (?es ! fd') = Deleted" for fd'
    using that Suc.prems Suc.hyps(2) j
    by (intro Suc.hyps(1)) (auto simp: less_Suc_eq)
  show ?case
  proof (cases "ie_state (?es ! ?p)")
    case Empty
    let ?q = "if fd = length ?es then ?p else fd"
    have gone: "\<not> holds ?es k s'" for s'
      using Suc.prems Empty by (intro absent [OF len ok, where j = j]) auto
    have "on_path ?es k ?q"
    proof (cases "fd = length ?es")
      case True
      then show ?thesis unfolding on_path_def using Suc.prems j by auto
    next
      case False
      then obtain i where "i < j" "fd = pos ?es k i" using Suc.prems by auto
      then show ?thesis unfolding on_path_def using Suc.prems(2) j False
        by (intro exI [of _ i]) auto
    qed
    moreover have "?q < length ?es \<and> \<not> occ (?es ! ?q)"
      using Suc.prems(4) Empty p pos_less [OF len] by (auto simp: occ_def split: if_splits)
    ultimately show ?thesis
      using gone Empty cap
      unfolding insert_result_def Let_def
      by (intro disjI2 disjI1 exI [of _ ?q]) (simp add: l del_def entry_of_def Let_def)
  next
    case Deleted
    have "insert_loop t k s ?p fd (length ?es - j)
      = insert_loop t k s (pos ?es k (Suc j)) (if fd = length ?es then ?p else fd) (length ?es - Suc j)"
      using Deleted nxt cap by (simp add: l)
    moreover have "insert_result t k s
      (insert_loop t k s (pos ?es k (Suc j)) (if fd = length ?es then ?p else fd) (length ?es - Suc j))"
      using Deleted Suc.prems(4) p
      by (intro IH) (auto simp: occ_def less_Suc_eq split: if_splits)
    ultimately show ?thesis by simp
  next
    case Occupied
    show ?thesis
    proof (cases "ie_jobId (?es ! ?p) = k")
      case True
      then show ?thesis
        using Occupied p unfolding insert_result_def Let_def
        by (intro disjI1 exI [of _ ?p]) (simp add: l occ_def)
    next
      case False
      have "insert_loop t k s ?p fd (length ?es - j)
        = insert_loop t k s (pos ?es k (Suc j)) fd (length ?es - Suc j)"
        using Occupied False nxt by (simp add: l)
      moreover have "insert_result t k s
        (insert_loop t k s (pos ?es k (Suc j)) fd (length ?es - Suc j))"
        using Occupied False Suc.prems(4)
        by (intro IH) (auto simp: less_Suc_eq split: if_splits)
      ultimately show ?thesis by simp
    qed
  qed
qed

lemma occ_not_del: "occ e \<Longrightarrow> \<not> del e"
  by (simp add: occ_def del_def)

lemma some_free_entry:
  assumes "ix_wf t" "0 < ix_capacity t"
  shows "\<exists>p < length (ix_entries t). \<not> occ (ix_entries t ! p)"
  using assms by (intro length_filter_less_nth) (auto simp: ix_wf_def)

text \<open>
  On a well-formed table \<^verbatim>\<open>insertOrAssign\<close> never fails, and it turns what the table holds into the
  updated map.
\<close>

lemma insertOrAssign_spec:
  assumes wf: "ix_wf t" and cap: "0 < ix_capacity t" and k: "k \<noteq> 0"
    and ins: "insertOrAssign k s t = (ok, t')"
  shows "ok"
    and "ix_capacity t' = ix_capacity t"
    and "holds (ix_entries t') k' s' \<longleftrightarrow> (if k' = k then s' = s else holds (ix_entries t) k' s')"
    and "ix_size t + ix_deletedCount t + 1 < ix_capacity t \<Longrightarrow> ix_wf t'"
    and "ix_size t' \<le> ix_size t + 1"
    and "ix_deletedCount t' \<le> ix_deletedCount t"
proof -
  let ?es = "ix_entries t"
  from wf cap obtain n where len: "length ?es = 2 ^ n" and c: "ix_capacity t = length ?es"
    and tok: "table_ok ?es" and sz: "ix_size t = length (filter occ ?es)"
    and dl: "ix_deletedCount t = length (filter del ?es)"
    by (auto simp: ix_wf_def)
  have "insert_result t k s (ok, t')"
    using insert_loop_result [OF len c tok, of 0 k "length ?es" s] ins c
      and_pred_pow [OF len, of "ix_hash k"]
    by (simp add: insertOrAssign_def)
  then have res: "ok \<and> ix_capacity t' = ix_capacity t \<and>
    (holds (ix_entries t') k' s' \<longleftrightarrow> (if k' = k then s' = s else holds ?es k' s')) \<and>
    length (ix_entries t') = length ?es \<and> table_ok (ix_entries t') \<and>
    ix_size t' = length (filter occ (ix_entries t')) \<and>
    ix_deletedCount t' = length (filter del (ix_entries t')) \<and>
    ix_size t' \<le> ix_size t + 1 \<and> ix_deletedCount t' \<le> ix_deletedCount t"
  proof (cases rule: insert_resultE)
    case (assigned p)
    let ?e = "(?es ! p)\<lparr>ie_slotIndex := s\<rparr>"
    have "occ ?e" "\<not> del ?e" using assigned(2) by (auto simp: occ_def del_def)
    then show ?thesis
      using assigned length_filter_update [OF assigned(1), of occ ?e]
        length_filter_update [OF assigned(1), of del ?e] occ_not_del [OF assigned(2)]
        holds_assign [OF tok assigned(1-3)] table_ok_same_keys [OF tok assigned(1,2), of ?e]
      by (simp add: sz dl occ_def)
  next
    case (stored p)
    then show ?thesis
      using length_filter_update [OF stored(1), of occ "entry_of k s"]
        length_filter_update [OF stored(1), of del "entry_of k s"]
        table_ok_store [OF tok stored(1-3) k stored(4)] holds_store [OF stored(1,2,4)]
      by (auto simp: sz dl)
  next
    case full
    then show ?thesis using some_free_entry [OF wf cap] by blast
  qed
  then show "ok" "ix_capacity t' = ix_capacity t"
    "holds (ix_entries t') k' s' \<longleftrightarrow> (if k' = k then s' = s else holds ?es k' s')"
    "ix_size t' \<le> ix_size t + 1" "ix_deletedCount t' \<le> ix_deletedCount t"
    by auto
  show "ix_size t + ix_deletedCount t + 1 < ix_capacity t \<Longrightarrow> ix_wf t'"
    using res len c unfolding ix_wf_def by auto
qed

section \<open>Rehashing\<close>

lemma distinct_map_filter_nth:
  assumes "\<And>p q. p < length xs \<Longrightarrow> q < length xs \<Longrightarrow> P (xs ! p) \<Longrightarrow> P (xs ! q) \<Longrightarrow>
    f (xs ! p) = f (xs ! q) \<Longrightarrow> p = q"
  shows "distinct (map f (filter P xs))"
  using assms
proof (induction xs)
  case (Cons x xs)
  have "distinct (map f (filter P xs))"
    using Cons.prems [of "Suc p" "Suc q" for p q] by (intro Cons.IH) auto
  moreover have "f x \<notin> f ` set (filter P xs)" if "P x"
  proof
    assume "f x \<in> f ` set (filter P xs)"
    then obtain q where "q < length xs" "P (xs ! q)" "f x = f (xs ! q)"
      by (auto simp: in_set_conv_nth)
    then show False using Cons.prems [of 0 "Suc q"] that by auto
  qed
  ultimately show ?case by auto
qed simp

lemma rehash_loop_spec:
  assumes "ix_wf t" "0 < ix_capacity t" "ix_deletedCount t = 0"
    and "ix_size t + length (filter occ es) < ix_capacity t"
    and "\<And>e. e \<in> set es \<Longrightarrow> occ e \<Longrightarrow> ie_jobId e \<noteq> 0"
    and "distinct (map ie_jobId (filter occ es))"
  shows "\<exists>t'. rehash_loop es t = (True, t') \<and> ix_wf t' \<and> ix_capacity t' = ix_capacity t \<and>
    ix_deletedCount t' = 0 \<and> ix_size t' \<le> ix_size t + length (filter occ es) \<and>
    (\<forall>k s. holds (ix_entries t') k s \<longleftrightarrow>
       holds es k s \<or> (\<forall>s'. \<not> holds es k s') \<and> holds (ix_entries t) k s)"
  using assms
proof (induction es arbitrary: t)
  case Nil
  then show ?case by (simp add: holds_def)
next
  case (Cons e es)
  show ?case
  proof (cases "occ e")
    case False
    moreover have "holds (e # es) k s = holds es k s" for k s
      using False by (auto simp: holds_def)
    ultimately show ?thesis using Cons by (auto simp: occ_def)
  next
    case True
    obtain ok t1 where ins: "insertOrAssign (ie_jobId e) (ie_slotIndex e) t = (ok, t1)"
      by (cases "insertOrAssign (ie_jobId e) (ie_slotIndex e) t")
    have id: "ie_jobId e \<noteq> 0" using Cons.prems(5) True by simp
    note sp = insertOrAssign_spec [OF Cons.prems(1,2) id ins]
    have "ix_size t + ix_deletedCount t + 1 < ix_capacity t" using Cons.prems(3,4) True by simp
    then have wf1: "ix_wf t1" by (rule sp(4))
    have fresh: "\<not> holds es (ie_jobId e) s" for s
      using Cons.prems(6) True by (simp add: holds_def image_iff) metis
    have hold: "holds (e # es) k s \<longleftrightarrow> (k = ie_jobId e \<and> s = ie_slotIndex e) \<or> holds es k s" for k s
      using True by (auto simp: holds_def)
    have "\<exists>t'. rehash_loop es t1 = (True, t') \<and> ix_wf t' \<and> ix_capacity t' = ix_capacity t1 \<and>
      ix_deletedCount t' = 0 \<and> ix_size t' \<le> ix_size t1 + length (filter occ es) \<and>
      (\<forall>k s. holds (ix_entries t') k s \<longleftrightarrow>
         holds es k s \<or> (\<forall>s'. \<not> holds es k s') \<and> holds (ix_entries t1) k s)"
      using Cons.prems sp(2,5,6) True wf1 by (intro Cons.IH) auto
    then obtain t' where t': "rehash_loop es t1 = (True, t')" "ix_wf t'"
      "ix_capacity t' = ix_capacity t1" "ix_deletedCount t' = 0"
      "ix_size t' \<le> ix_size t1 + length (filter occ es)"
      and h': "\<And>k s. holds (ix_entries t') k s \<longleftrightarrow>
         holds es k s \<or> (\<forall>s'. \<not> holds es k s') \<and> holds (ix_entries t1) k s"
      by blast
    have "holds (ix_entries t') k s \<longleftrightarrow> holds (e # es) k s \<or>
      (\<forall>s'. \<not> holds (e # es) k s') \<and> holds (ix_entries t) k s" for k s
      using h' sp(3) fresh by (cases "k = ie_jobId e") (simp_all add: hold)
    moreover have "ie_state e = Occupied" using True by (simp add: occ_def)
    ultimately show ?thesis using t' sp(1,2,5) True ins by auto
  qed
qed

lemma fresh_table_wf:
  "c = 2 ^ n \<Longrightarrow> ix_wf (t\<lparr>ix_entries := replicate c emptyEntry, ix_capacity := c, ix_size := 0,
     ix_deletedCount := 0\<rparr>)"
  by (auto simp: ix_wf_def table_ok_def emptyEntry_def occ_def del_def)

text \<open>
  Rehashing a well-formed table fails only when the allocator refuses; the restore path after a
  failed \<^verbatim>\<open>insertOrAssign\<close> is never taken.
\<close>

lemma rehash_spec:
  assumes wf: "ix_wf t" and new: "newCapacity = 2 ^ n" "ix_size t < newCapacity"
  shows "case rehash newCapacity t h of
      (True, t', h') \<Rightarrow> ix_wf t' \<and> ix_capacity t' = newCapacity \<and> ix_deletedCount t' = 0 \<and>
        ix_size t' \<le> ix_size t \<and> (\<forall>k s. holds (ix_entries t') k s \<longleftrightarrow> holds (ix_entries t) k s)
    | (False, t', h') \<Rightarrow> t' = t \<and> fst (schedulerAllocate newCapacity entrySize h) = False"
proof -
  let ?fresh = "t\<lparr>ix_entries := replicate newCapacity emptyEntry, ix_capacity := newCapacity,
    ix_size := 0, ix_deletedCount := 0\<rparr>"
  have "distinct (map ie_jobId (filter occ (ix_entries t)))"
    using wf by (intro distinct_map_filter_nth) (auto simp: ix_wf_def table_ok_def)
  moreover have "ie_jobId e \<noteq> 0" if "e \<in> set (ix_entries t)" "occ e" for e
    using wf that by (auto simp: ix_wf_def table_ok_def in_set_conv_nth)
  moreover have "0 < newCapacity" using new by linarith
  ultimately obtain t' where "rehash_loop (ix_entries t) ?fresh = (True, t')" "ix_wf t'"
    "ix_capacity t' = newCapacity" "ix_deletedCount t' = 0" "ix_size t' \<le> ix_size t"
    "\<And>k s. holds (ix_entries t') k s \<longleftrightarrow> holds (ix_entries t) k s"
    using rehash_loop_spec [of ?fresh "ix_entries t"] fresh_table_wf [OF new(1), of t] wf new(2)
    by (auto simp: ix_wf_def holds_def emptyEntry_def occ_def)
  then show ?thesis by (auto simp: rehash_def Let_def split: prod.splits bool.splits)
qed

section \<open>The operations as map updates\<close>

text \<open>Making room keeps the contents and leaves space for one more key.\<close>

lemma ensureCapacity_spec:
  assumes wf: "ix_wf t" and ens: "ensureCapacityForInsert t h = (ok, t1, h1)"
  shows "if ok then ix_wf t1 \<and> ix_size t1 + ix_deletedCount t1 + 1 < ix_capacity t1 \<and>
      (\<forall>k s. holds (ix_entries t1) k s \<longleftrightarrow> holds (ix_entries t) k s)
    else t1 = t"
proof -
  obtain n where pow: "ix_capacity t = 0 \<or> ix_capacity t = 2 ^ n" using wf by (auto simp: ix_wf_def)
  have bound: "0 < ix_capacity t \<Longrightarrow> ix_size t + ix_deletedCount t < ix_capacity t"
    and empty: "ix_capacity t = 0 \<Longrightarrow> ix_size t = 0"
    using wf by (auto simp: ix_wf_def)
  consider (grow) "ensureCapacityForInsert t h = rehash (nextCapacity (ix_capacity t)) t h"
    | (same) "ensureCapacityForInsert t h = rehash (ix_capacity t) t h" "0 < ix_capacity t"
      "(ix_size t + ix_deletedCount t + 1) * 10 < ix_capacity t * 7" "ix_size t < ix_deletedCount t"
    | (room) "ensureCapacityForInsert t h = (True, t, h)" "0 < ix_capacity t"
      "(ix_size t + ix_deletedCount t + 1) * 10 < ix_capacity t * 7"
    by (cases "ix_capacity t = 0"; cases "(ix_size t + ix_deletedCount t + 1) * 10 \<ge> ix_capacity t * 7";
        cases "ix_deletedCount t > ix_size t") (auto simp: ensureCapacityForInsert_def)
  then show ?thesis
  proof cases
    case grow
    have "nextCapacity (ix_capacity t) = 2 ^ 3 \<or> nextCapacity (ix_capacity t) = 2 ^ Suc n"
      using pow by (auto simp: nextCapacity_def)
    then obtain m where m: "nextCapacity (ix_capacity t) = 2 ^ m" by blast
    have less: "ix_size t + 1 < nextCapacity (ix_capacity t)"
      using bound empty by (auto simp: nextCapacity_def)
    then show ?thesis
      using rehash_spec [OF wf m, of h] ens by (auto simp: grow split: bool.splits)
  next
    case same
    then have "ix_capacity t = 2 ^ n" "ix_size t < ix_capacity t" using pow bound by auto
    then show ?thesis
      using rehash_spec [OF wf, of "ix_capacity t" n h] ens same by (auto split: bool.splits)
  next
    case room
    then show ?thesis using ens wf by auto
  qed
qed

lemma ix_set_spec:
  assumes wf: "ix_wf t" and set: "ix_set k s t h = (ok, t', h')"
  shows "ix_wf t'" and "ix_get t' = (if ok then (ix_get t)(k \<mapsto> s) else ix_get t)"
    and "ok \<Longrightarrow> k \<noteq> 0"
proof -
  obtain ok1 t1 h1 where ens: "ensureCapacityForInsert t h = (ok1, t1, h1)"
    by (cases "ensureCapacityForInsert t h")
  note e = ensureCapacity_spec [OF wf ens]
  have main: "ix_wf t' \<and> ix_get t' = (if ok then (ix_get t)(k \<mapsto> s) else ix_get t) \<and> (ok \<longrightarrow> k \<noteq> 0)"
  proof (cases "k = 0 \<or> \<not> ok1")
    case True
    then show ?thesis using set ens e wf by (auto simp: ix_set_def Let_def split: if_splits)
  next
    case False
    obtain ok2 t2 where ins: "insertOrAssign k s t1 = (ok2, t2)" by (cases "insertOrAssign k s t1")
    have w1: "ix_wf t1" "0 < ix_capacity t1" "ix_size t1 + ix_deletedCount t1 + 1 < ix_capacity t1"
      using e False by auto
    note sp = insertOrAssign_spec [OF w1(1,2) _ ins]
    have t': "t' = t2" "ok" and w2: "ix_wf t2"
      using set ens ins False sp(1) sp(4) [OF _ w1(3)] by (auto simp: ix_set_def)
    have "ix_get t' k' = ((ix_get t)(k \<mapsto> s)) k'" for k'
      unfolding t'(1) using w2
    proof (rule ix_get_eqI)
      show "holds (ix_entries t2) k' s' \<longleftrightarrow> ((ix_get t)(k \<mapsto> s)) k' = Some s'" for s'
        using sp(3) False e by (auto simp: ix_get_iff [OF wf])
    qed
    then show ?thesis using w2 t' False by auto
  qed
  then show "ix_wf t'" "ix_get t' = (if ok then (ix_get t)(k \<mapsto> s) else ix_get t)" "ok \<Longrightarrow> k \<noteq> 0"
    by auto
qed

lemma ix_remove_spec:
  assumes wf: "ix_wf t" and rem: "ix_remove k t = (ok, t')"
  shows "ix_wf t'" and "ix_get t' = (ix_get t)(k := None)" and "ok \<longleftrightarrow> ix_get t k \<noteq> None"
proof -
  have main: "ix_wf t' \<and> ix_get t' = (ix_get t)(k := None) \<and> (ok \<longleftrightarrow> ix_get t k \<noteq> None)"
  proof (cases "ix_find t k")
    case None
    then have "ix_get t k = None" by (simp add: ix_get_def)
    then show ?thesis using None rem wf by (auto simp: ix_remove_def fun_eq_iff)
  next
    case (Some p)
    let ?es = "ix_entries t" and ?e = "\<lparr>ie_jobId = 0, ie_slotIndex = 0, ie_state = Deleted\<rparr>"
    have p: "p < length ?es" "occ (?es ! p)" "ie_jobId (?es ! p) = k" and tok: "table_ok ?es"
      using Some ix_find_iff [OF wf] wf by (auto simp: ix_wf_def)
    have t': "t' = t\<lparr>ix_entries := ?es[p := ?e], ix_size := ix_size t - 1,
        ix_deletedCount := ix_deletedCount t + 1\<rparr>" "ok"
      using Some rem by (auto simp: ix_remove_def)
    have e: "\<not> occ ?e" "del ?e" "ie_state ?e = Deleted" by (simp_all add: occ_def del_def)
    have "ix_wf t'"
      using wf p e table_ok_tombstone [OF tok p(1) e(3)] occ_not_del [OF p(2)]
        length_filter_update [OF p(1), of occ ?e] length_filter_update [OF p(1), of del ?e]
      by (auto simp: ix_wf_def t')
    moreover have "ix_get t' k' = ((ix_get t)(k := None)) k'" for k'
      using \<open>ix_wf t'\<close>
    proof (rule ix_get_eqI)
      show "holds (ix_entries t') k' s \<longleftrightarrow> ((ix_get t)(k := None)) k' = Some s" for s
        using holds_tombstone [OF tok p(1,2) e(3)] p(3) by (simp add: t' ix_get_iff [OF wf])
    qed
    ultimately show ?thesis using Some t' by (auto simp: ix_get_def)
  qed
  then show "ix_wf t'" "ix_get t' = (ix_get t)(k := None)" "ok \<longleftrightarrow> ix_get t k \<noteq> None" by auto
qed

section \<open>The index the core relies on\<close>

text \<open>
  A partial map from ids to slots whose \<open>put\<close> may be refused. The client lemma is the roll-back of
  \<^verbatim>\<open>SchedulerCore::addJob\<close>: registering a fresh id and removing it again leaves every lookup as it
  was, whether the registration was granted or not.
\<close>

locale job_index =
  fixes lookup :: "'t \<Rightarrow> 'k \<Rightarrow> nat option"
    and put :: "'k \<Rightarrow> nat \<Rightarrow> 't \<Rightarrow> heap \<Rightarrow> bool \<times> 't \<times> heap"
    and remove :: "'k \<Rightarrow> 't \<Rightarrow> bool \<times> 't"
    and invar :: "'t \<Rightarrow> bool"
  assumes put_invar: "invar t \<Longrightarrow> put k s t h = (ok, t', h') \<Longrightarrow> invar t'"
    and put_lookup: "invar t \<Longrightarrow> put k s t h = (ok, t', h') \<Longrightarrow>
      lookup t' = (if ok then (lookup t)(k \<mapsto> s) else lookup t)"
    and remove_invar: "invar t \<Longrightarrow> remove k t = (ok, t') \<Longrightarrow> invar t'"
    and remove_lookup: "invar t \<Longrightarrow> remove k t = (ok, t') \<Longrightarrow> lookup t' = (lookup t)(k := None)"
begin

lemma remove_snd: "invar t \<Longrightarrow> invar (snd (remove k t)) \<and> lookup (snd (remove k t)) = (lookup t)(k := None)"
  by (cases "remove k t") (simp add: remove_invar remove_lookup)

lemma rollback:
  assumes "invar t" and "lookup t k = None" and "put k s t h = (ok, t', h')"
  shows "invar (snd (remove k t')) \<and> lookup (snd (remove k t')) = lookup t"
proof -
  have "invar t'" using assms(1,3) by (rule put_invar)
  then show ?thesis
    using remove_snd [of t' k] put_lookup [OF assms(1,3)] assms(2) by (auto simp: fun_eq_iff)
qed

end

interpretation ix: job_index ix_get ix_set ix_remove ix_wf
  by unfold_locales
    (rule ix_set_spec, assumption+, rule ix_set_spec, assumption+,
     rule ix_remove_spec, assumption+, rule ix_remove_spec, assumption+)

text \<open>
  C20: the open-addressing table with tombstones behaves as a finite map from job ids to slots. After
  \<^verbatim>\<open>set\<close>, whatever rehashing it did and whether or not memory was granted, every lookup sees exactly
  the assigned slot or, on failure, the old contents; \<^verbatim>\<open>remove\<close> deletes exactly its key and tells
  whether it was there.
\<close>

theorem idIndex_finite_map:
  assumes "ix_wf t" and "ix_set k s t h = (ok, t', h')"
  shows "ix_wf t' \<and> ix_get t' = (if ok then (ix_get t)(k \<mapsto> s) else ix_get t) \<and> (ok \<longrightarrow> k \<noteq> 0) \<and>
    (case ix_remove k2 t' of (found, t2) \<Rightarrow>
       ix_wf t2 \<and> ix_get t2 = (ix_get t')(k2 := None) \<and> (found \<longleftrightarrow> ix_get t' k2 \<noteq> None))"
proof -
  note set = ix_set_spec [OF assms]
  obtain found t2 where r: "ix_remove k2 t' = (found, t2)" by (cases "ix_remove k2 t'")
  show ?thesis using set ix_remove_spec [OF set(1) r] r by simp
qed

theorem idIndex_finite_map_witness:
  "ix_get (fst (snd (ix_set 5 7 (newIndex False) (\<lambda>_. False)))) = Map.empty"
proof -
  have none: "ix_get (newIndex False) = Map.empty"
    by (auto simp: ix_get_def ix_find_def newIndex_def fun_eq_iff)
  have set: "ix_set 5 7 (newIndex False) (\<lambda>_. False) = (False, newIndex False, \<lambda>_. False)"
    by (simp add: ix_set_def ensureCapacityForInsert_def newIndex_def rehash_def schedulerAllocate_def
        nextCapacity_def entrySize_def SIZE_MAX_def)
  then show ?thesis using idIndex_finite_map [OF ix_wf_newIndex set, of 5] none set by simp
qed

end
