(* ===== verification/Scheduler_Core.thy ===== *)
theory Scheduler_Core
  imports Scheduler_Types Due_Heap Id_Index
begin

text \<open>
  \<^verbatim>\<open>core/job_record.h\<close> and \<^verbatim>\<open>core/scheduler_core.cpp\<close>: the job table, the id index, the due heap and
  every operation on them. A reference \<^verbatim>\<open>JobRecord &record = jobs_[slot]\<close> that is written through is
  an update of the table at that slot. The sequence of the allocator's answers is part of the state
  (\<open>core_heap\<close>), because most operations may need memory. \<^verbatim>\<open>date_\<close> is the parameter \<open>date\<close>.
\<close>

section \<open>State\<close>

record JobRecord =
  jr_id :: u32
  jr_generation :: u32
  jr_occupied :: bool
  jr_schedule :: ScheduleSpec
  jr_dispatch :: DispatchPolicy
  jr_overlap :: OverlapPolicy
  jr_executorId :: u8
  jr_paused :: bool
  jr_canceled :: bool
  jr_queuedWhileRunning :: bool
  jr_hasNext :: bool
  jr_pendingSchedule :: bool
  jr_refreshPending :: bool
  jr_runningCount :: u16
  jr_nextRunUtc :: DateTime
  jr_scheduleFromUtc :: DateTime
  jr_callback :: CallbackRef
  jr_name :: SchedulerOwnedString
  jr_dedicatedTask :: DedicatedTaskOptions
  jr_hasDedicatedTaskOptions :: bool

definition newJobRecord :: "bool \<Rightarrow> JobRecord" where
  "newJobRecord usePSRAMMetadata =
     \<lparr>jr_id = 0, jr_generation = 1, jr_occupied = False, jr_schedule = defaultSpec,
      jr_dispatch = Inline, jr_overlap = SkipIfRunning, jr_executorId = 0, jr_paused = False,
      jr_canceled = False, jr_queuedWhileRunning = False, jr_hasNext = False,
      jr_pendingSchedule = False, jr_refreshPending = False, jr_runningCount = 0,
      jr_nextRunUtc = epochDate, jr_scheduleFromUtc = epochDate, jr_callback = makeEmptyCallback,
      jr_name = newString usePSRAMMetadata, jr_dedicatedTask = defaultDedicatedTask,
      jr_hasDedicatedTaskOptions = False\<rparr>"

record SchedulerCore =
  core_minValidEpochSeconds :: int
  core_usePSRAMMetadata :: bool
  core_nextId :: u32
  core_jobs :: "JobRecord SchedulerArray"
  core_freeSlots :: "nat SchedulerArray"
  core_pendingSchedules :: "nat SchedulerArray"
  core_jobIndex :: SchedulerIdIndex
  core_dueHeap :: DueHeap
  core_heap :: heap

text \<open>
  The constructor. \<open>recordSize\<close> is \<^verbatim>\<open>sizeof(JobRecord)\<close>; on the 32-bit target a \<^verbatim>\<open>size_t\<close> has 4
  bytes and a \<^verbatim>\<open>DueHeapEntry\<close> 16.
\<close>

definition newCore :: "nat \<Rightarrow> int \<Rightarrow> bool \<Rightarrow> heap \<Rightarrow> SchedulerCore" where
  "newCore recordSize minValid usePSRAM h =
     \<lparr>core_minValidEpochSeconds = minValid, core_usePSRAMMetadata = usePSRAM, core_nextId = 1,
      core_jobs = newArray recordSize usePSRAM, core_freeSlots = newArray 4 usePSRAM,
      core_pendingSchedules = newArray 4 usePSRAM, core_jobIndex = newIndex usePSRAM,
      core_dueHeap = newArray 16 usePSRAM, core_heap = h\<rparr>"

definition setMinValidUnixSeconds :: "int \<Rightarrow> SchedulerCore \<Rightarrow> SchedulerCore" where
  "setMinValidUnixSeconds minEpochSeconds c = c\<lparr>core_minValidEpochSeconds := minEpochSeconds\<rparr>"

definition minValidUnixSeconds :: "SchedulerCore \<Rightarrow> int" where
  "minValidUnixSeconds c = core_minValidEpochSeconds c"

definition clockValid :: "SchedulerCore \<Rightarrow> DateTime \<Rightarrow> bool" where
  "clockValid c nowUtc \<longleftrightarrow> epochSeconds nowUtc \<ge> core_minValidEpochSeconds c"

definition job_count :: "SchedulerCore \<Rightarrow> nat" where
  "job_count c = arr_size (core_jobs c)"

definition job_at :: "SchedulerCore \<Rightarrow> nat \<Rightarrow> JobRecord" where
  "job_at c s = arr_at (core_jobs c) s"

definition set_job :: "nat \<Rightarrow> JobRecord \<Rightarrow> SchedulerCore \<Rightarrow> SchedulerCore" where
  "set_job s r c = c\<lparr>core_jobs := arr_set (core_jobs c) s r\<rparr>"

text \<open>The test \<^verbatim>\<open>schedule.isOneShot || schedule.kind == ScheduleKind::OneShotUtc\<close>.\<close>

definition one_shot :: "JobRecord \<Rightarrow> bool" where
  "one_shot r \<longleftrightarrow> sp_isOneShot (jr_schedule r) \<or> sp_kind (jr_schedule r) = OneShotUtc"

section \<open>Scheduling\<close>

definition findJobSlot :: "SchedulerCore \<Rightarrow> u32 \<Rightarrow> nat SchedulerResult" where
  "findJobSlot c jobId =
     (case ix_get (core_jobIndex c) jobId of
        None \<Rightarrow> Inl NotFound
      | Some slotIndex \<Rightarrow>
          if slotIndex \<ge> job_count c then Inl NotFound
          else let r = job_at c slotIndex in
               if \<not> jr_occupied r \<or> jr_canceled r \<or> jr_id r \<noteq> jobId then Inl NotFound
               else Inr slotIndex)"

definition computeNextForJob :: "ESPDate \<Rightarrow> JobRecord \<Rightarrow> DateTime \<Rightarrow> bool \<times> JobRecord" where
  "computeNextForJob date r fromUtc =
     (if jr_canceled r \<or> jr_paused r then (False, r\<lparr>jr_hasNext := False\<rparr>)
      else let r = r\<lparr>jr_refreshPending := False\<rparr> in
        if one_shot r
        then (True, r\<lparr>jr_nextRunUtc := sp_onceAtUtc (jr_schedule r), jr_hasNext := True\<rparr>)
        else (case computeNext date (jr_schedule r) fromUtc of
                Some t \<Rightarrow> (True, r\<lparr>jr_nextRunUtc := t, jr_hasNext := True\<rparr>)
              | None \<Rightarrow> (False, r\<lparr>jr_hasNext := False\<rparr>)))"

definition due_entry :: "nat \<Rightarrow> JobRecord \<Rightarrow> DueHeapEntry" where
  "due_entry slotIndex r =
     \<lparr>due_nextEpoch = epochSeconds (jr_nextRunUtc r), due_slotIndex = slotIndex,
      due_generation = jr_generation r\<rparr>"

definition pushDue :: "nat \<Rightarrow> JobRecord \<Rightarrow> SchedulerCore \<Rightarrow> bool \<times> SchedulerCore" where
  "pushDue slotIndex r c =
     (if \<not> jr_occupied r \<or> jr_canceled r \<or> \<not> jr_hasNext r then (True, c)
      else let (ok, q, h) = duePush (due_entry slotIndex r) (core_dueHeap c) (core_heap c)
           in (ok, c\<lparr>core_dueHeap := q, core_heap := h\<rparr>))"

text \<open>
  The source writes the new record first and then \<^verbatim>\<open>if (!pushDue(slot, record)) record.hasNext =
  false;\<close>.
\<close>

definition push_or_clear :: "nat \<Rightarrow> SchedulerCore \<Rightarrow> SchedulerCore" where
  "push_or_clear slotIndex c =
     (let (ok, c') = pushDue slotIndex (job_at c slotIndex) c in
      if ok then c' else set_job slotIndex ((job_at c' slotIndex)\<lparr>jr_hasNext := False\<rparr>) c')"

text \<open>
  The fragment \<^verbatim>\<open>if (computeNextForJob(record, from) && !pushDue(slot, record)) record.hasNext =
  false;\<close> that several operations end with.
\<close>

definition plan_slot ::
  "ESPDate \<Rightarrow> nat \<Rightarrow> JobRecord \<Rightarrow> DateTime \<Rightarrow> SchedulerCore \<Rightarrow> SchedulerCore" where
  "plan_slot date slotIndex r fromUtc c =
     (let (ok, r) = computeNextForJob date r fromUtc;
          c = set_job slotIndex r c
      in if ok then push_or_clear slotIndex c else c)"

definition queueScheduling :: "nat \<Rightarrow> DateTime \<Rightarrow> SchedulerCore \<Rightarrow> bool \<times> SchedulerCore" where
  "queueScheduling slotIndex fromUtc c =
     (if slotIndex \<ge> job_count c then (False, c)
      else let r = job_at c slotIndex in
        if \<not> jr_occupied r \<or> jr_canceled r \<or> jr_paused r
        then (True, set_job slotIndex
               (r\<lparr>jr_pendingSchedule := False, jr_hasNext := False, jr_refreshPending := False\<rparr>) c)
        else let r = r\<lparr>jr_scheduleFromUtc := fromUtc, jr_hasNext := False\<rparr> in
          if jr_pendingSchedule r then (True, set_job slotIndex r c)
          else let (ok, p, h) = pushBack slotIndex (core_pendingSchedules c) (core_heap c);
                   c = c\<lparr>core_pendingSchedules := p, core_heap := h\<rparr>
               in if \<not> ok then (False, set_job slotIndex (r\<lparr>jr_pendingSchedule := False\<rparr>) c)
                  else (True, set_job slotIndex (r\<lparr>jr_pendingSchedule := True\<rparr>) c))"

definition clearScheduling :: "nat \<Rightarrow> SchedulerCore \<Rightarrow> SchedulerCore" where
  "clearScheduling slotIndex c =
     (if slotIndex \<ge> job_count c then c
      else set_job slotIndex ((job_at c slotIndex)
             \<lparr>jr_pendingSchedule := False, jr_hasNext := False, jr_refreshPending := False\<rparr>) c)"

text \<open>One round of the loop of \<^verbatim>\<open>drainPendingSchedules\<close>, after the slot was popped.\<close>

definition drain_one :: "ESPDate \<Rightarrow> nat \<Rightarrow> SchedulerCore \<Rightarrow> SchedulerCore" where
  "drain_one date slotIndex c =
     (if slotIndex \<ge> job_count c then c
      else let r = (job_at c slotIndex)\<lparr>jr_pendingSchedule := False\<rparr> in
        if \<not> jr_occupied r \<or> jr_canceled r \<or> jr_paused r \<or> jr_runningCount r > 0
        then set_job slotIndex (r\<lparr>jr_hasNext := False\<rparr>) c
        else plan_slot date slotIndex r (jr_scheduleFromUtc r) c)"

lemma set_job_other [simp]:
  "core_pendingSchedules (set_job s r c) = core_pendingSchedules c" "core_dueHeap (set_job s r c) = core_dueHeap c"
  "core_jobIndex (set_job s r c) = core_jobIndex c" "core_freeSlots (set_job s r c) = core_freeSlots c"
  "core_nextId (set_job s r c) = core_nextId c" "core_heap (set_job s r c) = core_heap c"
  "core_minValidEpochSeconds (set_job s r c) = core_minValidEpochSeconds c"
  "core_usePSRAMMetadata (set_job s r c) = core_usePSRAMMetadata c"
  by (simp_all add: set_job_def)

lemma pushDue_frame [simp]:
  "core_pendingSchedules (snd (pushDue s r c)) = core_pendingSchedules c" "core_jobs (snd (pushDue s r c)) = core_jobs c"
  "core_jobIndex (snd (pushDue s r c)) = core_jobIndex c" "core_freeSlots (snd (pushDue s r c)) = core_freeSlots c"
  "core_nextId (snd (pushDue s r c)) = core_nextId c"
  "core_minValidEpochSeconds (snd (pushDue s r c)) = core_minValidEpochSeconds c"
  "core_usePSRAMMetadata (snd (pushDue s r c)) = core_usePSRAMMetadata c"
  by (simp_all add: pushDue_def split: prod.splits)

lemma push_or_clear_frame [simp]:
  "core_pendingSchedules (push_or_clear s c) = core_pendingSchedules c"
  "core_jobIndex (push_or_clear s c) = core_jobIndex c" "core_freeSlots (push_or_clear s c) = core_freeSlots c"
  "core_nextId (push_or_clear s c) = core_nextId c"
  "core_minValidEpochSeconds (push_or_clear s c) = core_minValidEpochSeconds c"
  "core_usePSRAMMetadata (push_or_clear s c) = core_usePSRAMMetadata c"
  by (simp_all add: push_or_clear_def Let_def case_prod_unfold)

lemma plan_slot_frame [simp]:
  "core_pendingSchedules (plan_slot date s r t c) = core_pendingSchedules c"
  "core_jobIndex (plan_slot date s r t c) = core_jobIndex c"
  "core_freeSlots (plan_slot date s r t c) = core_freeSlots c"
  "core_nextId (plan_slot date s r t c) = core_nextId c"
  "core_minValidEpochSeconds (plan_slot date s r t c) = core_minValidEpochSeconds c"
  by (simp_all add: plan_slot_def Let_def split: prod.splits)

lemma drain_one_frame [simp]:
  "core_pendingSchedules (drain_one date s c) = core_pendingSchedules c"
  "core_jobIndex (drain_one date s c) = core_jobIndex c" "core_freeSlots (drain_one date s c) = core_freeSlots c"
  "core_nextId (drain_one date s c) = core_nextId c"
  "core_minValidEpochSeconds (drain_one date s c) = core_minValidEpochSeconds c"
  by (simp_all add: drain_one_def Let_def split: prod.splits)

function drain_loop :: "ESPDate \<Rightarrow> SchedulerCore \<Rightarrow> SchedulerCore" where
  "drain_loop date c =
     (if arr_empty (core_pendingSchedules c) then c
      else let slotIndex = arr_at (core_pendingSchedules c) (arr_size (core_pendingSchedules c) - 1);
               c = c\<lparr>core_pendingSchedules := popBack (core_pendingSchedules c)\<rparr>
           in drain_loop date (drain_one date slotIndex c))"
  by pat_completeness auto
termination
  by (relation "measure (\<lambda>(date, c). arr_size (core_pendingSchedules c))") (auto simp: arr_defs)

declare drain_loop.simps [simp del]

definition drainPendingSchedules :: "ESPDate \<Rightarrow> DateTime \<Rightarrow> SchedulerCore \<Rightarrow> SchedulerCore" where
  "drainPendingSchedules date nowUtc c = (if \<not> clockValid c nowUtc then c else drain_loop date c)"

definition validateDueEntry :: "SchedulerCore \<Rightarrow> DueHeapEntry \<Rightarrow> bool" where
  "validateDueEntry c e =
     (if due_slotIndex e \<ge> job_count c then False
      else let r = job_at c (due_slotIndex e) in
        jr_occupied r \<and> \<not> jr_canceled r \<and> jr_hasNext r \<and> jr_generation r = due_generation e \<and>
        epochSeconds (jr_nextRunUtc r) = due_nextEpoch e)"

function pruneInvalidDueEntries :: "SchedulerCore \<Rightarrow> SchedulerCore" where
  "pruneInvalidDueEntries c =
     (if \<not> dueEmpty (core_dueHeap c) \<and> \<not> validateDueEntry c (dueTop (core_dueHeap c))
      then pruneInvalidDueEntries (c\<lparr>core_dueHeap := snd (duePop (core_dueHeap c))\<rparr>)
      else c)"
  by pat_completeness auto
termination
  by (relation "measure (\<lambda>c. arr_size (core_dueHeap c))")
    (auto simp: duePop_less)

declare pruneInvalidDueEntries.simps [simp del]

definition retireJob :: "nat \<Rightarrow> SchedulerCore \<Rightarrow> SchedulerCore" where
  "retireJob slotIndex c =
     (if slotIndex \<ge> job_count c then c
      else let r = job_at c slotIndex;
               c = (if jr_id r \<noteq> 0 then c\<lparr>core_jobIndex := snd (ix_remove (jr_id r) (core_jobIndex c))\<rparr> else c);
               r = r\<lparr>jr_occupied := False, jr_canceled := False, jr_paused := False,
                     jr_queuedWhileRunning := False, jr_hasNext := False, jr_pendingSchedule := False,
                     jr_refreshPending := False, jr_runningCount := 0,
                     jr_callback := makeEmptyCallback, jr_name := str_clear (jr_name r), jr_id := 0,
                     jr_generation := jr_generation r + 1\<rparr>;
               c = set_job slotIndex r c;
               (ok, f, h) = pushBack slotIndex (core_freeSlots c) (core_heap c)
           in c\<lparr>core_freeSlots := f, core_heap := h\<rparr>)"

definition finalizeCanceledIfIdle :: "nat \<Rightarrow> SchedulerCore \<Rightarrow> SchedulerCore" where
  "finalizeCanceledIfIdle slotIndex c =
     (if slotIndex \<ge> job_count c then c
      else let r = job_at c slotIndex in
        if jr_occupied r \<and> jr_canceled r \<and> jr_runningCount r = 0 then retireJob slotIndex c else c)"

section \<open>The operations of the interface\<close>

text \<open>
  The record \<^verbatim>\<open>addJob\<close> builds from its arguments, before the name is copied. The id is the value of
  \<^verbatim>\<open>nextId_\<close> before its increment.
\<close>

definition job_record_for ::
  "ScheduleSpec \<Rightarrow> JobOptions \<Rightarrow> CallbackRef \<Rightarrow> SchedulerCore \<Rightarrow> JobRecord" where
  "job_record_for schedule options callback c =
     (newJobRecord (core_usePSRAMMetadata c))
       \<lparr>jr_occupied := True, jr_id := core_nextId c, jr_schedule := schedule,
        jr_dispatch := opt_dispatch options, jr_overlap := opt_overlap options,
        jr_executorId := opt_executorId options, jr_paused := opt_startPaused options,
        jr_callback := callback, jr_hasDedicatedTaskOptions := opt_dedicatedTask options \<noteq> None\<rparr>"

text \<open>
  Storing a record: the last free slot is reused with its generation, otherwise the table grows.
  The result is the slot and, for a reused one, its generation; \<open>None\<close> when there is no memory.
\<close>

definition place_job ::
  "JobRecord \<Rightarrow> SchedulerCore \<Rightarrow> (nat \<times> u32 option) option \<times> SchedulerCore" where
  "place_job r c =
     (if \<not> arr_empty (core_freeSlots c)
      then let slotIndex = arr_at (core_freeSlots c) (arr_size (core_freeSlots c) - 1);
               c = c\<lparr>core_freeSlots := popBack (core_freeSlots c)\<rparr>;
               reusedGeneration = jr_generation (job_at c slotIndex)
           in (Some (slotIndex, Some reusedGeneration),
               set_job slotIndex (r\<lparr>jr_generation := reusedGeneration\<rparr>) c)
      else let slotIndex = job_count c;
               (ok, js, h) = pushBack r (core_jobs c) (core_heap c);
               c = c\<lparr>core_jobs := js, core_heap := h\<rparr>
           in if \<not> ok then (None, c) else (Some (slotIndex, None), c))"

text \<open>The roll-back of \<^verbatim>\<open>addJob\<close>, which the source spells out twice.\<close>

definition unplace_job :: "nat \<Rightarrow> u32 option \<Rightarrow> SchedulerCore \<Rightarrow> SchedulerCore" where
  "unplace_job slotIndex reused c =
     (let c = c\<lparr>core_jobIndex := snd (ix_remove (jr_id (job_at c slotIndex)) (core_jobIndex c))\<rparr> in
      case reused of
        Some reusedGeneration \<Rightarrow>
          let c = set_job slotIndex
                    ((newJobRecord (core_usePSRAMMetadata c))\<lparr>jr_generation := reusedGeneration\<rparr>) c;
              (ok, f, h) = pushBack slotIndex (core_freeSlots c) (core_heap c)
          in c\<lparr>core_freeSlots := f, core_heap := h\<rparr>
      | None \<Rightarrow> c\<lparr>core_jobs := popBack (core_jobs c)\<rparr>)"

definition register_job :: "nat \<Rightarrow> SchedulerCore \<Rightarrow> bool \<times> SchedulerCore" where
  "register_job slotIndex c =
     (let (ok, t, h) = ix_set (jr_id (job_at c slotIndex)) slotIndex (core_jobIndex c) (core_heap c)
      in (ok, c\<lparr>core_jobIndex := t, core_heap := h\<rparr>))"

text \<open>Scheduling the stored job, unless it starts paused; \<open>False\<close> when it cannot be queued.\<close>

definition schedule_new ::
  "bool \<Rightarrow> DateTime \<Rightarrow> nat \<Rightarrow> SchedulerCore \<Rightarrow> bool \<times> SchedulerCore" where
  "schedule_new shouldPrimeImmediately nowUtc slotIndex c =
     (if jr_paused (job_at c slotIndex) then (True, c)
      else if shouldPrimeImmediately
      then (True, if jr_hasNext (job_at c slotIndex) then push_or_clear slotIndex c else c)
      else queueScheduling slotIndex nowUtc c)"

text \<open>
  The second half of \<^verbatim>\<open>addJob\<close>: the record is stored, registered under its id and scheduled. Either
  registration or queueing may run out of memory, which takes the record out again.
\<close>

definition install_job ::
  "bool \<Rightarrow> DateTime \<Rightarrow> JobRecord \<Rightarrow> SchedulerCore \<Rightarrow> u32 SchedulerResult \<times> SchedulerCore" where
  "install_job shouldPrimeImmediately nowUtc r c =
     (let (placed, c) = place_job r c in
      case placed of
        None \<Rightarrow> (Inl NoMemory, c)
      | Some (slotIndex, reused) \<Rightarrow>
          let (ok, c) = register_job slotIndex c in
          if \<not> ok then (Inl NoMemory, unplace_job slotIndex reused c)
          else let (ok, c) = schedule_new shouldPrimeImmediately nowUtc slotIndex c in
            if \<not> ok then (Inl NoMemory, unplace_job slotIndex reused c)
            else (Inr (jr_id (job_at c slotIndex)), c))"

definition addJob ::
  "ESPDate \<Rightarrow> ScheduleSpec \<Rightarrow> JobOptions \<Rightarrow> CallbackRef \<Rightarrow> DateTime \<Rightarrow> SchedulerCore
     \<Rightarrow> u32 SchedulerResult \<times> SchedulerCore" where
  "addJob date schedule options callback nowUtc c =
     (if \<not> cb_valid callback then (Inl InvalidSchedule, c)
      else if \<not> validate schedule then (Inl InvalidSchedule, c)
      else
        let r = job_record_for schedule options callback c;
            c = c\<lparr>core_nextId := core_nextId c + 1\<rparr>;
            (ok, name, h) = str_assign (opt_name options) (jr_name r) (core_heap c);
            r = r\<lparr>jr_name := name\<rparr>;
            c = c\<lparr>core_heap := h\<rparr>
        in if \<not> ok then (Inl NoMemory, c)
        else
          let r = (case opt_dedicatedTask options of
                     Some d \<Rightarrow> r\<lparr>jr_dedicatedTask := d\<rparr> | None \<Rightarrow> r);
              shouldPrimeImmediately = (\<not> jr_paused r \<and> clockValid c nowUtc);
              r = (if shouldPrimeImmediately then snd (computeNextForJob date r nowUtc) else r)
          in install_job shouldPrimeImmediately nowUtc r c)"

text \<open>The part that \<^verbatim>\<open>cancelJob\<close> and the loop of \<^verbatim>\<open>cancelAll\<close> share.\<close>

definition cancel_slot :: "nat \<Rightarrow> SchedulerCore \<Rightarrow> SchedulerCore" where
  "cancel_slot slotIndex c =
     (let c = set_job slotIndex ((job_at c slotIndex)
                \<lparr>jr_canceled := True, jr_paused := False, jr_queuedWhileRunning := False\<rparr>) c
      in finalizeCanceledIfIdle slotIndex (clearScheduling slotIndex c))"

definition cancelJob :: "u32 \<Rightarrow> SchedulerCore \<Rightarrow> unit SchedulerResult \<times> SchedulerCore" where
  "cancelJob jobId c =
     (case findJobSlot c jobId of
        Inl e \<Rightarrow> (Inl e, c)
      | Inr slotIndex \<Rightarrow> (Inr (), cancel_slot slotIndex c))"

definition pauseJob :: "u32 \<Rightarrow> SchedulerCore \<Rightarrow> unit SchedulerResult \<times> SchedulerCore" where
  "pauseJob jobId c =
     (case findJobSlot c jobId of
        Inl e \<Rightarrow> (Inl e, c)
      | Inr slotIndex \<Rightarrow>
          let c = set_job slotIndex ((job_at c slotIndex)
                    \<lparr>jr_paused := True, jr_queuedWhileRunning := False\<rparr>) c
          in (Inr (), clearScheduling slotIndex c))"

definition resumeJob :: "u32 \<Rightarrow> DateTime \<Rightarrow> SchedulerCore \<Rightarrow> unit SchedulerResult \<times> SchedulerCore" where
  "resumeJob jobId nowUtc c =
     (case findJobSlot c jobId of
        Inl e \<Rightarrow> (Inl e, c)
      | Inr slotIndex \<Rightarrow>
          let c = set_job slotIndex ((job_at c slotIndex)
                    \<lparr>jr_paused := False, jr_queuedWhileRunning := False\<rparr>) c
          in if jr_runningCount (job_at c slotIndex) = 0
             then let (ok, c) = queueScheduling slotIndex nowUtc c in
                  if \<not> ok then (Inl NoMemory, c) else (Inr (), c)
             else (Inr (), c))"

text \<open>The loops over the table count the slots left; none of them changes its length.\<close>

fun cancel_loop :: "nat \<Rightarrow> nat \<Rightarrow> SchedulerCore \<Rightarrow> SchedulerCore" where
  "cancel_loop index 0 c = c"
| "cancel_loop index (Suc n) c =
     (let r = job_at c index in
      cancel_loop (index + 1) n
        (if \<not> jr_occupied r \<or> jr_canceled r then c else cancel_slot index c))"

definition cancelAll :: "SchedulerCore \<Rightarrow> unit SchedulerResult \<times> SchedulerCore" where
  "cancelAll c = (Inr (), cancel_loop 0 (job_count c) c)"

definition refresh_slot :: "ESPDate \<Rightarrow> DateTime \<Rightarrow> nat \<Rightarrow> SchedulerCore \<Rightarrow> SchedulerCore" where
  "refresh_slot date nowUtc index c =
     (let r = job_at c index in
      if \<not> jr_occupied r \<or> jr_canceled r \<or> jr_paused r then c
      else if one_shot r then c
      else let r = r\<lparr>jr_pendingSchedule := False\<rparr> in
        if jr_runningCount r > 0 \<and> jr_overlap r \<noteq> AllowParallel
        then set_job index (r\<lparr>jr_refreshPending := True, jr_queuedWhileRunning := False,
                              jr_hasNext := False, jr_nextRunUtc := epochDate\<rparr>) c
        else plan_slot date index
               (r\<lparr>jr_refreshPending := False, jr_hasNext := False, jr_nextRunUtc := epochDate\<rparr>)
               nowUtc c)"

fun refresh_loop :: "ESPDate \<Rightarrow> DateTime \<Rightarrow> nat \<Rightarrow> nat \<Rightarrow> SchedulerCore \<Rightarrow> SchedulerCore" where
  "refresh_loop date nowUtc index 0 c = c"
| "refresh_loop date nowUtc index (Suc n) c =
     refresh_loop date nowUtc (index + 1) n (refresh_slot date nowUtc index c)"

definition refreshAllSchedules ::
  "ESPDate \<Rightarrow> DateTime \<Rightarrow> SchedulerCore \<Rightarrow> unit SchedulerResult \<times> SchedulerCore" where
  "refreshAllSchedules date nowUtc c = (Inr (), refresh_loop date nowUtc 0 (job_count c) c)"

definition active :: "JobRecord \<Rightarrow> bool" where
  "active r \<longleftrightarrow> jr_occupied r \<and> \<not> jr_canceled r"

definition jobCount :: "SchedulerCore \<Rightarrow> nat SchedulerResult" where
  "jobCount c =
     Inr (fold (\<lambda>r n. if jr_occupied r \<and> \<not> jr_canceled r then n + 1 else n) (arr_data (core_jobs c)) 0)"

definition info_of :: "JobRecord \<Rightarrow> JobInfo" where
  "info_of r =
     \<lparr>ji_id = jr_id r, ji_name = str_view (jr_name r), ji_paused = jr_paused r,
      ji_running = (jr_runningCount r > 0), ji_queuedWhileRunning = jr_queuedWhileRunning r,
      ji_dispatch = jr_dispatch r, ji_overlap = jr_overlap r, ji_executorId = jr_executorId r,
      ji_hasNext = jr_hasNext r, ji_nextRunUtc = jr_nextRunUtc r, ji_schedule = jr_schedule r\<rparr>"

text \<open>The out-parameter is the second component.\<close>

definition getJobInfo :: "SchedulerCore \<Rightarrow> u32 \<Rightarrow> unit SchedulerResult \<times> JobInfo" where
  "getJobInfo c jobId =
     (case findJobSlot c jobId of
        Inl e \<Rightarrow> (Inl e, emptyJobInfo)
      | Inr slotIndex \<Rightarrow> (Inr (), info_of (job_at c slotIndex)))"

definition nextDueEpoch :: "SchedulerCore \<Rightarrow> int option \<times> SchedulerCore" where
  "nextDueEpoch c =
     (let c = pruneInvalidDueEntries c in
      if dueEmpty (core_dueHeap c) then (None, c)
      else (Some (due_nextEpoch (dueTop (core_dueHeap c))), c))"

definition activeInvocationCount :: "SchedulerCore \<Rightarrow> nat" where
  "activeInvocationCount c = fold (\<lambda>r n. n + unat (jr_runningCount r)) (arr_data (core_jobs c)) 0"

end
