(* ===== verification/Scheduler_Dispatch.thy ===== *)
theory Scheduler_Dispatch
  imports Scheduler_Core
begin

text \<open>
  The dispatching half of \<^verbatim>\<open>core/scheduler_core.cpp\<close>: \<^verbatim>\<open>dispatchOne\<close>, \<^verbatim>\<open>dispatchDeferredIfNeeded\<close>,
  \<^verbatim>\<open>handleCompletion\<close>, \<^verbatim>\<open>dispatchDue\<close> and \<^verbatim>\<open>handleEvent\<close>. The executors are behind the interface
  \<^verbatim>\<open>IExecutorResolver\<close>; their state \<open>'e\<close> is threaded through and only \<^verbatim>\<open>submit\<close> changes it. An inline
  callback therefore does not call back into the scheduler in this model.
\<close>

section \<open>Pieces of dispatchOne\<close>

definition kRetryDelaySeconds :: int where "kRetryDelaySeconds = 1"

text \<open>The four places where \<^verbatim>\<open>dispatchOne\<close> gives up for now and tries again a second later.\<close>

definition retry_later :: "ESPDate \<Rightarrow> DateTime \<Rightarrow> nat \<Rightarrow> SchedulerCore \<Rightarrow> SchedulerCore" where
  "retry_later date nowUtc slotIndex c =
     push_or_clear slotIndex (set_job slotIndex ((job_at c slotIndex)
       \<lparr>jr_hasNext := True, jr_nextRunUtc := addSeconds date nowUtc kRetryDelaySeconds\<rparr>) c)"

text \<open>
  Planning the occurrence after \<open>currentDue\<close>. When \<^verbatim>\<open>computeNextForJob\<close> fails it has cleared
  \<^verbatim>\<open>hasNext\<close> itself.
\<close>

definition schedule_following :: "ESPDate \<Rightarrow> DateTime \<Rightarrow> nat \<Rightarrow> SchedulerCore \<Rightarrow> SchedulerCore" where
  "schedule_following date currentDue slotIndex c =
     plan_slot date slotIndex (job_at c slotIndex) (addMinutes date currentDue 1) c"

definition invocation_of :: "nat \<Rightarrow> JobRecord \<Rightarrow> JobInvocation" where
  "invocation_of slotIndex r =
     \<lparr>inv_jobId = jr_id r, inv_generation = jr_generation r, inv_slotIndex = slotIndex,
      inv_name = str_view (jr_name r), inv_callback = jr_callback r,
      inv_dedicatedTask =
        (if jr_hasDedicatedTaskOptions r then jr_dedicatedTask r else defaultDedicatedTask)\<rparr>"

text \<open>The inline branch before \<^verbatim>\<open>submit\<close>.\<close>

definition inline_start :: "ESPDate \<Rightarrow> nat \<Rightarrow> SchedulerCore \<Rightarrow> SchedulerCore" where
  "inline_start date slotIndex c =
     (let currentDue = jr_nextRunUtc (job_at c slotIndex);
          r = (job_at c slotIndex)\<lparr>jr_runningCount := jr_runningCount (job_at c slotIndex) + 1\<rparr>
      in if one_shot r then set_job slotIndex (r\<lparr>jr_hasNext := False\<rparr>) c
         else schedule_following date currentDue slotIndex (set_job slotIndex r c))"

definition stop_running :: "nat \<Rightarrow> SchedulerCore \<Rightarrow> SchedulerCore" where
  "stop_running slotIndex c =
     set_job slotIndex ((job_at c slotIndex)
       \<lparr>jr_runningCount := jr_runningCount (job_at c slotIndex) - 1\<rparr>) c"

text \<open>
  The asynchronous branch after a successful \<^verbatim>\<open>submit\<close>. The source treats \<^verbatim>\<open>AllowParallel\<close> in a branch
  of its own, with the same statements.
\<close>

definition async_started :: "ESPDate \<Rightarrow> bool \<Rightarrow> nat \<Rightarrow> SchedulerCore \<Rightarrow> SchedulerCore" where
  "async_started date deferred slotIndex c =
     (let currentDue = jr_nextRunUtc (job_at c slotIndex);
          r = (job_at c slotIndex)\<lparr>jr_runningCount := jr_runningCount (job_at c slotIndex) + 1\<rparr>
      in if deferred \<or> one_shot r then set_job slotIndex (r\<lparr>jr_hasNext := False\<rparr>) c
         else schedule_following date currentDue slotIndex (set_job slotIndex r c))"

text \<open>\<^verbatim>\<open>handleCompletion\<close> after the branch for a queued run.\<close>

definition complete_idle :: "DateTime \<Rightarrow> nat \<Rightarrow> SchedulerCore \<Rightarrow> SchedulerCore" where
  "complete_idle nowUtc slotIndex c =
     (let r = job_at c slotIndex;
          c = (if jr_runningCount r = 0 \<and> \<not> jr_paused r \<and> \<not> jr_hasNext r \<and> \<not> one_shot r
               then snd (queueScheduling slotIndex nowUtc c) else c);
          r = job_at c slotIndex
      in if jr_runningCount r = 0 \<and> \<not> jr_hasNext r \<and> one_shot r then retireJob slotIndex c else c)"

section \<open>The recursion\<close>

definition queued_flag :: "SchedulerCore \<Rightarrow> nat \<Rightarrow> nat" where
  "queued_flag c s = (if jr_queuedWhileRunning (job_at c s) then 1 else 0)"

lemma job_at_set_job:
  "job_at (set_job s r c) t = (if t = s \<and> s < job_count c then r else job_at c t)"
  by (cases "s < job_count c") (auto simp: job_at_def set_job_def arr_defs job_count_def not_less list_update_beyond)

lemma job_count_set_job [simp]: "job_count (set_job s r c) = job_count c"
  by (simp add: job_count_def set_job_def)

lemma job_at_heap_update [simp]:
  "job_at (c\<lparr>core_dueHeap := q, core_heap := h\<rparr>) s = job_at c s"
  "job_at (c\<lparr>core_pendingSchedules := p, core_heap := h\<rparr>) s = job_at c s"
  by (simp_all add: job_at_def)

lemma job_at_pushDue [simp]: "job_at (snd (pushDue s r c)) t = job_at c t"
  "job_count (snd (pushDue s r c)) = job_count c"
  by (simp_all add: job_at_def job_count_def)

lemma job_at_push_or_clear:
  "job_at (push_or_clear s c) t =
     (if t = s \<and> s < job_count c \<and> \<not> fst (pushDue s (job_at c s) c)
      then (job_at c s)\<lparr>jr_hasNext := False\<rparr> else job_at c t)"
  by (simp add: push_or_clear_def Let_def case_prod_unfold job_at_set_job)

lemma computeNextForJob_keeps [simp]:
  "jr_queuedWhileRunning (snd (computeNextForJob date r t)) = jr_queuedWhileRunning r"
  "jr_occupied (snd (computeNextForJob date r t)) = jr_occupied r"
  "jr_id (snd (computeNextForJob date r t)) = jr_id r"
  "jr_generation (snd (computeNextForJob date r t)) = jr_generation r"
  "jr_canceled (snd (computeNextForJob date r t)) = jr_canceled r"
  "jr_paused (snd (computeNextForJob date r t)) = jr_paused r"
  "jr_runningCount (snd (computeNextForJob date r t)) = jr_runningCount r"
  "jr_pendingSchedule (snd (computeNextForJob date r t)) = jr_pendingSchedule r"
  "jr_overlap (snd (computeNextForJob date r t)) = jr_overlap r"
  "jr_dispatch (snd (computeNextForJob date r t)) = jr_dispatch r"
  "jr_schedule (snd (computeNextForJob date r t)) = jr_schedule r"
  "jr_executorId (snd (computeNextForJob date r t)) = jr_executorId r"
  "jr_name (snd (computeNextForJob date r t)) = jr_name r"
  "jr_callback (snd (computeNextForJob date r t)) = jr_callback r"
  "one_shot (snd (computeNextForJob date r t)) = one_shot r"
  by (auto simp: computeNextForJob_def Let_def one_shot_def split: option.splits)

lemma queued_schedule_following:
  "jr_queuedWhileRunning (job_at (schedule_following date d s c) s) = jr_queuedWhileRunning (job_at c s)"
  by (simp add: schedule_following_def plan_slot_def Let_def case_prod_unfold job_at_push_or_clear job_at_set_job)

lemma queued_inline_start:
  "jr_queuedWhileRunning (job_at (inline_start date s c) s) = jr_queuedWhileRunning (job_at c s)"
  by (simp add: inline_start_def Let_def queued_schedule_following job_at_set_job)

function (sequential)
  dispatchOne :: "ESPDate \<Rightarrow> 'e IExecutorResolver \<Rightarrow> DateTime \<Rightarrow> nat \<Rightarrow> bool \<Rightarrow> SchedulerCore \<Rightarrow> 'e
      \<Rightarrow> SchedulerCore \<times> 'e" and
  handleCompletion :: "ESPDate \<Rightarrow> 'e IExecutorResolver \<Rightarrow> DateTime \<Rightarrow> nat \<Rightarrow> SchedulerCore \<Rightarrow> 'e
      \<Rightarrow> SchedulerCore \<times> 'e" and
  dispatchDeferredIfNeeded ::
    "ESPDate \<Rightarrow> 'e IExecutorResolver \<Rightarrow> DateTime \<Rightarrow> nat \<Rightarrow> SchedulerCore \<Rightarrow> 'e
      \<Rightarrow> SchedulerCore \<times> 'e" where
  "dispatchOne date executors nowUtc slotIndex deferred c e =
     (if slotIndex \<ge> job_count c then (c, e)
      else let r = job_at c slotIndex in
        if \<not> jr_occupied r \<or> jr_canceled r \<or> jr_paused r then (c, e)
        else let invocation = invocation_of slotIndex r in
          if jr_dispatch r = Inline
          then (case inlineExecutor executors of
                  None \<Rightarrow> (retry_later date nowUtc slotIndex c, e)
                | Some submit \<Rightarrow>
                    let c' = inline_start date slotIndex c;
                        (ok, e') = submit invocation e
                    in if \<not> ok then (retry_later date nowUtc slotIndex (stop_running slotIndex c'), e')
                       else handleCompletion date executors nowUtc slotIndex c' e')
          else (case executorFor executors (jr_executorId r) of
                  None \<Rightarrow> (retry_later date nowUtc slotIndex c, e)
                | Some submit \<Rightarrow>
                    if jr_hasDedicatedTaskOptions r \<and> jr_executorId r \<noteq> 1
                    then (retry_later date nowUtc slotIndex c, e)
                    else let (ok, e') = submit invocation e in
                         if \<not> ok then (retry_later date nowUtc slotIndex c, e')
                         else (async_started date deferred slotIndex c, e')))"
| "handleCompletion date executors nowUtc slotIndex c e =
     (if slotIndex \<ge> job_count c then (c, e)
      else if \<not> jr_occupied (job_at c slotIndex) then (c, e)
      else let r = (if jr_runningCount (job_at c slotIndex) > 0
                    then (job_at c slotIndex)
                           \<lparr>jr_runningCount := jr_runningCount (job_at c slotIndex) - 1\<rparr>
                    else job_at c slotIndex);
               c' = set_job slotIndex r c
           in if jr_canceled r then (finalizeCanceledIfIdle slotIndex c', e)
              else if jr_refreshPending r \<and> jr_runningCount r = 0
              then (snd (queueScheduling slotIndex nowUtc (set_job slotIndex
                     (r\<lparr>jr_refreshPending := False, jr_queuedWhileRunning := False,
                        jr_hasNext := False\<rparr>) c')), e)
              else if jr_queuedWhileRunning r \<and> jr_runningCount r = 0
              then dispatchDeferredIfNeeded date executors nowUtc slotIndex c' e
              else (complete_idle nowUtc slotIndex c', e))"
| "dispatchDeferredIfNeeded date executors nowUtc slotIndex c e =
     (if slotIndex \<ge> job_count c then (c, e)
      else let r = job_at c slotIndex in
        if \<not> jr_occupied r \<or> jr_canceled r \<or> jr_paused r \<or> \<not> jr_queuedWhileRunning r \<or>
           jr_runningCount r \<noteq> 0
        then (c, e)
        else dispatchOne date executors nowUtc slotIndex True
               (set_job slotIndex (r\<lparr>jr_queuedWhileRunning := False\<rparr>) c) e)"
  by pat_completeness auto

text \<open>
  A completion starts a queued run only after clearing the flag that asked for it, so the three
  functions call each other at most twice around.
\<close>

termination
  by (relation "measure (case_sum
      (\<lambda>(date, ex, now, s, d, c, e). 3 * queued_flag c s + 2)
      (case_sum (\<lambda>(date, ex, now, s, c, e). 3 * queued_flag c s + 1)
                (\<lambda>(date, ex, now, s, c, e). 3 * queued_flag c s)))")
    (auto simp: queued_flag_def queued_inline_start job_at_set_job split: if_splits)

declare dispatchOne.simps [simp del] handleCompletion.simps [simp del]
  dispatchDeferredIfNeeded.simps [simp del]

section \<open>The due loop and events\<close>

text \<open>
  The \<^verbatim>\<open>while\<close> loop of \<^verbatim>\<open>dispatchDue\<close>. Nothing in its text bounds the number of rounds, so it is a
  partial function: the value \<open>None\<close> is a loop that does not end.
\<close>

partial_function (option) dispatch_loop ::
  "ESPDate \<Rightarrow> 'e IExecutorResolver \<Rightarrow> DateTime \<Rightarrow> SchedulerCore \<Rightarrow> 'e \<Rightarrow> (SchedulerCore \<times> 'e) option"
where
  "dispatch_loop date executors nowUtc c e =
     (if dueEmpty (core_dueHeap c) then Some (c, e)
      else let c = pruneInvalidDueEntries c in
        if dueEmpty (core_dueHeap c) then Some (c, e)
        else let entry = dueTop (core_dueHeap c) in
          if due_nextEpoch entry > epochSeconds nowUtc then Some (c, e)
          else let c = c\<lparr>core_dueHeap := snd (duePop (core_dueHeap c))\<rparr>;
                   r = job_at c (due_slotIndex entry)
               in if jr_paused r
                  then dispatch_loop date executors nowUtc
                         (set_job (due_slotIndex entry) (r\<lparr>jr_hasNext := False\<rparr>) c) e
                  else if jr_runningCount r > 0 \<and> jr_overlap r \<noteq> AllowParallel
                  then dispatch_loop date executors nowUtc
                         (set_job (due_slotIndex entry)
                           (r\<lparr>jr_queuedWhileRunning :=
                                (if jr_overlap r = QueueOne then True else jr_queuedWhileRunning r),
                              jr_hasNext := False\<rparr>) c) e
                  else dispatch_loop date executors nowUtc
                         (fst (dispatchOne date executors nowUtc (due_slotIndex entry) False c e))
                         (snd (dispatchOne date executors nowUtc (due_slotIndex entry) False c e)))"

declare dispatch_loop.simps [code]

definition dispatchDue ::
  "ESPDate \<Rightarrow> 'e IExecutorResolver \<Rightarrow> DateTime \<Rightarrow> SchedulerCore \<Rightarrow> 'e \<Rightarrow> (SchedulerCore \<times> 'e) option"
where
  "dispatchDue date executors nowUtc c e =
     (if \<not> clockValid c nowUtc then Some (c, e)
      else dispatch_loop date executors nowUtc
             (pruneInvalidDueEntries (drainPendingSchedules date nowUtc c)) e)"

definition handleEvent ::
  "ESPDate \<Rightarrow> 'e IExecutorResolver \<Rightarrow> SchedulerEvent \<Rightarrow> DateTime \<Rightarrow> SchedulerCore \<Rightarrow> 'e
     \<Rightarrow> SchedulerCore \<times> 'e" where
  "handleEvent date executors event nowUtc c e =
     (if ev_kind event \<noteq> JobFinished then (c, e)
      else if ev_slotIndex event \<ge> job_count c then (c, e)
      else let r = job_at c (ev_slotIndex event) in
        if \<not> jr_occupied r \<or> jr_id r \<noteq> ev_jobId event \<or> jr_generation r \<noteq> ev_generation event
        then (c, e)
        else handleCompletion date executors nowUtc (ev_slotIndex event) c e)"

end
