(* ===== verification/Core_Invariant.thy ===== *)
theory Core_Invariant
  imports Scheduler_Dispatch
begin

text \<open>
  The invariant of \<^verbatim>\<open>SchedulerCore\<close> and its preservation by every operation of the interface. It is
  the conjunction of a frame (well-formed containers, the id index and the free list agree with the
  table) and of one condition per slot. Most operations change one slot only: they are
  \<open>local_step\<close>s, which leave the frame and every other slot alone, so that it remains to look at
  the record they touch.
\<close>

section \<open>The invariant\<close>

definition due_set :: "SchedulerCore \<Rightarrow> DueHeapEntry set" where
  "due_set c = set (arr_data (core_dueHeap c))"

definition pend_set :: "SchedulerCore \<Rightarrow> nat set" where
  "pend_set c = set (arr_data (core_pendingSchedules c))"

text \<open>What the flags of one record say together.\<close>

definition slot_flags :: "JobRecord \<Rightarrow> bool" where
  "slot_flags r \<longleftrightarrow>
     (\<not> jr_occupied r \<longrightarrow> \<not> jr_canceled r \<and> \<not> jr_paused r \<and> \<not> jr_hasNext r \<and> \<not> jr_pendingSchedule r \<and>
        \<not> jr_queuedWhileRunning r \<and> \<not> jr_refreshPending r \<and> jr_runningCount r = 0 \<and> jr_id r = 0) \<and>
     (jr_canceled r \<longrightarrow> jr_runningCount r > 0 \<and> \<not> jr_paused r) \<and>
     (jr_canceled r \<or> jr_paused r \<longrightarrow> \<not> jr_hasNext r \<and> \<not> jr_pendingSchedule r \<and>
        \<not> jr_queuedWhileRunning r \<and> \<not> jr_refreshPending r) \<and>
     (jr_queuedWhileRunning r \<longrightarrow> jr_overlap r = QueueOne \<and> jr_runningCount r > 0) \<and>
     (jr_refreshPending r \<longrightarrow> jr_overlap r \<noteq> AllowParallel \<and> jr_runningCount r > 0) \<and>
     (jr_overlap r \<noteq> AllowParallel \<longrightarrow> jr_runningCount r \<le> 1) \<and>
     (jr_dispatch r = Inline \<longrightarrow> jr_runningCount r = 0)"

definition slot_due :: "SchedulerCore \<Rightarrow> nat \<Rightarrow> bool" where
  "slot_due c s \<longleftrightarrow> (jr_hasNext (job_at c s) \<longrightarrow> due_entry s (job_at c s) \<in> due_set c)"

definition slot_pend :: "SchedulerCore \<Rightarrow> nat \<Rightarrow> bool" where
  "slot_pend c s \<longleftrightarrow> (jr_pendingSchedule (job_at c s) \<longrightarrow> s \<in> pend_set c)"

definition slot_ok :: "SchedulerCore \<Rightarrow> nat \<Rightarrow> bool" where
  "slot_ok c s \<longleftrightarrow> slot_flags (job_at c s) \<and> slot_due c s \<and> slot_pend c s"

definition arrays_wf :: "SchedulerCore \<Rightarrow> bool" where
  "arrays_wf c \<longleftrightarrow> arr_wf (core_jobs c) \<and> arr_wf (core_freeSlots c) \<and> arr_wf (core_pendingSchedules c) \<and>
     due_wf (core_dueHeap c)"

definition index_inv :: "SchedulerCore \<Rightarrow> bool" where
  "index_inv c \<longleftrightarrow> ix_wf (core_jobIndex c) \<and>
     (\<forall>k s. ix_get (core_jobIndex c) k = Some s \<longleftrightarrow>
        s < job_count c \<and> jr_occupied (job_at c s) \<and> jr_id (job_at c s) = k)"

definition free_inv :: "SchedulerCore \<Rightarrow> bool" where
  "free_inv c \<longleftrightarrow> distinct (arr_data (core_freeSlots c)) \<and>
     (\<forall>s \<in> set (arr_data (core_freeSlots c)). s < job_count c \<and> \<not> jr_occupied (job_at c s))"

definition ids_inv :: "SchedulerCore \<Rightarrow> bool" where
  "ids_inv c \<longleftrightarrow> core_nextId c \<noteq> 0 \<and>
     (\<forall>s < job_count c. jr_occupied (job_at c s) \<longrightarrow> jr_id (job_at c s) < core_nextId c)"

definition frame_inv :: "SchedulerCore \<Rightarrow> bool" where
  "frame_inv c \<longleftrightarrow> arrays_wf c \<and> index_inv c \<and> free_inv c \<and> ids_inv c"

definition others_ok :: "nat \<Rightarrow> SchedulerCore \<Rightarrow> bool" where
  "others_ok s c \<longleftrightarrow> (\<forall>t < job_count c. t \<noteq> s \<longrightarrow> slot_ok c t)"

definition core_inv :: "SchedulerCore \<Rightarrow> bool" where
  "core_inv c \<longleftrightarrow> frame_inv c \<and> (\<forall>s < job_count c. slot_ok c s)"

text \<open>Fields the table and the two queues do not depend on.\<close>

lemma update_freeSlots_simps [simp]:
  "job_at (c\<lparr>core_freeSlots := x\<rparr>) s = job_at c s"
  "job_count (c\<lparr>core_freeSlots := x\<rparr>) = job_count c"
  "due_set (c\<lparr>core_freeSlots := x\<rparr>) = due_set c"
  "pend_set (c\<lparr>core_freeSlots := x\<rparr>) = pend_set c"
  by (simp_all add: job_at_def job_count_def due_set_def pend_set_def)

lemma update_jobIndex_simps [simp]:
  "job_at (c\<lparr>core_jobIndex := x\<rparr>) s = job_at c s"
  "job_count (c\<lparr>core_jobIndex := x\<rparr>) = job_count c"
  "due_set (c\<lparr>core_jobIndex := x\<rparr>) = due_set c"
  "pend_set (c\<lparr>core_jobIndex := x\<rparr>) = pend_set c"
  by (simp_all add: job_at_def job_count_def due_set_def pend_set_def)

lemma update_heap_simps [simp]:
  "job_at (c\<lparr>core_heap := x\<rparr>) s = job_at c s"
  "job_count (c\<lparr>core_heap := x\<rparr>) = job_count c"
  "due_set (c\<lparr>core_heap := x\<rparr>) = due_set c"
  "pend_set (c\<lparr>core_heap := x\<rparr>) = pend_set c"
  by (simp_all add: job_at_def job_count_def due_set_def pend_set_def)

lemma update_nextId_simps [simp]:
  "job_at (c\<lparr>core_nextId := x\<rparr>) s = job_at c s"
  "job_count (c\<lparr>core_nextId := x\<rparr>) = job_count c"
  "due_set (c\<lparr>core_nextId := x\<rparr>) = due_set c"
  "pend_set (c\<lparr>core_nextId := x\<rparr>) = pend_set c"
  by (simp_all add: job_at_def job_count_def due_set_def pend_set_def)

lemma update_minValid_simps [simp]:
  "job_at (c\<lparr>core_minValidEpochSeconds := x\<rparr>) s = job_at c s"
  "job_count (c\<lparr>core_minValidEpochSeconds := x\<rparr>) = job_count c"
  "due_set (c\<lparr>core_minValidEpochSeconds := x\<rparr>) = due_set c"
  "pend_set (c\<lparr>core_minValidEpochSeconds := x\<rparr>) = pend_set c"
  by (simp_all add: job_at_def job_count_def due_set_def pend_set_def)

lemma job_at_pending_update [simp]:
  "job_at (c\<lparr>core_pendingSchedules := p\<rparr>) s = job_at c s"
  "job_count (c\<lparr>core_pendingSchedules := p\<rparr>) = job_count c"
  "job_at (c\<lparr>core_dueHeap := q\<rparr>) s = job_at c s"
  "job_count (c\<lparr>core_dueHeap := q\<rparr>) = job_count c"
  by (simp_all add: job_at_def job_count_def)

lemma core_invI:
  "frame_inv c \<Longrightarrow> others_ok s c \<Longrightarrow> (s < job_count c \<Longrightarrow> slot_ok c s) \<Longrightarrow> core_inv c"
  by (auto simp: core_inv_def others_ok_def)

lemma core_invD:
  assumes "core_inv c"
  shows "frame_inv c" "others_ok s c" "s < job_count c \<Longrightarrow> slot_ok c s"
    "s < job_count c \<Longrightarrow> slot_flags (job_at c s)" "arrays_wf c" "index_inv c"
  using assms by (auto simp: core_inv_def others_ok_def slot_ok_def frame_inv_def)

lemma newCore_inv: "core_inv (newCore sz mn psram h)"
proof -
  have "ix_get (newIndex psram) k = None" for k
    by (simp add: ix_get_def ix_find_def newIndex_def)
  then show ?thesis
    by (simp add: core_inv_def frame_inv_def arrays_wf_def index_inv_def free_inv_def ids_inv_def
        newCore_def job_count_def arr_defs due_wf_def is_heap_def)
qed

section \<open>Steps at one slot\<close>

definition local_step :: "nat \<Rightarrow> SchedulerCore \<Rightarrow> SchedulerCore \<Rightarrow> bool" where
  "local_step s c c' \<longleftrightarrow>
     job_count c' = job_count c \<and> (\<forall>t. t \<noteq> s \<longrightarrow> job_at c' t = job_at c t) \<and>
     jr_id (job_at c' s) = jr_id (job_at c s) \<and> jr_occupied (job_at c' s) = jr_occupied (job_at c s) \<and>
     jr_generation (job_at c' s) = jr_generation (job_at c s) \<and>
     core_jobIndex c' = core_jobIndex c \<and> core_freeSlots c' = core_freeSlots c \<and>
     core_nextId c' = core_nextId c \<and> core_minValidEpochSeconds c' = core_minValidEpochSeconds c \<and>
     due_set c \<subseteq> due_set c' \<and> pend_set c \<subseteq> pend_set c' \<and> (arrays_wf c \<longrightarrow> arrays_wf c')"

lemma local_step_refl [intro, simp]: "local_step s c c"
  by (simp add: local_step_def)

lemma local_step_trans [trans]: "local_step s c c' \<Longrightarrow> local_step s c' c'' \<Longrightarrow> local_step s c c''"
  by (auto simp: local_step_def)

lemma local_step_inv:
  assumes "local_step s c c'" "frame_inv c" "others_ok s c"
  shows "frame_inv c'" "others_ok s c'"
proof -
  have same: "jr_id (job_at c' t) = jr_id (job_at c t)" "jr_occupied (job_at c' t) = jr_occupied (job_at c t)" for t
    using assms(1) by (cases "t = s"; simp add: local_step_def)+
  show "frame_inv c'"
    using assms(1,2) same
    by (simp add: frame_inv_def local_step_def index_inv_def free_inv_def ids_inv_def)
  show "others_ok s c'"
    using assms(1,3)
    by (auto simp: others_ok_def slot_ok_def slot_due_def slot_pend_def local_step_def)
qed

lemma local_step_core_inv:
  assumes "local_step s c c'" "frame_inv c" "others_ok s c" "s < job_count c \<Longrightarrow> slot_ok c' s"
  shows "core_inv c'"
  using local_step_inv [OF assms(1-3)] assms(1,4) by (intro core_invI [of _ s]) (auto simp: local_step_def)

lemma due_set_set_job [simp]: "due_set (set_job s r c) = due_set c"
  and pend_set_set_job [simp]: "pend_set (set_job s r c) = pend_set c"
  and arrays_wf_set_job [simp]: "arrays_wf (set_job s r c) = arrays_wf c"
  by (simp_all add: due_set_def pend_set_def arrays_wf_def set_job_def)

lemma local_step_set_job:
  assumes "jr_id r = jr_id (job_at c s)" "jr_occupied r = jr_occupied (job_at c s)"
    "jr_generation r = jr_generation (job_at c s)"
  shows "local_step s c (set_job s r c)"
  using assms by (auto simp: local_step_def job_at_set_job)

text \<open>Pushing the entry of a live record: granted or refused, the slot is in order afterwards.\<close>

lemma pushDue_spec:
  assumes "arrays_wf c"
  shows "arrays_wf (snd (pushDue s r c))" "due_set c \<subseteq> due_set (snd (pushDue s r c))"
    "due_set (snd (pushDue s r c)) \<subseteq> insert (due_entry s r) (due_set c)"
    "pend_set (snd (pushDue s r c)) = pend_set c"
    "fst (pushDue s r c) \<Longrightarrow> jr_occupied r \<Longrightarrow> \<not> jr_canceled r \<Longrightarrow> jr_hasNext r \<Longrightarrow>
       due_entry s r \<in> due_set (snd (pushDue s r c))"
proof -
  obtain ok q h where p: "duePush (due_entry s r) (core_dueHeap c) (core_heap c) = (ok, q, h)"
    by (metis prod_cases3)
  have wf: "due_wf (core_dueHeap c)" using assms by (simp add: arrays_wf_def)
  have q: "if ok then due_wf q \<and> mset (arr_data q) = add_mset (due_entry s r) (mset (arr_data (core_dueHeap c)))
           else q = core_dueHeap c"
    using p wf dq.push_accepted dq.push_refused by (cases ok) auto
  then have set_q: "ok \<Longrightarrow> set (arr_data q) = insert (due_entry s r) (set (arr_data (core_dueHeap c)))"
    by (metis set_mset_mset set_mset_add_mset_insert)
  show "arrays_wf (snd (pushDue s r c))" "due_set c \<subseteq> due_set (snd (pushDue s r c))"
    "due_set (snd (pushDue s r c)) \<subseteq> insert (due_entry s r) (due_set c)"
    "pend_set (snd (pushDue s r c)) = pend_set c"
    "fst (pushDue s r c) \<Longrightarrow> jr_occupied r \<Longrightarrow> \<not> jr_canceled r \<Longrightarrow> jr_hasNext r \<Longrightarrow>
       due_entry s r \<in> due_set (snd (pushDue s r c))"
    using assms p q set_q by (auto simp: pushDue_def arrays_wf_def due_set_def pend_set_def split: if_splits)
qed

lemma push_or_clear_spec:
  assumes "arrays_wf c"
  shows "local_step s c (push_or_clear s c)"
    and "jr_occupied (job_at c s) \<Longrightarrow> \<not> jr_canceled (job_at c s) \<Longrightarrow> s < job_count c \<Longrightarrow>
      slot_due (push_or_clear s c) s"
    and "job_at (push_or_clear s c) s = job_at c s \<or>
      job_at (push_or_clear s c) s = (job_at c s)\<lparr>jr_hasNext := False\<rparr>"
    and "due_set (push_or_clear s c) \<subseteq> insert (due_entry s (job_at c s)) (due_set c)"
    and "pend_set (push_or_clear s c) = pend_set c"
proof -
  let ?c = "snd (pushDue s (job_at c s) c)"
  note p = pushDue_spec [OF assms, of s "job_at c s"]
  have step: "local_step s c ?c" using p by (auto simp: local_step_def)
  have eq: "push_or_clear s c = (if fst (pushDue s (job_at c s) c) then ?c
    else set_job s ((job_at c s)\<lparr>jr_hasNext := False\<rparr>) ?c)"
    by (simp add: push_or_clear_def Let_def case_prod_unfold)
  show "local_step s c (push_or_clear s c)"
    unfolding eq using step by (auto intro: local_step_trans [OF step local_step_set_job])
  show "slot_due (push_or_clear s c) s"
    if "jr_occupied (job_at c s)" "\<not> jr_canceled (job_at c s)" "s < job_count c"
    using that p(5) by (auto simp: eq slot_due_def job_at_set_job)
  show "job_at (push_or_clear s c) s = job_at c s \<or>
      job_at (push_or_clear s c) s = (job_at c s)\<lparr>jr_hasNext := False\<rparr>"
    by (auto simp: job_at_push_or_clear)
  show "due_set (push_or_clear s c) \<subseteq> insert (due_entry s (job_at c s)) (due_set c)"
    "pend_set (push_or_clear s c) = pend_set c"
    using p by (auto simp: eq)
qed

section \<open>Scheduling operations keep the invariant\<close>

lemma queueScheduling_local:
  assumes "arrays_wf c" "s < job_count c"
  obtains p f q where "local_step s c (snd (queueScheduling s t c))"
    "job_at (snd (queueScheduling s t c)) s = (job_at c s)
       \<lparr>jr_scheduleFromUtc := f, jr_hasNext := False, jr_pendingSchedule := p, jr_refreshPending := q\<rparr>"
    "p \<longrightarrow> jr_occupied (job_at c s) \<and> \<not> jr_canceled (job_at c s) \<and> \<not> jr_paused (job_at c s)"
    "q \<longrightarrow> jr_refreshPending (job_at c s)"
    "slot_pend c s \<longrightarrow> slot_pend (snd (queueScheduling s t c)) s"
    "due_set (snd (queueScheduling s t c)) = due_set c"
    "fst (queueScheduling s t c) \<longrightarrow> jr_occupied (job_at c s) \<and> \<not> jr_canceled (job_at c s) \<and>
       \<not> jr_paused (job_at c s) \<longrightarrow> p"
proof -
  let ?r = "job_at c s"
  consider (dead) "\<not> jr_occupied ?r \<or> jr_canceled ?r \<or> jr_paused ?r"
    | (queued) "jr_occupied ?r" "\<not> jr_canceled ?r" "\<not> jr_paused ?r" "jr_pendingSchedule ?r"
    | (live) "jr_occupied ?r" "\<not> jr_canceled ?r" "\<not> jr_paused ?r" "\<not> jr_pendingSchedule ?r"
    by blast
  then show thesis
  proof cases
    case dead
    then have "queueScheduling s t c = (True, set_job s
        (?r\<lparr>jr_scheduleFromUtc := jr_scheduleFromUtc ?r, jr_hasNext := False, jr_pendingSchedule := False,
            jr_refreshPending := False\<rparr>) c)"
      using assms(2) by (auto simp: queueScheduling_def Let_def intro!: JobRecord.equality
          arg_cong [where f = "\<lambda>r. set_job s r c"])
    then show thesis
      using dead assms(2)
      by (intro that [where p = False and f = "jr_scheduleFromUtc ?r" and q = False])
        (auto intro!: local_step_set_job simp: job_at_set_job slot_pend_def)
  next
    case queued
    then have "queueScheduling s t c = (True, set_job s
        (?r\<lparr>jr_scheduleFromUtc := t, jr_hasNext := False, jr_pendingSchedule := True,
            jr_refreshPending := jr_refreshPending ?r\<rparr>) c)"
      using assms(2) by (auto simp: queueScheduling_def Let_def intro!: JobRecord.equality
          arg_cong [where f = "\<lambda>r. set_job s r c"])
    then show thesis
      using queued assms(2)
      by (intro that [where p = True and f = t and q = "jr_refreshPending ?r"])
        (auto intro!: local_step_set_job simp: job_at_set_job slot_pend_def)
  next
    case live
    obtain ok p h where p: "pushBack s (core_pendingSchedules c) (core_heap c) = (ok, p, h)"
      by (metis prod_cases3)
    let ?c = "c\<lparr>core_pendingSchedules := p, core_heap := h\<rparr>"
    have e: "queueScheduling s t c = (ok, set_job s
        (?r\<lparr>jr_scheduleFromUtc := t, jr_hasNext := False, jr_pendingSchedule := ok,
            jr_refreshPending := jr_refreshPending ?r\<rparr>) ?c)"
      using live assms(2) p by (simp add: queueScheduling_def Let_def)
    have "arr_wf p" using pushBack_wf [OF p] assms(1) by (simp add: arrays_wf_def)
    moreover have "pend_set c \<subseteq> set (arr_data p)" "ok \<Longrightarrow> s \<in> set (arr_data p)"
      using p by (auto simp: pend_set_def elim: pushBack_cases)
    moreover have "job_count ?c = job_count c" by (simp add: job_count_def)
    ultimately have step: "local_step s c ?c" and pend: "ok \<Longrightarrow> s \<in> pend_set ?c"
      using assms(1) by (auto simp: local_step_def arrays_wf_def due_set_def pend_set_def)
    from step have "local_step s c (set_job s
        (?r\<lparr>jr_scheduleFromUtc := t, jr_hasNext := False, jr_pendingSchedule := ok,
            jr_refreshPending := jr_refreshPending ?r\<rparr>) ?c)"
      by (rule local_step_trans) (rule local_step_set_job, simp_all)
    moreover have "due_set ?c = due_set c" by (simp add: due_set_def)
    ultimately show thesis
      using live assms(2) pend e \<open>job_count ?c = job_count c\<close>
      by (intro that [where p = ok and f = t and q = "jr_refreshPending ?r"]) (auto simp: job_at_set_job slot_pend_def)
  qed
qed

lemma queueScheduling_inv [inv_intros]:
  assumes "frame_inv c" "others_ok s c" "slot_flags (job_at c s)" "slot_pend c s"
  shows "core_inv (snd (queueScheduling s t c))"
proof (cases "s < job_count c")
  case True
  then obtain p f q where q: "local_step s c (snd (queueScheduling s t c))"
    "job_at (snd (queueScheduling s t c)) s = (job_at c s)
       \<lparr>jr_scheduleFromUtc := f, jr_hasNext := False, jr_pendingSchedule := p, jr_refreshPending := q\<rparr>"
    "p \<longrightarrow> jr_occupied (job_at c s) \<and> \<not> jr_canceled (job_at c s) \<and> \<not> jr_paused (job_at c s)"
    "q \<longrightarrow> jr_refreshPending (job_at c s)"
    "slot_pend c s \<longrightarrow> slot_pend (snd (queueScheduling s t c)) s"
    using queueScheduling_local [of c s t] assms(1) unfolding frame_inv_def by metis
  then have "slot_ok (snd (queueScheduling s t c)) s"
    using assms(3,4) by (auto simp: slot_ok_def slot_due_def slot_flags_def)
  then show ?thesis using q(1) assms(1,2) by (auto intro: local_step_core_inv)
next
  case False
  then show ?thesis
    using assms by (auto simp: queueScheduling_def intro: core_invI [of c s])
qed

lemma clearScheduling_local: "local_step s c (clearScheduling s c)"
  by (auto simp: clearScheduling_def intro: local_step_set_job)

lemma job_at_clearScheduling:
  "s < job_count c \<Longrightarrow> job_at (clearScheduling s c) s =
     (job_at c s)\<lparr>jr_pendingSchedule := False, jr_hasNext := False, jr_refreshPending := False\<rparr>"
  by (simp add: clearScheduling_def job_at_set_job)

text \<open>Computing the next run of a live record and pushing it.\<close>

lemma computeNextForJob_flags:
  "slot_flags r \<Longrightarrow> jr_occupied r \<Longrightarrow> slot_flags (snd (computeNextForJob date r t))"
  by (auto simp: slot_flags_def computeNextForJob_def Let_def split: option.splits)

lemma computeNextForJob_fst: "fst (computeNextForJob date r t) = jr_hasNext (snd (computeNextForJob date r t))"
  by (auto simp: computeNextForJob_def Let_def split: option.splits)

lemma slot_flags_hasNext: "slot_flags r \<Longrightarrow> slot_flags (r\<lparr>jr_hasNext := False\<rparr>)"
  by (auto simp: slot_flags_def)

lemma plan_slot_local:
  fixes date :: ESPDate and t :: DateTime
  assumes "arrays_wf c" "s < job_count c" "jr_id r = jr_id (job_at c s)"
    "jr_occupied r = jr_occupied (job_at c s)" "jr_generation r = jr_generation (job_at c s)"
    and live: "jr_occupied r" "\<not> jr_canceled r"
  defines "c' \<equiv> plan_slot date s r t c"
  shows "local_step s c c'" "slot_due c' s"
    "job_at c' s = snd (computeNextForJob date r t) \<or>
     job_at c' s = (snd (computeNextForJob date r t))\<lparr>jr_hasNext := False\<rparr>"
    "due_set c' \<subseteq> insert (due_entry s (snd (computeNextForJob date r t))) (due_set c)"
    "\<not> fst (computeNextForJob date r t) \<Longrightarrow> due_set c' = due_set c"
    "pend_set c' = pend_set c"
proof -
  let ?r = "snd (computeNextForJob date r t)" and ?c = "set_job s (snd (computeNextForJob date r t)) c"
  have c': "c' = (if fst (computeNextForJob date r t) then push_or_clear s ?c else ?c)"
    by (simp add: c'_def plan_slot_def Let_def case_prod_unfold)
  have step: "local_step s c ?c" using assms by (intro local_step_set_job) simp_all
  have at: "job_at ?c s = ?r" using assms(2) by (simp add: job_at_set_job)
  have "arrays_wf ?c" using assms(1) by simp
  note p = push_or_clear_spec [OF this, of s]
  show "local_step s c c'" unfolding c' using local_step_trans [OF step p(1)] step by simp
  show "slot_due c' s"
    using p(2) at live assms(2) computeNextForJob_fst [of date r t] by (auto simp: c' slot_due_def)
  show "job_at c' s = ?r \<or> job_at c' s = ?r\<lparr>jr_hasNext := False\<rparr>" using p(3) at by (auto simp: c')
  show "due_set c' \<subseteq> insert (due_entry s ?r) (due_set c)"
    "\<not> fst (computeNextForJob date r t) \<Longrightarrow> due_set c' = due_set c"
    "pend_set c' = pend_set c" using p(4,5) at by (auto simp: c')
qed

lemma plan_slot_inv:
  assumes "frame_inv c" "others_ok s c" "s < job_count c" "jr_id r = jr_id (job_at c s)"
    "jr_occupied r = jr_occupied (job_at c s)" "jr_generation r = jr_generation (job_at c s)"
    and live: "jr_occupied r" "\<not> jr_canceled r"
    and flags: "slot_flags r" and pend: "jr_pendingSchedule r \<longrightarrow> s \<in> pend_set c"
  shows "core_inv (plan_slot date s r t c)"
proof -
  let ?c' = "plan_slot date s r t c"
  have "arrays_wf c" using assms(1) by (simp add: frame_inv_def)
  note p = plan_slot_local [OF this assms(3-6) live, of date t]
  have "slot_flags (job_at ?c' s)"
    using p(3) computeNextForJob_flags [OF flags live(1), of date t] slot_flags_hasNext by metis
  moreover have "jr_pendingSchedule (job_at ?c' s) = jr_pendingSchedule r" using p(3) by auto
  ultimately have "slot_ok ?c' s" using p(2,6) pend by (simp add: slot_ok_def slot_pend_def)
  then show ?thesis using p(1) assms(1,2) by (auto intro: local_step_core_inv)
qed

lemma drain_one_inv:
  assumes "frame_inv c" "others_ok s c" "s < job_count c \<Longrightarrow> slot_flags (job_at c s)"
  shows "core_inv (drain_one date s c)"
proof (cases "s < job_count c")
  case True
  let ?r = "(job_at c s)\<lparr>jr_pendingSchedule := False\<rparr>"
  have flags: "slot_flags ?r" "slot_flags (?r\<lparr>jr_hasNext := False\<rparr>)"
    using assms(3) [OF True] by (auto simp: slot_flags_def)
  show ?thesis
  proof (cases "\<not> jr_occupied ?r \<or> jr_canceled ?r \<or> jr_paused ?r \<or> jr_runningCount ?r > 0")
    case idle: True
    then have "drain_one date s c = set_job s (?r\<lparr>jr_hasNext := False\<rparr>) c"
      using True by (simp add: drain_one_def Let_def)
    moreover have "local_step s c (set_job s (?r\<lparr>jr_hasNext := False\<rparr>) c)"
      by (rule local_step_set_job) simp_all
    ultimately show ?thesis
      using assms(1,2) flags True
      by (auto intro!: local_step_core_inv simp: slot_ok_def slot_due_def slot_pend_def job_at_set_job)
  next
    case False
    then have "drain_one date s c = plan_slot date s ?r (jr_scheduleFromUtc ?r) c"
      using True by (simp add: drain_one_def Let_def)
    then show ?thesis using assms(1,2) flags(1) True False by (auto intro!: plan_slot_inv)
  qed
qed (use assms in \<open>auto simp: drain_one_def intro: core_invI [of c s]\<close>)

lemma pend_pop:
  assumes "core_inv c" "\<not> arr_empty (core_pendingSchedules c)"
  defines "s \<equiv> arr_at (core_pendingSchedules c) (arr_size (core_pendingSchedules c) - 1)"
  shows "frame_inv (c\<lparr>core_pendingSchedules := popBack (core_pendingSchedules c)\<rparr>)"
    "others_ok s (c\<lparr>core_pendingSchedules := popBack (core_pendingSchedules c)\<rparr>)"
proof -
  let ?p = "core_pendingSchedules c"
  have ne: "arr_data ?p \<noteq> []" using assms(2) by (simp add: arr_defs)
  then have "set (arr_data ?p) = insert s (set (butlast (arr_data ?p)))"
    using append_butlast_last_id [OF ne] by (metis arr_at_def arr_size_def last_conv_nth ne s_def set_append
        list.set(1) list.set(2) Un_insert_right sup_bot.right_neutral)
  moreover have "arr_wf (popBack ?p)"
    using assms(1) by (auto simp: core_inv_def frame_inv_def arrays_wf_def intro: popBack_wf)
  ultimately show "frame_inv (c\<lparr>core_pendingSchedules := popBack ?p\<rparr>)"
    "others_ok s (c\<lparr>core_pendingSchedules := popBack ?p\<rparr>)"
    using assms(1)
    by (auto simp: core_inv_def frame_inv_def arrays_wf_def index_inv_def free_inv_def ids_inv_def
        others_ok_def slot_ok_def slot_due_def slot_pend_def due_set_def pend_set_def)
qed

lemma drain_loop_inv: "core_inv c \<Longrightarrow> core_inv (drain_loop date c)"
proof (induction date c rule: drain_loop.induct)
  case (1 date c)
  show ?case
  proof (cases "arr_empty (core_pendingSchedules c)")
    case False
    let ?s = "arr_at (core_pendingSchedules c) (arr_size (core_pendingSchedules c) - 1)"
    let ?c = "c\<lparr>core_pendingSchedules := popBack (core_pendingSchedules c)\<rparr>"
    have "core_inv (drain_one date ?s ?c)"
      using pend_pop [OF 1(2) False] 1(2) by (intro drain_one_inv) (auto simp: core_inv_def slot_ok_def)
    then have "core_inv (drain_loop date (drain_one date ?s ?c))" by (rule 1(1) [OF False refl refl])
    then show ?thesis using False by (subst drain_loop.simps) (simp add: Let_def)
  qed (use 1(2) in \<open>simp add: drain_loop.simps\<close>)
qed

lemma drainPendingSchedules_inv [inv_intros]:
  "core_inv c \<Longrightarrow> core_inv (drainPendingSchedules date t c)"
  by (simp add: drainPendingSchedules_def drain_loop_inv)

text \<open>Pruning only drops entries that no live record stands behind.\<close>

lemma validate_due_entry:
  assumes "slot_flags (job_at c s)" "jr_hasNext (job_at c s)" "s < job_count c"
  shows "validateDueEntry c (due_entry s (job_at c s))"
  using assms by (auto simp: validateDueEntry_def due_entry_def slot_flags_def Let_def)

lemma prune_pruned:
  "dq.pruned (validateDueEntry c) (core_dueHeap c) (core_dueHeap (pruneInvalidDueEntries c)) \<and>
   pruneInvalidDueEntries c = c\<lparr>core_dueHeap := core_dueHeap (pruneInvalidDueEntries c)\<rparr> \<and>
   (dueEmpty (core_dueHeap (pruneInvalidDueEntries c)) \<or>
    validateDueEntry c (dueTop (core_dueHeap (pruneInvalidDueEntries c))))"
proof (induction c rule: pruneInvalidDueEntries.induct)
  case (1 c)
  let ?c = "c\<lparr>core_dueHeap := snd (duePop (core_dueHeap c))\<rparr>"
  show ?case
  proof (cases "\<not> dueEmpty (core_dueHeap c) \<and> \<not> validateDueEntry c (dueTop (core_dueHeap c))")
    case True
    then have e: "pruneInvalidDueEntries c = pruneInvalidDueEntries ?c"
      by (subst pruneInvalidDueEntries.simps) simp
    have v: "validateDueEntry ?c e = validateDueEntry c e" for e
      by (simp add: validateDueEntry_def)
    have IH: "dq.pruned (validateDueEntry c) (core_dueHeap ?c) (core_dueHeap (pruneInvalidDueEntries ?c))"
      "pruneInvalidDueEntries ?c = ?c\<lparr>core_dueHeap := core_dueHeap (pruneInvalidDueEntries ?c)\<rparr>"
      "dueEmpty (core_dueHeap (pruneInvalidDueEntries ?c)) \<or>
       validateDueEntry c (dueTop (core_dueHeap (pruneInvalidDueEntries ?c)))"
      using 1 [OF True] v by (auto simp: v)
    have "dq.pruned (validateDueEntry c) (core_dueHeap c) (core_dueHeap (pruneInvalidDueEntries c))"
      using True IH(1) e by (auto intro: dq.pruned.drop)
    moreover have "pruneInvalidDueEntries c = c\<lparr>core_dueHeap := core_dueHeap (pruneInvalidDueEntries c)\<rparr>"
      using IH(2) unfolding e by simp
    ultimately show ?thesis using IH e by simp
  next
    case False
    then have "pruneInvalidDueEntries c = c" by (subst pruneInvalidDueEntries.simps) auto
    then show ?thesis using False by (auto intro: dq.pruned.stop)
  qed
qed

lemma frame_inv_dueHeap:
  "frame_inv c \<Longrightarrow> due_wf q \<Longrightarrow> frame_inv (c\<lparr>core_dueHeap := q\<rparr>)"
  by (simp add: frame_inv_def arrays_wf_def index_inv_def free_inv_def ids_inv_def)

lemma slot_ok_dueHeap:
  "slot_ok (c\<lparr>core_dueHeap := q\<rparr>) s \<longleftrightarrow> slot_flags (job_at c s) \<and> slot_pend c s \<and>
     (jr_hasNext (job_at c s) \<longrightarrow> due_entry s (job_at c s) \<in> set (arr_data q))"
  by (auto simp: slot_ok_def slot_due_def slot_pend_def due_set_def pend_set_def)

lemma pruneInvalidDueEntries_inv [inv_intros]:
  assumes "core_inv c"
  shows "core_inv (pruneInvalidDueEntries c)"
proof -
  let ?q = "core_dueHeap (pruneInvalidDueEntries c)"
  have p: "dq.pruned (validateDueEntry c) (core_dueHeap c) ?q"
    and e: "pruneInvalidDueEntries c = c\<lparr>core_dueHeap := ?q\<rparr>" using prune_pruned [of c] by auto
  have wf: "due_wf (core_dueHeap c)" using core_invD(5) [OF assms] by (simp add: arrays_wf_def)
  have "slot_ok (c\<lparr>core_dueHeap := ?q\<rparr>) s" if s: "s < job_count c" for s
  proof -
    have ok: "slot_ok c s" using core_invD(3) [OF assms s] .
    then have "due_entry s (job_at c s) \<in> set (arr_data ?q)" if "jr_hasNext (job_at c s)"
      using that s dq.pruned_kept [OF p wf, of "due_entry s (job_at c s)"]
      by (auto simp: slot_ok_def slot_due_def due_set_def validate_due_entry)
    with ok show ?thesis unfolding slot_ok_dueHeap by (simp add: slot_ok_def)
  qed
  moreover have "frame_inv (c\<lparr>core_dueHeap := ?q\<rparr>)"
    using core_invD(1) [OF assms] dq.pruned_invar [OF p wf] by (rule frame_inv_dueHeap)
  ultimately show ?thesis by (subst e) (simp add: core_inv_def)
qed

text \<open>Freeing a slot.\<close>

definition retired :: "JobRecord \<Rightarrow> JobRecord" where
  "retired r = r\<lparr>jr_occupied := False, jr_canceled := False, jr_paused := False,
     jr_queuedWhileRunning := False, jr_hasNext := False, jr_pendingSchedule := False,
     jr_refreshPending := False, jr_runningCount := 0, jr_callback := makeEmptyCallback,
     jr_name := str_clear (jr_name r), jr_id := 0, jr_generation := jr_generation r + 1\<rparr>"

lemma slot_flags_retired [simp]: "slot_flags (retired r)"
  by (simp add: retired_def slot_flags_def)

lemma retired_simps [simp]: "\<not> jr_occupied (retired r)" "\<not> jr_hasNext (retired r)"
  "\<not> jr_pendingSchedule (retired r)" "jr_generation (retired r) = jr_generation r + 1"
  by (simp_all add: retired_def)

lemma occupied_id_nonzero:
  assumes "index_inv c" "s < job_count c" "jr_occupied (job_at c s)"
  shows "jr_id (job_at c s) \<noteq> 0"
proof
  assume "jr_id (job_at c s) = 0"
  then have "ix_get (core_jobIndex c) 0 = Some s" using assms by (simp add: index_inv_def)
  then show False by (simp add: ix_get_def ix_find_def)
qed

lemma ids_unique:
  assumes "index_inv c" "s < job_count c" "jr_occupied (job_at c s)" "u < job_count c"
    "jr_occupied (job_at c u)" "jr_id (job_at c u) = jr_id (job_at c s)"
  shows "u = s"
  using assms unfolding index_inv_def by (metis option.inject)

lemma retireJob_eq:
  assumes "frame_inv c" "s < job_count c" "jr_occupied (job_at c s)"
  obtains t f ok h where
    "retireJob s c = (set_job s (retired (job_at c s)) c)
       \<lparr>core_jobIndex := t, core_freeSlots := f, core_heap := h\<rparr>"
    "ix_wf t" "ix_get t = (ix_get (core_jobIndex c))(jr_id (job_at c s) := None)"
    "arr_wf f" "arr_data f = (if ok then arr_data (core_freeSlots c) @ [s] else arr_data (core_freeSlots c))"
proof -
  obtain ok f h where p: "pushBack s (core_freeSlots c) (core_heap c) = (ok, f, h)" by (metis prod_cases3)
  let ?t = "snd (ix_remove (jr_id (job_at c s)) (core_jobIndex c))"
  have wf: "ix_wf (core_jobIndex c)" "arr_wf (core_freeSlots c)"
    using assms(1) by (auto simp: frame_inv_def index_inv_def arrays_wf_def)
  have "jr_id (job_at c s) \<noteq> 0"
    using assms occupied_id_nonzero by (simp add: frame_inv_def)
  then have "retireJob s c = (set_job s (retired (job_at c s)) c)
       \<lparr>core_jobIndex := ?t, core_freeSlots := f, core_heap := h\<rparr>"
    using assms(2) p by (simp add: retireJob_def Let_def retired_def set_job_def)
  moreover have "arr_wf f" using pushBack_wf [OF p wf(2)] .
  moreover have "arr_data f = (if ok then arr_data (core_freeSlots c) @ [s] else arr_data (core_freeSlots c))"
    using p by (auto elim: pushBack_cases)
  ultimately show thesis using that ix.remove_snd [OF wf(1)] by blast
qed

lemma retireJob_inv:
  assumes "frame_inv c" "others_ok s c" "s < job_count c" "jr_occupied (job_at c s)"
  shows "core_inv (retireJob s c)"
proof -
  obtain t f ok h where e: "retireJob s c = (set_job s (retired (job_at c s)) c)
       \<lparr>core_jobIndex := t, core_freeSlots := f, core_heap := h\<rparr>" (is "_ = ?c")
    and t: "ix_wf t" "ix_get t = (ix_get (core_jobIndex c))(jr_id (job_at c s) := None)"
    and f: "arr_wf f" "arr_data f = (if ok then arr_data (core_freeSlots c) @ [s] else arr_data (core_freeSlots c))"
    using retireJob_eq [OF assms(1,3,4)] by metis
  have jobs: "job_at ?c u = (if u = s then retired (job_at c s) else job_at c u)"
    "job_count ?c = job_count c" for u
    using assms(3) by (simp_all add: job_at_def job_count_def set_job_def arr_defs)
  have sets: "due_set ?c = due_set c" "pend_set ?c = pend_set c"
    by (simp_all add: due_set_def pend_set_def)
  have idx: "index_inv c" "arrays_wf c" "free_inv c" "ids_inv c"
    using assms(1) by (auto simp: frame_inv_def)
  have "index_inv ?c"
    using idx(1) t assms(3,4) ids_unique [OF idx(1) assms(3,4)] unfolding index_inv_def jobs
    by (auto split: if_splits)
  moreover have "free_inv ?c"
    using idx(3) f(2) assms(3,4) by (auto simp: free_inv_def jobs job_at_set_job split: if_splits)
  moreover have "ids_inv ?c" using idx(4) by (auto simp: ids_inv_def jobs job_at_set_job split: if_splits)
  moreover have "arrays_wf ?c"
    using idx(2) f(1) by (auto simp: arrays_wf_def set_job_def)
  ultimately have "frame_inv ?c" by (simp add: frame_inv_def)
  moreover have "others_ok s ?c"
    using assms(2) by (auto simp: others_ok_def slot_ok_def slot_due_def slot_pend_def jobs job_at_set_job sets)
  moreover have "slot_ok ?c s"
    using assms(3) by (simp add: slot_ok_def slot_due_def slot_pend_def job_at_set_job)
  ultimately show ?thesis unfolding e by (auto intro: core_invI)
qed

lemma finalizeCanceledIfIdle_inv:
  assumes "frame_inv c" "others_ok s c"
    and "s < job_count c \<Longrightarrow> \<not> (jr_canceled (job_at c s) \<and> jr_occupied (job_at c s) \<and> jr_runningCount (job_at c s) = 0) \<Longrightarrow> slot_ok c s"
  shows "core_inv (finalizeCanceledIfIdle s c)"
  using assms by (auto simp: finalizeCanceledIfIdle_def Let_def intro: retireJob_inv core_invI [of c s])

lemma cancel_slot_inv:
  assumes "core_inv c" "s < job_count c" "jr_occupied (job_at c s)" "\<not> jr_canceled (job_at c s)"
  shows "core_inv (cancel_slot s c)"
proof -
  let ?c1 = "set_job s ((job_at c s)\<lparr>jr_canceled := True, jr_paused := False, jr_queuedWhileRunning := False\<rparr>) c"
  let ?c2 = "clearScheduling s ?c1"
  have "local_step s c ?c1" by (rule local_step_set_job) simp_all
  then have step: "local_step s c ?c2" using clearScheduling_local local_step_trans by blast
  have r: "job_at ?c2 s = (job_at c s)\<lparr>jr_canceled := True, jr_paused := False, jr_queuedWhileRunning := False,
      jr_pendingSchedule := False, jr_hasNext := False, jr_refreshPending := False\<rparr>"
    using assms(2) by (simp add: job_at_clearScheduling job_at_set_job)
  have "slot_flags (job_at c s)" using core_invD(4) [OF assms(1,2)] .
  then have "slot_ok ?c2 s" if "jr_runningCount (job_at c s) \<noteq> 0"
    using that assms(3) by (auto simp: slot_ok_def slot_due_def slot_pend_def r slot_flags_def word_gt_0)
  then show ?thesis
    using local_step_inv [OF step core_invD(1,2) [OF assms(1)]] assms(3)
    unfolding cancel_slot_def Let_def by (intro finalizeCanceledIfIdle_inv) (auto simp: r)
qed

section \<open>The operations of the interface keep the invariant\<close>

lemma findJobSlot_iff:
  assumes "core_inv c"
  shows "findJobSlot c k = Inr s \<longleftrightarrow> s < job_count c \<and> active (job_at c s) \<and> jr_id (job_at c s) = k"
proof -
  have iff: "ix_get (core_jobIndex c) k = Some u \<longleftrightarrow>
      u < job_count c \<and> jr_occupied (job_at c u) \<and> jr_id (job_at c u) = k" for u
    using core_invD(6) [OF assms] by (simp add: index_inv_def)
  show ?thesis
  proof (cases "ix_get (core_jobIndex c) k")
    case None
    then show ?thesis using iff [of s] by (simp add: findJobSlot_def active_def)
  next
    case (Some u)
    then have u: "u < job_count c" "jr_occupied (job_at c u)" "jr_id (job_at c u) = k" using iff by auto
    then have "findJobSlot c k = (if jr_canceled (job_at c u) then Inl NotFound else Inr u)"
      using Some by (simp add: findJobSlot_def Let_def)
    moreover have "s = u" if "s < job_count c" "active (job_at c s)" "jr_id (job_at c s) = k"
      using that iff [of s] Some by (simp add: active_def)
    ultimately show ?thesis using u by (auto simp: active_def)
  qed
qed

lemma findJobSlot_Inl: "findJobSlot c k = Inl e \<Longrightarrow> e = NotFound"
  by (auto simp: findJobSlot_def Let_def split: option.splits if_splits)

lemma cancelJob_inv [inv_intros]: "core_inv c \<Longrightarrow> core_inv (snd (cancelJob k c))"
  using findJobSlot_iff [of c k] cancel_slot_inv [of c]
  by (auto simp: cancelJob_def active_def split: sum.splits)

lemma pauseJob_inv [inv_intros]:
  assumes "core_inv c"
  shows "core_inv (snd (pauseJob k c))"
proof (cases "findJobSlot c k")
  case (Inr s)
  then have s: "s < job_count c" "active (job_at c s)" using findJobSlot_iff [OF assms] by auto
  let ?c1 = "set_job s ((job_at c s)\<lparr>jr_paused := True, jr_queuedWhileRunning := False\<rparr>) c"
  have "local_step s c ?c1" by (rule local_step_set_job) simp_all
  then have step: "local_step s c (clearScheduling s ?c1)" using clearScheduling_local local_step_trans by blast
  have "slot_ok (clearScheduling s ?c1) s"
    using core_invD(4) [OF assms s(1)] s
    by (auto simp: slot_ok_def slot_due_def slot_pend_def job_at_clearScheduling job_at_set_job
        slot_flags_def active_def)
  then show ?thesis
    using Inr local_step_core_inv [OF step core_invD(1,2) [OF assms]] by (simp add: pauseJob_def Let_def)
qed (use assms in \<open>simp add: pauseJob_def\<close>)

lemma resumeJob_inv [inv_intros]:
  assumes "core_inv c"
  shows "core_inv (snd (resumeJob k t c))"
proof (cases "findJobSlot c k")
  case (Inr s)
  then have s: "s < job_count c" "active (job_at c s)" using findJobSlot_iff [OF assms] by auto
  let ?c1 = "set_job s ((job_at c s)\<lparr>jr_paused := False, jr_queuedWhileRunning := False\<rparr>) c"
  have step: "local_step s c ?c1" by (rule local_step_set_job) simp_all
  have ok: "slot_ok ?c1 s"
    using core_invD(3) [OF assms s(1)] s
    by (auto simp: slot_ok_def slot_due_def slot_pend_def job_at_set_job slot_flags_def active_def
        due_entry_def)
  then have "core_inv ?c1" using local_step_core_inv [OF step core_invD(1,2) [OF assms]] by simp
  moreover have "core_inv (snd (queueScheduling s t ?c1))"
    using local_step_inv [OF step core_invD(1,2) [OF assms]] ok
    by (intro queueScheduling_inv) (auto simp: slot_ok_def)
  ultimately show ?thesis
    using Inr by (simp add: resumeJob_def Let_def case_prod_unfold)
qed (use assms in \<open>simp add: resumeJob_def\<close>)

lemma job_count_finalize [simp]: "job_count (finalizeCanceledIfIdle s c) = job_count c"
  by (simp add: finalizeCanceledIfIdle_def retireJob_def Let_def job_count_def set_job_def
      split: prod.splits)

lemma job_count_cancel_slot [simp]: "job_count (cancel_slot s c) = job_count c"
  by (simp add: cancel_slot_def Let_def clearScheduling_def)

lemma cancel_loop_inv: "core_inv c \<Longrightarrow> i + n \<le> job_count c \<Longrightarrow> core_inv (cancel_loop i n c)"
  by (induction i n c rule: cancel_loop.induct) (auto simp: Let_def cancel_slot_inv)

lemma cancelAll_inv [inv_intros]: "core_inv c \<Longrightarrow> core_inv (snd (cancelAll c))"
  by (simp add: cancelAll_def cancel_loop_inv)

lemma refresh_slot_inv:
  assumes "core_inv c" "s < job_count c"
  shows "core_inv (refresh_slot date t s c)"
proof -
  let ?r = "job_at c s"
  consider (skip) "\<not> jr_occupied ?r \<or> jr_canceled ?r \<or> jr_paused ?r \<or> one_shot ?r"
    | (running) "jr_occupied ?r" "\<not> jr_canceled ?r" "\<not> jr_paused ?r" "\<not> one_shot ?r"
        "jr_runningCount ?r > 0" "jr_overlap ?r \<noteq> AllowParallel"
    | (idle) "jr_occupied ?r" "\<not> jr_canceled ?r" "\<not> jr_paused ?r" "\<not> one_shot ?r"
        "\<not> (jr_runningCount ?r > 0 \<and> jr_overlap ?r \<noteq> AllowParallel)"
    by blast
  then show ?thesis
  proof cases
    case running
    let ?r' = "?r\<lparr>jr_pendingSchedule := False, jr_refreshPending := True, jr_queuedWhileRunning := False,
      jr_hasNext := False, jr_nextRunUtc := epochDate\<rparr>"
    have "local_step s c (set_job s ?r' c)" by (rule local_step_set_job) simp_all
    moreover have "slot_ok (set_job s ?r' c) s"
      using core_invD(4) [OF assms] assms(2) running
      by (auto simp: slot_ok_def slot_due_def slot_pend_def job_at_set_job slot_flags_def)
    ultimately show ?thesis
      using running core_invD(1,2) [OF assms(1)]
      by (auto simp: refresh_slot_def Let_def intro: local_step_core_inv)
  next
    case idle
    then have "refresh_slot date t s c = plan_slot date s (?r\<lparr>jr_pendingSchedule := False,
      jr_refreshPending := False, jr_hasNext := False, jr_nextRunUtc := epochDate\<rparr>) t c"
      by (auto simp: refresh_slot_def Let_def)
    then show ?thesis
      using idle assms(2) core_invD(1,2) [OF assms(1)] core_invD(4) [OF assms]
      by (auto intro!: plan_slot_inv simp: slot_flags_def)
  qed (use assms in \<open>auto simp: refresh_slot_def Let_def\<close>)
qed

lemma job_count_plan_slot [simp]: "job_count (plan_slot date s r t c) = job_count c"
  by (simp add: plan_slot_def push_or_clear_def Let_def case_prod_unfold)

lemma job_count_refresh_slot [simp]: "job_count (refresh_slot date t s c) = job_count c"
  by (simp add: refresh_slot_def Let_def)

lemma refresh_loop_inv:
  "core_inv c \<Longrightarrow> i + n \<le> job_count c \<Longrightarrow> core_inv (refresh_loop date t i n c)"
  by (induction date t i n c rule: refresh_loop.induct) (auto simp: refresh_slot_inv)

lemma refreshAllSchedules_inv [inv_intros]:
  "core_inv c \<Longrightarrow> core_inv (snd (refreshAllSchedules date t c))"
  by (simp add: refreshAllSchedules_def refresh_loop_inv)

subsection \<open>Adding a job\<close>

text \<open>
  The state of \<^verbatim>\<open>addJob\<close> between storing the record in slot \<open>s\<close> and registering its id: the table holds
  the record, the index and the free list do not know the slot.
\<close>

definition placed :: "nat \<Rightarrow> SchedulerCore \<Rightarrow> bool" where
  "placed s c \<longleftrightarrow> s < job_count c \<and> arrays_wf c \<and> ix_wf (core_jobIndex c) \<and>
     (\<forall>k u. ix_get (core_jobIndex c) k = Some u \<longleftrightarrow>
        u < job_count c \<and> u \<noteq> s \<and> jr_occupied (job_at c u) \<and> jr_id (job_at c u) = k) \<and>
     distinct (arr_data (core_freeSlots c)) \<and>
     (\<forall>u \<in> set (arr_data (core_freeSlots c)). u < job_count c \<and> u \<noteq> s \<and> \<not> jr_occupied (job_at c u)) \<and>
     others_ok s c \<and> core_nextId c \<noteq> 0 \<and> jr_occupied (job_at c s) \<and> jr_id (job_at c s) < core_nextId c \<and>
     (\<forall>u < job_count c. u \<noteq> s \<longrightarrow> jr_occupied (job_at c u) \<longrightarrow>
        jr_id (job_at c u) < core_nextId c \<and> jr_id (job_at c u) \<noteq> jr_id (job_at c s))"

lemma others_ok_same:
  assumes "others_ok s c" "job_count c' \<le> job_count c \<or> job_count c' = Suc s" "s < job_count c \<or> s = job_count c"
    and "\<And>u. u < job_count c' \<Longrightarrow> u \<noteq> s \<Longrightarrow> job_at c' u = job_at c u"
    and "due_set c \<subseteq> due_set c'" "pend_set c \<subseteq> pend_set c'"
  shows "others_ok s c'"
  using assms by (fastforce simp: others_ok_def slot_ok_def slot_due_def slot_pend_def)

lemma job_at_pushBack:
  assumes "pushBack r (core_jobs c) (core_heap c) = (True, js, h)"
  shows "u < job_count c \<Longrightarrow> job_at (c\<lparr>core_jobs := js\<rparr>) u = job_at c u"
    "job_at (c\<lparr>core_jobs := js\<rparr>) (job_count c) = r"
    "job_count (c\<lparr>core_jobs := js\<rparr>) = Suc (job_count c)"
  using assms by (auto simp: job_at_def job_count_def arr_defs nth_append elim!: pushBack_cases)

lemma place_job_reused:
  assumes "core_inv c" "jr_occupied r" "jr_id r < core_nextId c" "\<not> arr_empty (core_freeSlots c)"
    "\<forall>u < job_count c. jr_occupied (job_at c u) \<longrightarrow> jr_id (job_at c u) \<noteq> jr_id r"
  obtains s g c' where "place_job r c = (Some (s, Some g), c')" "placed s c'"
    "job_at c' s = r\<lparr>jr_generation := g\<rparr>" "s < job_count c" "\<not> jr_occupied (job_at c s)"
    "pend_set c' = pend_set c" "due_set c' = due_set c"
    "\<forall>u < job_count c. u \<noteq> s \<longrightarrow> job_at c' u = job_at c u" "job_count c' = job_count c"
proof -
  let ?f = "core_freeSlots c"
  define s where "s = arr_at ?f (arr_size ?f - 1)"
  have ne: "arr_data ?f \<noteq> []" using assms(4) by (simp add: arr_defs)
  have d: "arr_data ?f = butlast (arr_data ?f) @ [s]"
    using append_butlast_last_id [OF ne] by (simp add: s_def arr_defs last_conv_nth [OF ne])
  have fr: "frame_inv c" "others_ok s c" using core_invD [OF assms(1)] by auto
  then have free: "distinct (butlast (arr_data ?f) @ [s])"
    "\<forall>u \<in> set (butlast (arr_data ?f) @ [s]). u < job_count c \<and> \<not> jr_occupied (job_at c u)"
    unfolding frame_inv_def free_inv_def by (metis d)+
  let ?g = "jr_generation (job_at c s)"
  let ?c = "set_job s (r\<lparr>jr_generation := ?g\<rparr>) (c\<lparr>core_freeSlots := popBack ?f\<rparr>)"
  have at: "job_at ?c u = (if u = s then r\<lparr>jr_generation := ?g\<rparr> else job_at c u)" "job_count ?c = job_count c" for u
    using free(2) by (auto simp: job_at_def job_count_def set_job_def arr_defs)
  have e: "place_job r c = (Some (s, Some ?g), ?c)"
    using assms(4) by (simp add: place_job_def Let_def s_def job_at_def)
  have sets: "due_set ?c = due_set c" "pend_set ?c = pend_set c" by (simp_all add: due_set_def pend_set_def)
  have "arrays_wf ?c" using fr(1) by (auto simp: frame_inv_def arrays_wf_def set_job_def intro: popBack_wf)
  moreover have "others_ok s ?c"
    using fr(2) by (rule others_ok_same) (use free(2) in \<open>auto simp: at sets\<close>)
  moreover have "ix_get (core_jobIndex c) k = Some u \<longleftrightarrow>
      u < job_count c \<and> u \<noteq> s \<and> jr_occupied (job_at c u) \<and> jr_id (job_at c u) = k" for k u
    using fr(1) free(2) by (auto simp: frame_inv_def index_inv_def)
  ultimately have "placed s ?c"
    using fr(1) free assms(2,3,5) unfolding placed_def at
    by (auto simp: frame_inv_def index_inv_def ids_inv_def)
  then show thesis using that e at free(2) sets by auto
qed

lemma place_job_grown:
  assumes "core_inv c" "jr_occupied r" "jr_id r < core_nextId c" "arr_empty (core_freeSlots c)"
    "\<forall>u < job_count c. jr_occupied (job_at c u) \<longrightarrow> jr_id (job_at c u) \<noteq> jr_id r"
    and p: "pushBack r (core_jobs c) (core_heap c) = (True, js, h)"
  shows "placed (job_count c) (c\<lparr>core_jobs := js, core_heap := h\<rparr>)"
proof -
  let ?c = "c\<lparr>core_jobs := js, core_heap := h\<rparr>" and ?s = "job_count c"
  note at = job_at_pushBack [OF p]
  have fr: "frame_inv c" "others_ok ?s c" using core_invD [OF assms(1)] by auto
  have old: "u < ?s \<Longrightarrow> job_at ?c u = job_at c u" and new: "job_at ?c ?s = r"
    and cnt: "job_count ?c = Suc ?s" for u
    using at by simp_all
  have wf: "arrays_wf ?c"
    using fr(1) pushBack_wf [OF p] by (auto simp: frame_inv_def arrays_wf_def)
  have oth: "others_ok ?s ?c"
    using fr(2) by (rule others_ok_same) (auto simp: at due_set_def pend_set_def)
  have ix: "ix_get (core_jobIndex c) k = Some u \<longleftrightarrow>
      u < Suc ?s \<and> u \<noteq> ?s \<and> jr_occupied (job_at ?c u) \<and> jr_id (job_at ?c u) = k" for k u
  proof (cases "u < ?s")
    case True
    then show ?thesis using fr(1) old [OF True] by (simp add: frame_inv_def index_inv_def)
  qed (use fr(1) in \<open>auto simp: frame_inv_def index_inv_def\<close>)
  have ids: "jr_id (job_at ?c u) < core_nextId c \<and> jr_id (job_at ?c u) \<noteq> jr_id r"
    if "u < Suc ?s" "u \<noteq> ?s" "jr_occupied (job_at ?c u)" for u
  proof -
    have "u < ?s" using that by simp
    then show ?thesis using that(3) old [of u] fr(1) assms(5) by (auto simp: frame_inv_def ids_inv_def)
  qed
  have "arr_data (core_freeSlots c) = []" "ix_wf (core_jobIndex c)" "core_nextId c \<noteq> 0"
    using assms(4) fr(1) by (simp_all add: arr_defs frame_inv_def index_inv_def ids_inv_def)
  then show ?thesis
    unfolding placed_def cnt new using wf oth ix ids assms(2,3) by simp
qed

lemma register_job_placed:
  assumes "placed s c" "register_job s c = (ok, c')"
  shows "if ok then frame_inv c' \<and> others_ok s c' else placed s c'"
    and "job_at c' = job_at c" "job_count c' = job_count c" "pend_set c' = pend_set c" "due_set c' = due_set c"
proof -
  obtain t h where i: "ix_set (jr_id (job_at c s)) s (core_jobIndex c) (core_heap c) = (ok, t, h)"
    and c': "c' = c\<lparr>core_jobIndex := t, core_heap := h\<rparr>"
    using assms(2) by (auto simp: register_job_def Let_def split: prod.splits)
  have wf: "ix_wf (core_jobIndex c)" using assms(1) by (simp add: placed_def)
  have t: "ix_wf t" "ix_get t = (if ok then (ix_get (core_jobIndex c))(jr_id (job_at c s) \<mapsto> s) else ix_get (core_jobIndex c))"
    using ix.put_invar [OF wf i] ix.put_lookup [OF wf i] by auto
  show same: "job_at c' = job_at c" "job_count c' = job_count c" "pend_set c' = pend_set c" "due_set c' = due_set c"
    by (simp_all add: c' fun_eq_iff)
  have oth: "others_ok s c'" if "others_ok s c"
    using that by (simp add: others_ok_def slot_ok_def slot_due_def slot_pend_def same)
  have wf': "arrays_wf c'" if "arrays_wf c" using that by (simp add: arrays_wf_def c')
  show "if ok then frame_inv c' \<and> others_ok s c' else placed s c'"
  proof (cases ok)
    case True
    have "index_inv c'"
      using assms(1) t True unfolding index_inv_def placed_def same by (auto simp: c')
    moreover have "free_inv c'" using assms(1) by (auto simp: free_inv_def placed_def same c')
    moreover have "ids_inv c'" using assms(1) by (auto simp: ids_inv_def placed_def same c')
    ultimately show ?thesis using True oth wf' assms(1) by (auto simp: frame_inv_def placed_def)
  next
    case False
    then show ?thesis using assms(1) oth wf' t unfolding placed_def same by (simp add: c')
  qed
qed

lemma unregister_placed:
  assumes "frame_inv c" "others_ok s c" "s < job_count c" "jr_occupied (job_at c s)"
  shows "placed s (c\<lparr>core_jobIndex := snd (ix_remove (jr_id (job_at c s)) (core_jobIndex c))\<rparr>)"
    (is "placed s ?c")
proof -
  have i: "index_inv c" "free_inv c" "ids_inv c" "arrays_wf c" using assms(1) by (auto simp: frame_inv_def)
  have t: "ix_wf (core_jobIndex ?c)"
    "ix_get (core_jobIndex ?c) = (ix_get (core_jobIndex c))(jr_id (job_at c s) := None)"
    using ix.remove_snd i(1) by (auto simp: index_inv_def)
  note u = ids_unique [OF i(1) assms(3,4)]
  have "ix_get (core_jobIndex ?c) k = Some v \<longleftrightarrow>
      v < job_count c \<and> v \<noteq> s \<and> jr_occupied (job_at c v) \<and> jr_id (job_at c v) = k" for k v
    unfolding t(2) using i(1) u [of v] assms(3,4) by (auto simp: index_inv_def)
  moreover have "others_ok s ?c"
    using assms(2) by (simp add: others_ok_def slot_ok_def slot_due_def slot_pend_def)
  moreover have "arrays_wf ?c" using i(4) by (simp add: arrays_wf_def)
  moreover have "jr_id (job_at c v) < core_nextId c \<and> jr_id (job_at c v) \<noteq> jr_id (job_at c s)"
    if "v < job_count c" "v \<noteq> s" "jr_occupied (job_at c v)" for v
    using that u [of v] i(3) by (auto simp: ids_inv_def)
  ultimately show ?thesis
    using t(1) i(2,3) assms(3,4) unfolding placed_def by (auto simp: free_inv_def ids_inv_def)
qed

lemma placed_unregister:
  assumes "placed s c"
  shows "placed s (c\<lparr>core_jobIndex := snd (ix_remove (jr_id (job_at c s)) (core_jobIndex c))\<rparr>)"
    (is "placed s ?c")
proof -
  have "ix_wf (core_jobIndex c)" using assms by (simp add: placed_def)
  moreover have "ix_get (core_jobIndex c) (jr_id (job_at c s)) = None"
    using assms unfolding placed_def by (metis not_Some_eq)
  ultimately have t: "ix_wf (core_jobIndex ?c)" "ix_get (core_jobIndex ?c) = ix_get (core_jobIndex c)"
    using ix.remove_snd by (auto simp: fun_eq_iff)
  have "arrays_wf ?c = arrays_wf c" by (simp add: arrays_wf_def)
  moreover have "others_ok s ?c = others_ok s c"
    by (simp add: others_ok_def slot_ok_def slot_due_def slot_pend_def)
  ultimately show ?thesis using assms t unfolding placed_def by simp
qed

text \<open>Taking the record out again restores the invariant, whichever way the slot was found.\<close>

lemma unplace_reused:
  assumes "placed s (c\<lparr>core_jobIndex := snd (ix_remove (jr_id (job_at c s)) (core_jobIndex c))\<rparr>)" (is "placed s ?c")
  shows "core_inv (unplace_job s (Some g) c)"
proof -
  obtain ok f h where p: "pushBack s (core_freeSlots c) (core_heap c) = (ok, f, h)" by (metis prod_cases3)
  define r where "r = (newJobRecord (core_usePSRAMMetadata c))\<lparr>jr_generation := g\<rparr>"
  let ?c' = "(set_job s r ?c)\<lparr>core_freeSlots := f, core_heap := h\<rparr>"
  have e: "unplace_job s (Some g) c = ?c'"
    using p by (simp add: unplace_job_def Let_def r_def)
  have s: "s < job_count c" using assms by (simp add: placed_def)
  have r: "\<not> jr_occupied r" "slot_flags r" "\<not> jr_hasNext r" "\<not> jr_pendingSchedule r"
    by (simp_all add: r_def newJobRecord_def slot_flags_def)
  have at: "job_at ?c' u = (if u = s then r else job_at c u)" for u
    using s by (simp add: job_at_set_job)
  have f: "arr_data f = (if ok then arr_data (core_freeSlots c) @ [s] else arr_data (core_freeSlots c))"
    "arr_wf f"
    using p pushBack_wf [OF p] assms by (auto simp: placed_def arrays_wf_def elim: pushBack_cases)
  have "index_inv ?c'"
    using assms r unfolding index_inv_def placed_def at by (auto split: if_splits)
  moreover have "free_inv ?c'" using assms f r unfolding free_inv_def placed_def at by (auto split: if_splits)
  moreover have "ids_inv ?c'" using assms r unfolding ids_inv_def placed_def at by auto
  moreover have "arrays_wf ?c'" using assms f by (auto simp: placed_def arrays_wf_def set_job_def)
  moreover have "others_ok s ?c'"
    using assms by (auto simp: placed_def others_ok_def slot_ok_def slot_due_def slot_pend_def job_at_set_job)
  moreover have "slot_ok ?c' s" unfolding slot_ok_def slot_due_def slot_pend_def at using r by simp
  ultimately show ?thesis unfolding e by (intro core_invI [of _ s]) (auto simp: frame_inv_def)
qed

lemma unplace_grown:
  assumes "placed s (c\<lparr>core_jobIndex := snd (ix_remove (jr_id (job_at c s)) (core_jobIndex c))\<rparr>)" (is "placed s ?c")
    and "job_count c = Suc s"
  shows "core_inv (unplace_job s None c)"
proof -
  let ?c' = "?c\<lparr>core_jobs := popBack (core_jobs c)\<rparr>"
  have e: "unplace_job s None c = ?c'" by (simp add: unplace_job_def Let_def)
  have cnt: "job_count ?c' = s" using assms(2) by (simp add: job_count_def arr_defs)
  have at: "job_at ?c' u = job_at c u" if "u < s" for u
    using that assms(2) by (simp add: job_at_def job_count_def arr_defs nth_butlast)
  have sets: "due_set ?c' = due_set c" "pend_set ?c' = pend_set c" by (simp_all add: due_set_def pend_set_def)
  have less: "u < job_count c \<and> u \<noteq> s \<longleftrightarrow> u < s" for u using assms(2) by auto
  have "index_inv ?c'"
    unfolding index_inv_def cnt
  proof (intro conjI allI)
    show "ix_wf (core_jobIndex ?c')" using assms(1) by (simp add: placed_def)
    show "ix_get (core_jobIndex ?c') k = Some u \<longleftrightarrow> u < s \<and> jr_occupied (job_at ?c' u) \<and> jr_id (job_at ?c' u) = k" for k u
      using assms(1) at [of u] less [of u] unfolding placed_def by auto
  qed
  moreover have "free_inv ?c'"
  proof -
    have "u < s \<and> \<not> jr_occupied (job_at ?c' u)" if "u \<in> set (arr_data (core_freeSlots c))" for u
      using that assms(1) less [of u] at [of u] unfolding placed_def by auto
    then show ?thesis using assms(1) unfolding free_inv_def cnt placed_def by simp
  qed
  moreover have "ids_inv ?c'" using assms(1) at less unfolding ids_inv_def placed_def cnt by auto
  moreover have "arrays_wf ?c'" using assms(1) by (auto simp: placed_def arrays_wf_def intro: popBack_wf)
  moreover have "slot_ok ?c' u" if "u < s" for u
    using assms(1) that less [of u] at [of u] sets
    by (auto simp: placed_def others_ok_def slot_ok_def slot_due_def slot_pend_def)
  ultimately show ?thesis unfolding e core_inv_def frame_inv_def cnt by blast
qed

text \<open>The record \<^verbatim>\<open>addJob\<close> stores is well-formed whether or not its next run was computed.\<close>

lemma new_record_flags:
  assumes "r = job_record_for sched opts cb c\<lparr>jr_name := nm\<rparr> \<or>
    r = job_record_for sched opts cb c\<lparr>jr_name := nm, jr_dedicatedTask := d\<rparr>"
  shows "slot_flags r" "jr_occupied r" "jr_id r = core_nextId c" "\<not> jr_canceled r" "\<not> jr_pendingSchedule r"
  using assms by (auto simp: job_record_for_def newJobRecord_def slot_flags_def)

subsection \<open>The live jobs\<close>

text \<open>What a slot shows to the outside: its record while it is occupied.\<close>

definition occupant :: "SchedulerCore \<Rightarrow> nat \<Rightarrow> JobRecord option" where
  "occupant c u = (if u < job_count c \<and> jr_occupied (job_at c u) then Some (job_at c u) else None)"

lemma occupant_local:
  "local_step s c c' \<Longrightarrow> u \<noteq> s \<Longrightarrow> occupant c' u = occupant c u"
  by (simp add: occupant_def local_step_def)

lemma occupant_unplace:
  assumes "s < job_count c" "reused = None \<longrightarrow> job_count c = Suc s"
  shows "occupant (unplace_job s reused c) u = (if u = s then None else occupant c u)"
proof (cases reused)
  case None
  let ?c' = "unplace_job s None c"
  have c': "?c' = c\<lparr>core_jobIndex := snd (ix_remove (jr_id (job_at c s)) (core_jobIndex c)),
      core_jobs := popBack (core_jobs c)\<rparr>"
    by (simp add: unplace_job_def Let_def)
  have "job_count ?c' = s" "job_count c = Suc s"
    using assms None unfolding c' by (auto simp: job_count_def arr_defs)
  moreover have "job_at ?c' u = job_at c u" if "u < s"
    using that assms None unfolding c' by (simp add: job_at_def job_count_def arr_defs nth_butlast)
  ultimately show ?thesis using None by (auto simp: occupant_def less_Suc_eq)
next
  case (Some g)
  then show ?thesis
    using assms(1)
    by (auto simp: occupant_def unplace_job_def Let_def job_at_set_job newJobRecord_def split: prod.splits)
qed

lemma place_job_cases:
  assumes "core_inv c" "jr_occupied r" "jr_id r < core_nextId c"
    and fresh: "\<forall>u < job_count c. jr_occupied (job_at c u) \<longrightarrow> jr_id (job_at c u) \<noteq> jr_id r"
  obtains (refused) c' where "place_job r c = (None, c')" "core_inv c'" "occupant c' = occupant c"
    | (stored) s reused g c' where "place_job r c = (Some (s, reused), c')" "placed s c'"
      "job_at c' s = r\<lparr>jr_generation := g\<rparr>" "occupant c s = None"
      "\<forall>u. u \<noteq> s \<longrightarrow> occupant c' u = occupant c u" "reused = None \<longrightarrow> job_count c' = Suc s"
proof (cases "arr_empty (core_freeSlots c)")
  case False
  from place_job_reused [OF assms(1-3) False fresh] obtain s g c' where
    p: "place_job r c = (Some (s, Some g), c')" "placed s c'" "job_at c' s = r\<lparr>jr_generation := g\<rparr>"
    and o: "s < job_count c" "\<not> jr_occupied (job_at c s)"
      "\<forall>u < job_count c. u \<noteq> s \<longrightarrow> job_at c' u = job_at c u" "job_count c' = job_count c" .
  have "occupant c s = None" "\<forall>u. u \<noteq> s \<longrightarrow> occupant c' u = occupant c u"
    using o by (auto simp: occupant_def)
  then show thesis using stored [OF p] by simp
next
  case True
  obtain ok js h where p: "pushBack r (core_jobs c) (core_heap c) = (ok, js, h)" by (metis prod_cases3)
  let ?c = "c\<lparr>core_jobs := js, core_heap := h\<rparr>"
  have e: "place_job r c = (if ok then (Some (job_count c, None), ?c) else (None, ?c))"
    using True p by (simp add: place_job_def Let_def)
  show thesis
  proof (cases ok)
    case ok: True
    then have "pushBack r (core_jobs c) (core_heap c) = (True, js, h)" using p by simp
    note at = job_at_pushBack [OF this]
    have "placed (job_count c) ?c" using place_job_grown [OF assms(1-3) True fresh] p ok by simp
    moreover have "occupant ?c u = occupant c u" if "u \<noteq> job_count c" for u
      using that at by (auto simp: occupant_def less_Suc_eq)
    moreover have "job_at ?c (job_count c) = r\<lparr>jr_generation := jr_generation r\<rparr>" "job_count ?c = Suc (job_count c)"
      using at by simp_all
    ultimately show thesis
      using stored [of "job_count c" None ?c "jr_generation r"] e ok by (simp add: occupant_def)
  next
    case False
    then have js: "js = core_jobs c" using p by (auto elim: pushBack_cases)
    have c: "?c = c\<lparr>core_heap := h\<rparr>" unfolding js by simp
    have "core_inv ?c"
      using assms(1) unfolding c
      by (simp add: core_inv_def frame_inv_def arrays_wf_def index_inv_def free_inv_def ids_inv_def
          slot_ok_def slot_due_def slot_pend_def)
    moreover have "occupant ?c = occupant c" unfolding c by (simp add: occupant_def fun_eq_iff)
    ultimately show thesis using refused [of ?c] e False by simp
  qed
qed

text \<open>The part of a record that scheduling does not change.\<close>

definition job_view :: "JobRecord \<Rightarrow>
    (u32 \<times> ScheduleSpec \<times> DispatchPolicy \<times> OverlapPolicy \<times> u8) \<times> (bool \<times> bool \<times> bool \<times> u16) \<times>
    (CallbackRef \<times> SchedulerOwnedString \<times> DedicatedTaskOptions \<times> bool)" where
  "job_view r =
     ((jr_id r, jr_schedule r, jr_dispatch r, jr_overlap r, jr_executorId r),
      (jr_occupied r, jr_paused r, jr_canceled r, jr_runningCount r),
      (jr_callback r, jr_name r, jr_dedicatedTask r, jr_hasDedicatedTaskOptions r))"

lemma schedule_new_spec:
  assumes fr: "frame_inv c" "others_ok s c" and s: "s < job_count c"
    and r: "slot_flags (job_at c s)" "jr_occupied (job_at c s)" "\<not> jr_canceled (job_at c s)" "\<not> jr_pendingSchedule (job_at c s)"
    and prime: "\<not> prime \<longrightarrow> \<not> jr_hasNext (job_at c s)" "prime \<longrightarrow> \<not> jr_paused (job_at c s)"
    and new: "schedule_new prime t s c = (ok, c')"
  shows "local_step s c c'" "core_inv c'" "job_view (job_at c' s) = job_view (job_at c s)"
proof -
  have wf: "arrays_wf c" using fr(1) by (simp add: frame_inv_def)
  have pend: "slot_pend c s" using r(4) by (simp add: slot_pend_def)
  have "\<not> jr_hasNext (job_at c s) \<and> c' = c \<or> c' = push_or_clear s c \<or> c' = snd (queueScheduling s t c)"
    using prime new by (auto simp: schedule_new_def split: if_splits)
  then consider (still) "\<not> jr_hasNext (job_at c s)" "c' = c" | (primed) "c' = push_or_clear s c"
    | (queued) "c' = snd (queueScheduling s t c)" by blast
  then have "local_step s c c' \<and> core_inv c' \<and> job_view (job_at c' s) = job_view (job_at c s)"
  proof cases
    case still
    then show ?thesis
      using fr r(1) pend by (auto intro!: core_invI [of c s] simp: slot_ok_def slot_due_def)
  next
    case primed
    note p = push_or_clear_spec [OF wf, of s]
    have x: "slot_flags (job_at (push_or_clear s c) s)" "\<not> jr_pendingSchedule (job_at (push_or_clear s c) s)"
      "job_view (job_at (push_or_clear s c) s) = job_view (job_at c s)"
      using p(3) r slot_flags_hasNext [OF r(1)] by (auto simp: job_view_def)
    then have "slot_ok (push_or_clear s c) s" using p(2) [OF r(2,3) s] by (simp add: slot_ok_def slot_pend_def)
    then show ?thesis using primed local_step_core_inv [OF p(1) fr] p(1) x by simp
  next
    case queued
    from queueScheduling_local [OF wf s, of t] obtain p f q where
      "local_step s c c'" "job_at c' s = (job_at c s)
        \<lparr>jr_scheduleFromUtc := f, jr_hasNext := False, jr_pendingSchedule := p, jr_refreshPending := q\<rparr>"
      unfolding queued by metis
    then show ?thesis
      using queueScheduling_inv [OF fr r(1) pend, of t] queued by (simp add: job_view_def)
  qed
  then show "local_step s c c'" "core_inv c'" "job_view (job_at c' s) = job_view (job_at c s)" by auto
qed

text \<open>
  Installing a record either succeeds and adds exactly that record, or fails and leaves every job as
  it was.
\<close>

definition add_outcome ::
  "SchedulerCore \<Rightarrow> JobRecord \<Rightarrow> u32 SchedulerResult \<Rightarrow> SchedulerCore \<Rightarrow> bool" where
  "add_outcome c r res c' \<longleftrightarrow> core_inv c' \<and>
    (case res of
       Inr k \<Rightarrow> k = jr_id r \<and> (\<exists>s x. occupant c s = None \<and> occupant c' = (occupant c)(s \<mapsto> x) \<and>
                  job_view x = job_view r)
     | Inl e \<Rightarrow> e = NoMemory \<and> occupant c' = occupant c)"

lemma install_job_spec:
  assumes "core_inv c" "jr_id r < core_nextId c"
    and r: "slot_flags r" "jr_occupied r" "\<not> jr_canceled r" "\<not> jr_pendingSchedule r"
    and fresh: "\<forall>u < job_count c. jr_occupied (job_at c u) \<longrightarrow> jr_id (job_at c u) \<noteq> jr_id r"
    and prime: "\<not> prime \<longrightarrow> \<not> jr_hasNext r" "prime \<longrightarrow> \<not> jr_paused r"
    and res: "install_job prime t r c = (res, c')"
  shows "add_outcome c r res c'"
  using assms(1) r(2) assms(2) fresh
proof (cases rule: place_job_cases)
  case (refused c1)
  then show ?thesis using res by (auto simp: install_job_def add_outcome_def)
next
  case (stored s reused g c1)
  obtain ok c2 where reg: "register_job s c1 = (ok, c2)" by (cases "register_job s c1")
  note rp = register_job_placed [OF stored(2) reg]
  have s: "s < job_count c2" "job_at c2 s = r\<lparr>jr_generation := g\<rparr>"
    using stored(2,3) rp by (auto simp: placed_def)
  have occ: "occupant c2 = occupant c1" using rp by (auto simp: occupant_def)
  have restored: "occupant (unplace_job s reused c3) = occupant c"
    if "job_count c3 = job_count c2" "\<forall>u. u \<noteq> s \<longrightarrow> occupant c3 u = occupant c2 u" for c3
    using that occupant_unplace [of s c3 reused] s(1) rp(3) stored(4-6) occ by (auto simp: fun_eq_iff)
  show ?thesis
  proof (cases ok)
    case False
    then have "core_inv (unplace_job s reused c2)"
      using rp placed_unregister [of s c2] unplace_reused unplace_grown stored(6) by (cases reused) auto
    then show ?thesis
      using restored [of c2] res False by (auto simp: install_job_def stored(1) reg add_outcome_def)
  next
    case True
    obtain ok3 c3 where n: "schedule_new prime t s c2 = (ok3, c3)" by (cases "schedule_new prime t s c2")
    have fr: "frame_inv c2" "others_ok s c2" using rp(1) True by auto
    have base: "slot_flags (job_at c2 s)" "jr_occupied (job_at c2 s)" "\<not> jr_canceled (job_at c2 s)"
      "\<not> jr_pendingSchedule (job_at c2 s)" "\<not> prime \<longrightarrow> \<not> jr_hasNext (job_at c2 s)"
      "prime \<longrightarrow> \<not> jr_paused (job_at c2 s)"
      using r prime s(2) by (auto simp: slot_flags_def)
    note new = schedule_new_spec [OF fr s(1) base n]
    have x: "job_view (job_at c3 s) = job_view r" using new(3) s(2) by (simp add: job_view_def)
    then have xs: "jr_occupied (job_at c3 s)" "jr_id (job_at c3 s) = jr_id r" using r(2) by (auto simp: job_view_def)
    have cnt: "job_count c3 = job_count c2" using new(1) by (simp add: local_step_def)
    show ?thesis
    proof (cases ok3)
      case ok: True
      have "occupant c3 = (occupant c)(s \<mapsto> job_at c3 s)"
        using xs s(1) cnt occupant_local [OF new(1)] stored(5) occ by (auto simp: fun_eq_iff occupant_def)
      then show ?thesis
        using res True ok new(2) xs x stored(4) n
        by (auto simp: install_job_def stored(1) reg add_outcome_def intro!: exI [of _ s] exI [of _ "job_at c3 s"])
    next
      case False
      have "placed s (c3\<lparr>core_jobIndex := snd (ix_remove (jr_id (job_at c3 s)) (core_jobIndex c3))\<rparr>)"
        using local_step_inv [OF new(1) fr] xs(1) cnt s(1) by (intro unregister_placed) auto
      then have "core_inv (unplace_job s reused c3)"
        using unplace_reused unplace_grown stored(6) cnt rp(3) by (cases reused) auto
      then show ?thesis
        using restored [OF cnt] occupant_local [OF new(1)] res True False n
        by (auto simp: install_job_def stored(1) reg add_outcome_def)
    qed
  qed
qed

end
