(* ===== verification/Core_Exec.thy ===== *)
theory Core_Exec
  imports Scheduler_Dispatch
begin

text \<open>
  Evaluation of the core on concrete inputs. The collection \<open>exec\<close> lets the simplifier run the
  operations on states in normal form; \<open>sample_core\<close> and its relatives are such states, each the
  result of calls of the interface.
\<close>

named_theorems exec "equations that evaluate operations of the core on concrete states"

lemma replicate_numeral_unfold: "replicate (numeral v) x = x # replicate (pred_numeral v) x"
  by (simp add: numeral_eq_Suc)

lemmas insert_loop_numeral = insert_loop.simps(2) [where n = "pred_numeral v" for v, folded numeral_eq_Suc]
lemmas probe_loop_numeral = probe_loop.simps(2) [where n = "pred_numeral v" for v, folded numeral_eq_Suc]

declare Let_def [exec] replicate_numeral_unfold [exec] insert_loop_numeral [exec] probe_loop_numeral [exec]

text \<open>Containers.\<close>

lemmas exec_containers [exec] =
  arr_defs newArray_def pushBack_def emplaceBack_def reserve_def popBack_def schedulerAllocate_def SIZE_MAX_def
  newString_def str_clear_def str_assign_def
  newIndex_def emptyEntry_def entrySize_def nextCapacity_def ix_hash_def ix_find_def ix_get_def ix_remove_def
  insertOrAssign_def rehash_def ensureCapacityForInsert_def ix_set_def
  due_compare_def dueEmpty_def dueTop_def duePush_def duePop_def sift_up.simps sift_down.simps
  sift_candidate_def swap_at_def

text \<open>The core.\<close>

lemmas exec_core [exec] =
  newCore_def newJobRecord_def job_count_def job_at_def set_job_def clockValid_def one_shot_def
  findJobSlot_def computeNextForJob_def due_entry_def pushDue_def push_or_clear_def plan_slot_def
  queueScheduling_def clearScheduling_def drain_one_def drain_loop.simps drainPendingSchedules_def
  validateDueEntry_def retireJob_def finalizeCanceledIfIdle_def job_record_for_def place_job_def
  register_job_def unplace_job_def schedule_new_def install_job_def addJob_def cancel_slot_def
  cancelJob_def pauseJob_def resumeJob_def defaultOptions_def

section \<open>Sample jobs\<close>

definition sample_callback :: CallbackRef where
  "sample_callback = \<lparr>cb_kind = RawFunction, cb_rawFn = Some 7, cb_userData = 3, cb_owningFn = None\<rparr>"

lemma sample_callback_valid [simp]: "cb_valid sample_callback"
  by (simp add: cb_valid_def sample_callback_def)

lemma validate_onceUtc [simp]: "validate (onceUtc t)"
  by (simp add: validate_def resolvedScheduleKind_def onceUtc_def defaultSpec_def)

lemma onceUtc_simps [simp]: "sp_isOneShot (onceUtc t)" "sp_kind (onceUtc t) = OneShotUtc" "sp_onceAtUtc (onceUtc t) = t"
  by (simp_all add: onceUtc_def defaultSpec_def)

definition every_minute :: ScheduleSpec where
  "every_minute = custom sf_any sf_any sf_any sf_any sf_any"

lemma every_minute_simps [simp]: "\<not> sp_isOneShot every_minute" "sp_kind every_minute = Cron" "validate every_minute"
  by (simp_all add: every_minute_def custom_def defaultSpec_def validate_def resolvedScheduleKind_def
      fieldWithinRange_def sf_any_def sf_empty_def Let_def)

lemma every_minute_next [simp]:
  "computeNext utc_date every_minute t =
     Some \<lparr>epochSeconds = (let e = epochSeconds t in if e mod 60 = 0 then e else e - e mod 60 + 60)\<rparr>"
proof -
  let ?t = "roundToNextMinute utc_date t"
  have m: "epochSeconds ?t mod 60 = 0" by (rule roundToNextMinute_bounds(1)) simp
  note reading = utc_date_reading [OF m]
  have "cron_matches utc_date every_minute ?t"
    using reading
    by (simp add: cron_matches_def every_minute_def custom_def defaultSpec_def sf_matches_def sf_any_def
        local_minutes_def Let_def)
  moreover obtain n where "kMaxSearchMinutes = Suc n" by (cases kMaxSearchMinutes) (auto simp: kMaxSearchMinutes_def)
  ultimately have "computeNext utc_date every_minute t = Some ?t"
    using cron_loop_step [of utc_date every_minute ?t n] reading
    by (simp add: computeNext_def resolvedScheduleKind_def computeNextCronOccurrence_def)
  moreover have "?t = \<lparr>epochSeconds = epochSeconds ?t\<rparr>" by (rule DateTime_eqI) simp
  ultimately show ?thesis unfolding Let_def using roundToNextMinute_epoch [OF utc_date_laws(1), of t] by simp
qed

text \<open>One one-shot job, due at 100, added at 5; one job that runs every minute, added at 65.\<close>

definition sample_core :: SchedulerCore where
  "sample_core = snd (addJob utc_date (onceUtc \<lparr>epochSeconds = 100\<rparr>) defaultOptions sample_callback
     \<lparr>epochSeconds = 5\<rparr> (newCore 200 0 False plenty))"

definition sample_core2 :: SchedulerCore where
  "sample_core2 = snd (addJob utc_date every_minute (defaultOptions\<lparr>opt_dispatch := Async\<rparr>) sample_callback
     \<lparr>epochSeconds = 65\<rparr> sample_core)"

text \<open>A core that was given a job while the clock was not valid yet: its scheduling is pending.\<close>

definition sample_waiting :: SchedulerCore where
  "sample_waiting = snd (addJob utc_date every_minute defaultOptions sample_callback
     \<lparr>epochSeconds = 5\<rparr> (newCore 200 1000 False plenty))"

lemma sample_core_simps:
  "job_count sample_core = 1" "core_nextId sample_core = 2" "jr_id (job_at sample_core 0) = 1"
  "jr_occupied (job_at sample_core 0)" "\<not> jr_canceled (job_at sample_core 0)" "\<not> jr_paused (job_at sample_core 0)"
  "jr_hasNext (job_at sample_core 0)" "jr_nextRunUtc (job_at sample_core 0) = \<lparr>epochSeconds = 100\<rparr>"
  "jr_overlap (job_at sample_core 0) = SkipIfRunning" "jr_dispatch (job_at sample_core 0) = Inline"
  "findJobSlot sample_core 1 = Inr 0" "clockValid sample_core t = (0 \<le> epochSeconds t)"
  by (simp_all add: sample_core_def exec)

end
