(* ===== verification/Core_Spec.thy ===== *)
theory Core_Spec
  imports Core_Invariant Core_Exec
begin

text \<open>
  The job table as its users see it: a finite map from job ids to records. Every operation of the
  interface is a simple update of that map, whatever happens in the slots, the index, the free list
  and the two queues underneath.
\<close>

section \<open>The abstract map\<close>

definition job_map :: "SchedulerCore \<Rightarrow> u32 \<Rightarrow> JobRecord option" where
  "job_map c k = (case findJobSlot c k of Inl e \<Rightarrow> None | Inr s \<Rightarrow> Some (job_at c s))"

text \<open>The slots that count: occupied and not canceled.\<close>

definition live :: "SchedulerCore \<Rightarrow> nat \<Rightarrow> JobRecord option" where
  "live c u = (case occupant c u of Some r \<Rightarrow> if jr_canceled r then None else Some r | None \<Rightarrow> None)"

lemma live_iff: "live c u = Some r \<longleftrightarrow> u < job_count c \<and> active (job_at c u) \<and> r = job_at c u"
  by (auto simp: live_def occupant_def active_def)

lemma job_map_iff:
  assumes "core_inv c"
  shows "job_map c k = Some r \<longleftrightarrow> (\<exists>u. live c u = Some r \<and> jr_id r = k)"
proof -
  have "job_map c k = Some r \<longleftrightarrow> (\<exists>u. findJobSlot c k = Inr u \<and> r = job_at c u)"
    by (auto simp: job_map_def split: sum.splits)
  then show ?thesis unfolding findJobSlot_iff [OF assms] live_iff by auto
qed

lemma job_map_id: "core_inv c \<Longrightarrow> job_map c k = Some r \<Longrightarrow> jr_id r = k"
  by (auto simp: job_map_iff)

text \<open>A change of one slot is a change of one key.\<close>

lemma job_map_one_slot:
  assumes "core_inv c" "core_inv c'" "\<forall>u. u \<noteq> s \<longrightarrow> live c' u = live c u"
  shows "live c s = None \<Longrightarrow> live c' s = None \<Longrightarrow> job_map c' = job_map c"
    and "live c s = None \<Longrightarrow> live c' s = Some r' \<Longrightarrow> job_map c' = (job_map c)(jr_id r' \<mapsto> r')"
    and "live c s = Some r \<Longrightarrow> live c' s = None \<Longrightarrow> job_map c' = (job_map c)(jr_id r := None)"
    and "live c s = Some r \<Longrightarrow> live c' s = Some r' \<Longrightarrow> jr_id r' = jr_id r \<Longrightarrow>
      job_map c' = (job_map c)(jr_id r \<mapsto> r')"
proof -
  have eqI: "f = g" if "\<And>k x. f k = Some x \<longleftrightarrow> g k = Some x" for f g :: "u32 \<Rightarrow> JobRecord option"
    using that by (metis ext not_None_eq)
  have uniq: "u = v" if "live d u = Some x" "live d v = Some y" "jr_id x = jr_id y" "core_inv d" for d u v x y
    using that ids_unique [OF core_invD(6) [OF that(4)], of v u] by (auto simp: live_iff active_def)
  define rest where "rest k x \<longleftrightarrow> (\<exists>u. u \<noteq> s \<and> live c u = Some x \<and> jr_id x = k)" for k x
  have m: "job_map c k = Some x \<longleftrightarrow> live c s = Some x \<and> jr_id x = k \<or> rest k x" for k x
    unfolding job_map_iff [OF assms(1)] rest_def by metis
  have m': "job_map c' k = Some x \<longleftrightarrow> live c' s = Some x \<and> jr_id x = k \<or> rest k x" for k x
    unfolding job_map_iff [OF assms(2)] rest_def using assms(3) by metis
  have rest: "\<not> rest (jr_id y) x" if "live c s = Some y" for x y
    using that uniq [OF _ that _ assms(1)] unfolding rest_def by metis
  have rest': "\<not> rest (jr_id y) x" if "live c' s = Some y" for x y
    using that uniq [OF _ that _ assms(2)] assms(3) unfolding rest_def by metis
  show "job_map c' = job_map c" if "live c s = None" "live c' s = None"
    by (rule eqI) (simp add: m m' that)
  show "job_map c' = (job_map c)(jr_id r' \<mapsto> r')" if n: "live c s = None" "live c' s = Some r'"
    by (rule eqI) (use rest' [OF n(2)] in \<open>auto simp: m m' n\<close>)
  show "job_map c' = (job_map c)(jr_id r := None)" if n: "live c s = Some r" "live c' s = None"
    by (rule eqI) (use rest [OF n(1)] in \<open>auto simp: m m' n\<close>)
  show "job_map c' = (job_map c)(jr_id r \<mapsto> r')"
    if n: "live c s = Some r" "live c' s = Some r'" "jr_id r' = jr_id r"
    by (rule eqI) (use rest [OF n(1)] in \<open>auto simp: m m' n\<close>)
qed

lemma live_local: "local_step s c c' \<Longrightarrow> u \<noteq> s \<Longrightarrow> live c' u = live c u"
  by (simp add: live_def occupant_local)

section \<open>Adding a job\<close>

lemma core_inv_next_id:
  assumes "core_inv c" "core_nextId c \<noteq> - 1"
  shows "core_inv (c\<lparr>core_nextId := core_nextId c + 1, core_heap := h\<rparr>)"
    "\<forall>u < job_count c. jr_occupied (job_at c u) \<longrightarrow> jr_id (job_at c u) \<noteq> core_nextId c"
    "core_nextId c < core_nextId c + 1"
proof -
  have ids: "ids_inv c" using assms(1) by (simp add: core_inv_def frame_inv_def)
  show less: "core_nextId c < core_nextId c + 1"
    using assms(2) by (metis inc_less_eq_self_iff_eq not_le)
  have "core_nextId c + 1 \<noteq> 0" using assms(2) by (metis eq_neg_iff_add_eq_0)
  then show "core_inv (c\<lparr>core_nextId := core_nextId c + 1, core_heap := h\<rparr>)"
    using assms(1) less
    by (auto simp: core_inv_def frame_inv_def arrays_wf_def index_inv_def free_inv_def ids_inv_def
        slot_ok_def slot_due_def slot_pend_def)
  show "\<forall>u < job_count c. jr_occupied (job_at c u) \<longrightarrow> jr_id (job_at c u) \<noteq> core_nextId c"
    using ids by (auto simp: ids_inv_def)
qed

text \<open>The record a successful \<^verbatim>\<open>addJob\<close> leaves in the table, up to its planned run.\<close>

definition added_record ::
  "ScheduleSpec \<Rightarrow> JobOptions \<Rightarrow> CallbackRef \<Rightarrow> SchedulerCore \<Rightarrow> SchedulerOwnedString \<Rightarrow> JobRecord" where
  "added_record schedule options callback c nm =
     (let r = (job_record_for schedule options callback c)\<lparr>jr_name := nm\<rparr>
      in case opt_dedicatedTask options of Some d \<Rightarrow> r\<lparr>jr_dedicatedTask := d\<rparr> | None \<Rightarrow> r)"

lemma added_record_simps [simp]:
  "jr_id (added_record sched opts cb c nm) = core_nextId c" "jr_occupied (added_record sched opts cb c nm)"
  "\<not> jr_canceled (added_record sched opts cb c nm)" "\<not> jr_pendingSchedule (added_record sched opts cb c nm)"
  "\<not> jr_hasNext (added_record sched opts cb c nm)"
  "jr_paused (added_record sched opts cb c nm) = opt_startPaused opts"
  "jr_name (added_record sched opts cb c nm) = nm" "jr_schedule (added_record sched opts cb c nm) = sched"
  "jr_callback (added_record sched opts cb c nm) = cb"
  "slot_flags (added_record sched opts cb c nm)"
  by (auto simp: added_record_def Let_def job_record_for_def newJobRecord_def slot_flags_def split: option.splits)

lemma addJob_install:
  fixes now :: DateTime
  assumes "cb_valid cb" "validate sched"
    and "str_assign (opt_name opts) (newString (core_usePSRAMMetadata c)) (core_heap c) = (True, nm, h)"
  defines "prime \<equiv> \<not> opt_startPaused opts \<and> clockValid c now"
  shows "addJob date sched opts cb now c =
    install_job prime now
      (if prime then snd (computeNextForJob date (added_record sched opts cb c nm) now)
       else added_record sched opts cb c nm)
      (c\<lparr>core_nextId := core_nextId c + 1, core_heap := h\<rparr>)"
proof -
  have "jr_name (job_record_for sched opts cb c) = newString (core_usePSRAMMetadata c)"
    by (simp add: job_record_for_def newJobRecord_def)
  moreover have "clockValid (c\<lparr>core_nextId := core_nextId c + 1, core_heap := h\<rparr>) now = clockValid c now"
    by (simp add: clockValid_def)
  moreover have "jr_paused (case opt_dedicatedTask opts of
      None \<Rightarrow> job_record_for sched opts cb c\<lparr>jr_name := nm\<rparr>
    | Some d \<Rightarrow> job_record_for sched opts cb c\<lparr>jr_name := nm, jr_dedicatedTask := d\<rparr>) = opt_startPaused opts"
    by (simp add: job_record_for_def split: option.splits)
  ultimately show ?thesis
    using assms(1-3) by (simp add: addJob_def Let_def added_record_def prime_def)
qed

lemma addJob_outcome:
  assumes "core_inv c" "core_nextId c \<noteq> - 1" "cb_valid cb" "validate sched"
    and a: "str_assign (opt_name opts) (newString (core_usePSRAMMetadata c)) (core_heap c) = (True, nm, h)"
    and res: "addJob date sched opts cb now c = (res, c')"
  shows "add_outcome c (added_record sched opts cb c nm) res c'"
proof -
  let ?r = "added_record sched opts cb c nm"
  let ?c = "c\<lparr>core_nextId := core_nextId c + 1, core_heap := h\<rparr>"
  define prime where "prime \<longleftrightarrow> \<not> opt_startPaused opts \<and> clockValid c now"
  define r where "r = (if prime then snd (computeNextForJob date ?r now) else ?r)"
  have inst: "install_job prime now r ?c = (res, c')"
    using addJob_install [OF assms(3,4) a] res by (simp add: prime_def r_def)
  have flags: "slot_flags r" using computeNextForJob_flags [of ?r] by (simp add: r_def)
  have v: "job_view r = job_view ?r" unfolding job_view_def r_def
    by (auto simp: computeNextForJob_def Let_def split: option.splits)
  have r: "jr_id r = core_nextId c" "jr_occupied r" "\<not> jr_canceled r" "\<not> jr_pendingSchedule r"
    "\<not> prime \<longrightarrow> \<not> jr_hasNext r" "prime \<longrightarrow> \<not> jr_paused r"
    by (auto simp: r_def prime_def)
  have "occupant ?c = occupant c" by (auto simp: occupant_def)
  moreover have "add_outcome ?c r res c'"
    using core_inv_next_id(1) [OF assms(1,2), of h] core_inv_next_id(2,3) [OF assms(1,2)] r flags inst
    by (intro install_job_spec [where prime = prime]) auto
  ultimately show ?thesis using v r(1) by (auto simp: add_outcome_def split: sum.splits)
qed

text \<open>
  C1: adding a job is all or nothing. With a valid callback and schedule (and ids left), \<^verbatim>\<open>addJob\<close> either
  returns the next id, which was free, and from then on that id is bound to exactly the job that was
  described while every other job is untouched; or it reports \<^verbatim>\<open>NoMemory\<close> and no job has changed,
  whichever allocation failed.
\<close>

theorem addJob_all_or_nothing:
  assumes "core_inv c" "core_nextId c \<noteq> - 1" "cb_valid cb" "validate sched"
    and "addJob date sched opts cb now c = (res, c')"
  shows "case res of
      Inr k \<Rightarrow> k = core_nextId c \<and> job_map c k = None \<and>
        (\<exists>r nm. job_map c' = (job_map c)(k \<mapsto> r) \<and> job_view r = job_view (added_record sched opts cb c nm) \<and>
          str_view nm = (case opt_name opts of None \<Rightarrow> None | Some t \<Rightarrow> if t = [] then None else Some t))
    | Inl e \<Rightarrow> e = NoMemory \<and> job_map c' = job_map c"
proof -
  obtain ok nm h where a: "str_assign (opt_name opts) (newString (core_usePSRAMMetadata c)) (core_heap c) = (ok, nm, h)"
    by (metis prod_cases3)
  show ?thesis
  proof (cases ok)
    case False
    then have "res = Inl NoMemory" "c' = c\<lparr>core_nextId := core_nextId c + 1, core_heap := h\<rparr>"
      using assms(3-5) a by (auto simp: addJob_def Let_def job_record_for_def newJobRecord_def)
    then have "findJobSlot c' k = findJobSlot c k" "job_at c' = job_at c" for k
      by (auto simp: findJobSlot_def fun_eq_iff split: option.splits)
    then show ?thesis using \<open>res = Inl NoMemory\<close> by (simp add: job_map_def fun_eq_iff split: sum.splits)
  next
    case True
    have out: "add_outcome c (added_record sched opts cb c nm) res c'"
      using addJob_outcome [OF assms(1-4) _ assms(5)] a True by simp
    then have inv': "core_inv c'" by (simp add: add_outcome_def)
    show ?thesis
    proof (cases res)
      case (Inl e)
      then have "occupant c' = occupant c" "e = NoMemory" using out by (auto simp: add_outcome_def)
      moreover have "job_map c' = job_map c"
        using job_map_one_slot(1) [OF assms(1) inv', of "job_count c + job_count c'"] calculation(1)
        by (auto simp: live_def occupant_def split: option.splits)
      ultimately show ?thesis using Inl by simp
    next
      case (Inr k)
      then obtain s x where x: "k = core_nextId c" "occupant c s = None" "occupant c' = (occupant c)(s \<mapsto> x)"
        "job_view x = job_view (added_record sched opts cb c nm)"
        using out by (auto simp: add_outcome_def)
      then have xs: "jr_id x = k" "\<not> jr_canceled x" by (auto simp: job_view_def)
      have "job_map c' = (job_map c)(jr_id x \<mapsto> x)"
        using x xs by (intro job_map_one_slot(2) [OF assms(1) inv', of s]) (auto simp: live_def)
      moreover have "job_map c k = None"
        using core_inv_next_id(2) [OF assms(1,2)] x(1) job_map_iff [OF assms(1), of k]
        by (metis (no_types) active_def live_iff not_None_eq)
      moreover have "str_view nm = (case opt_name opts of None \<Rightarrow> None | Some t \<Rightarrow> if t = [] then None else Some t)"
        using a True by (auto dest: str_assign_view)
      ultimately show ?thesis using Inr x xs by auto
    qed
  qed
qed

lemma newCore_simps [simp]: "core_nextId (newCore sz mn ps h) = 1" "job_count (newCore sz mn ps h) = 0"
  "core_jobIndex (newCore sz mn ps h) = newIndex ps"
  by (simp_all add: newCore_def job_count_def arr_defs)

lemma job_map_newCore [simp]: "job_map (newCore sz mn ps h) = Map.empty"
  by (simp add: job_map_def findJobSlot_def ix_get_def ix_find_def newIndex_def fun_eq_iff)

theorem addJob_all_or_nothing_witness:
  "case fst (addJob utc_date (onceUtc epochDate) defaultOptions sample_callback epochDate
        (newCore 200 0 False plenty)) of
     Inr k \<Rightarrow> k = 1 \<and> dom (job_map (snd (addJob utc_date (onceUtc epochDate) defaultOptions
        sample_callback epochDate (newCore 200 0 False plenty)))) = {1}
   | Inl e \<Rightarrow> e = NoMemory"
  using addJob_all_or_nothing [of "newCore 200 0 False plenty" sample_callback "onceUtc epochDate" utc_date
      defaultOptions epochDate
      "fst (addJob utc_date (onceUtc epochDate) defaultOptions sample_callback epochDate (newCore 200 0 False plenty))"
      "snd (addJob utc_date (onceUtc epochDate) defaultOptions sample_callback epochDate (newCore 200 0 False plenty))"]
    newCore_inv [of 200 0 False plenty]
  by (auto split: sum.splits if_splits)

text \<open>The invariant across \<^verbatim>\<open>addJob\<close>, errors included.\<close>

lemma addJob_inv [inv_intros]:
  assumes "core_inv c" "core_nextId c \<noteq> - 1"
  shows "core_inv (snd (addJob date sched opts cb now c))"
proof (cases "cb_valid cb \<and> validate sched")
  case True
  obtain ok nm h where a: "str_assign (opt_name opts) (newString (core_usePSRAMMetadata c)) (core_heap c) = (ok, nm, h)"
    by (metis prod_cases3)
  obtain res c' where r: "addJob date sched opts cb now c = (res, c')" by (metis surj_pair)
  show ?thesis
  proof (cases ok)
    case False
    then have "c' = c\<lparr>core_nextId := core_nextId c + 1, core_heap := h\<rparr>"
      using True a r by (auto simp: addJob_def Let_def job_record_for_def newJobRecord_def)
    then show ?thesis using core_inv_next_id(1) [OF assms] r by simp
  next
    case ok: True
    then show ?thesis
      using addJob_outcome [OF assms _ _ _ r] a True by (simp add: r add_outcome_def)
  qed
qed (use assms(1) in \<open>auto simp: addJob_def\<close>)

lemma sample_core_inv: "core_inv sample_core"
  unfolding sample_core_def by (rule addJob_inv [OF newCore_inv]) simp

lemma sample_core_map: "job_map sample_core 1 = Some (job_at sample_core 0)"
  by (simp add: job_map_def sample_core_simps)

section \<open>Canceling, pausing and resuming\<close>

lemma findJobSlot_None:
  assumes "core_inv c"
  shows "findJobSlot c k = Inl NotFound \<longleftrightarrow> job_map c k = None"
  by (cases "findJobSlot c k") (auto simp: job_map_def dest: findJobSlot_Inl)

lemma occupant_retire:
  assumes "frame_inv c" "s < job_count c" "jr_occupied (job_at c s)"
  shows "occupant (retireJob s c) u = (if u = s then None else occupant c u)"
proof -
  from retireJob_eq [OF assms] obtain t f h where
    e: "retireJob s c = (set_job s (retired (job_at c s)) c)
       \<lparr>core_jobIndex := t, core_freeSlots := f, core_heap := h\<rparr>" by metis
  show ?thesis using assms(2) unfolding e by (simp add: occupant_def job_at_set_job)
qed

lemma live_cancel_slot:
  assumes "core_inv c" "s < job_count c" "jr_occupied (job_at c s)"
  shows "live (cancel_slot s c) u = (if u = s then None else live c u)"
proof -
  define c2 where "c2 = clearScheduling s (set_job s
    ((job_at c s)\<lparr>jr_canceled := True, jr_paused := False, jr_queuedWhileRunning := False\<rparr>) c)"
  have step: "local_step s c c2"
    unfolding c2_def by (rule local_step_trans [OF local_step_set_job clearScheduling_local]) simp_all
  have r: "jr_canceled (job_at c2 s)" "jr_occupied (job_at c2 s)" "s < job_count c2"
    using assms(2,3) step by (auto simp: c2_def job_at_clearScheduling job_at_set_job local_step_def)
  have fr: "frame_inv c2" using local_step_inv(1) [OF step core_invD(1,2) [OF assms(1)]] .
  have none: "live c2 s = None" using r by (simp add: live_def occupant_def)
  have "finalizeCanceledIfIdle s c2 = (if jr_runningCount (job_at c2 s) = 0 then retireJob s c2 else c2)"
    using r by (simp add: finalizeCanceledIfIdle_def Let_def)
  moreover have "live (retireJob s c2) u = (if u = s then None else live c2 u)"
    unfolding live_def occupant_retire [OF fr r(3,2)] by simp
  ultimately have "live (finalizeCanceledIfIdle s c2) u = (if u = s then None else live c2 u)"
    using none by (cases "u = s") simp_all
  then show ?thesis using live_local [OF step, of u] by (simp add: cancel_slot_def Let_def c2_def)
qed

text \<open>
  C6: \<^verbatim>\<open>cancelJob\<close> on an unknown id reports \<^verbatim>\<open>NotFound\<close> and changes nothing; on a known id it
  succeeds and removes exactly that job, even when an invocation of it is still running.
\<close>

theorem cancelJob_removes:
  assumes "core_inv c"
  shows "fst (cancelJob k c) = (if job_map c k = None then Inl NotFound else Inr ()) \<and>
    job_map (snd (cancelJob k c)) = (job_map c)(k := None) \<and>
    (job_map c k = None \<longrightarrow> snd (cancelJob k c) = c)"
proof (cases "findJobSlot c k")
  case (Inl e)
  then have "job_map c k = None" using findJobSlot_None [OF assms] findJobSlot_Inl by metis
  then show ?thesis using Inl findJobSlot_Inl [OF Inl] by (auto simp: cancelJob_def fun_upd_idem)
next
  case (Inr s)
  then have s: "s < job_count c" "active (job_at c s)" "jr_id (job_at c s) = k"
    using findJobSlot_iff [OF assms] by auto
  have occ: "jr_occupied (job_at c s)" "\<not> jr_canceled (job_at c s)" using s(2) by (auto simp: active_def)
  have "job_map (cancel_slot s c) = (job_map c)(jr_id (job_at c s) := None)"
    using live_cancel_slot [OF assms s(1) occ(1)] s
    by (intro job_map_one_slot(3) [OF assms cancel_slot_inv [OF assms s(1) occ]]) (auto simp: live_iff)
  moreover have "job_map c k = Some (job_at c s)" using Inr by (simp add: job_map_def)
  ultimately show ?thesis using Inr s by (simp add: cancelJob_def)
qed

theorem cancelJob_removes_witness:
  "fst (cancelJob 1 sample_core) = Inr () \<and> job_map (snd (cancelJob 1 sample_core)) 1 = None \<and>
   cancelJob 5 (newCore 200 0 False plenty) = (Inl NotFound, newCore 200 0 False plenty)"
  using cancelJob_removes [OF sample_core_inv, of 1] sample_core_map
    cancelJob_removes [OF newCore_inv [of 200 0 False plenty], of 5] by (simp add: prod_eq_iff)

text \<open>
  C35: \<^verbatim>\<open>pauseJob\<close> keeps the job and its identity, marks it paused and takes it off the schedule: it has
  no next run, no queued run and no pending scheduling request any more.
\<close>

theorem pauseJob_suspends:
  assumes "core_inv c"
  shows "case job_map c k of
      None \<Rightarrow> pauseJob k c = (Inl NotFound, c)
    | Some r \<Rightarrow> fst (pauseJob k c) = Inr () \<and>
        job_map (snd (pauseJob k c)) = (job_map c)(k \<mapsto> r\<lparr>jr_paused := True, jr_queuedWhileRunning := False,
          jr_pendingSchedule := False, jr_hasNext := False, jr_refreshPending := False\<rparr>)"
proof (cases "findJobSlot c k")
  case (Inl e)
  then show ?thesis using findJobSlot_Inl [OF Inl] by (simp add: job_map_def pauseJob_def)
next
  case (Inr s)
  then have s: "s < job_count c" "active (job_at c s)" "jr_id (job_at c s) = k"
    using findJobSlot_iff [OF assms] by auto
  define c' where "c' = clearScheduling s (set_job s
    ((job_at c s)\<lparr>jr_paused := True, jr_queuedWhileRunning := False\<rparr>) c)"
  have p: "pauseJob k c = (Inr (), c')" using Inr by (simp add: pauseJob_def Let_def c'_def)
  have step: "local_step s c c'"
    unfolding c'_def by (rule local_step_trans [OF local_step_set_job clearScheduling_local]) simp_all
  have inv': "core_inv c'" using pauseJob_inv [OF assms, of k] by (simp add: p)
  have "job_at c' s = (job_at c s)\<lparr>jr_paused := True, jr_queuedWhileRunning := False,
      jr_pendingSchedule := False, jr_hasNext := False, jr_refreshPending := False\<rparr>"
    using s by (simp add: c'_def job_at_clearScheduling job_at_set_job)
  then have l: "live c' s = Some ((job_at c s)\<lparr>jr_paused := True, jr_queuedWhileRunning := False,
      jr_pendingSchedule := False, jr_hasNext := False, jr_refreshPending := False\<rparr>)"
    using s step by (auto simp: live_iff active_def local_step_def)
  have "job_map c' = (job_map c)(jr_id (job_at c s) \<mapsto> (job_at c s)\<lparr>jr_paused := True,
      jr_queuedWhileRunning := False, jr_pendingSchedule := False, jr_hasNext := False, jr_refreshPending := False\<rparr>)"
    by (rule job_map_one_slot(4) [OF assms inv' _ _ l]) (use s live_local [OF step] in \<open>auto simp: live_iff\<close>)
  then show ?thesis using Inr s p by (simp add: job_map_def [of c])
qed

theorem pauseJob_suspends_witness:
  "fst (pauseJob 1 sample_core) = Inr () \<and>
   map_option jr_hasNext (job_map sample_core 1) = Some True \<and>
   map_option jr_hasNext (job_map (snd (pauseJob 1 sample_core)) 1) = Some False"
  using pauseJob_suspends [OF sample_core_inv, of 1] by (simp add: sample_core_map sample_core_simps)

section \<open>The whole table\<close>

lemma cancel_loop_live:
  "core_inv c \<Longrightarrow> i + n \<le> job_count c \<Longrightarrow>
   live (cancel_loop i n c) u = (if i \<le> u \<and> u < i + n then None else live c u)"
proof (induction i n c rule: cancel_loop.induct)
  case (2 i n c)
  define c1 where "c1 = (if \<not> jr_occupied (job_at c i) \<or> jr_canceled (job_at c i) then c else cancel_slot i c)"
  have i: "i < job_count c" using "2.prems" by simp
  have inv1: "core_inv c1" using "2.prems" i by (auto simp: c1_def cancel_slot_inv)
  have live1: "live c1 v = (if v = i then None else live c v)" for v
  proof (cases "\<not> jr_occupied (job_at c i) \<or> jr_canceled (job_at c i)")
    case True
    then show ?thesis by (auto simp: c1_def live_def occupant_def)
  next
    case False
    then show ?thesis using live_cancel_slot [OF "2.prems"(1) i] by (simp add: c1_def)
  qed
  have "live (cancel_loop (i + 1) n c1) u = (if i + 1 \<le> u \<and> u < i + 1 + n then None else live c1 u)"
    using "2.IH" [OF refl] inv1 "2.prems"(2) unfolding c1_def by auto
  moreover have "cancel_loop i (Suc n) c = cancel_loop (i + 1) n c1" by (simp add: c1_def Let_def)
  ultimately show ?case by (auto simp: live1)
qed auto

text \<open>After \<^verbatim>\<open>cancelAll\<close> there is no job left, whatever state each of them was in.\<close>

lemma cancelAll_empties:
  assumes "core_inv c"
  shows "job_map (snd (cancelAll c)) = Map.empty"
proof -
  have "live (snd (cancelAll c)) u = None" for u
    using cancel_loop_live [OF assms, of 0 "job_count c" u]
    by (auto simp: cancelAll_def live_def occupant_def)
  then show ?thesis using job_map_iff [OF cancelAll_inv [OF assms]] by (metis ext not_None_eq)
qed

lemma fold_count: "fold (\<lambda>r n. if P r then n + 1 else n) xs m = m + length (filter P xs)"
  by (induction xs arbitrary: m) auto

lemma fold_sum: "fold (\<lambda>r n. n + f r) xs m = m + (\<Sum>r \<leftarrow> xs. f r :: nat)"
  by (induction xs arbitrary: m) auto

lemma card_job_map:
  assumes "core_inv c"
  shows "card (dom (job_map c)) = card {u. u < job_count c \<and> active (job_at c u)}"
proof -
  let ?U = "{u. u < job_count c \<and> active (job_at c u)}"
  have "dom (job_map c) = (\<lambda>u. jr_id (job_at c u)) ` ?U"
    using job_map_iff [OF assms] by (auto simp: dom_def live_iff)
  moreover have "inj_on (\<lambda>u. jr_id (job_at c u)) ?U"
    using ids_unique [OF core_invD(6) [OF assms]] by (intro inj_onI) (auto simp: active_def)
  ultimately show ?thesis by (simp add: card_image)
qed

text \<open>
  \<^verbatim>\<open>jobCount\<close> is the number of ids that \<^verbatim>\<open>getJobInfo\<close> knows, and \<^verbatim>\<open>getJobInfo\<close> answers with
  the record of exactly the job that has the id, or \<^verbatim>\<open>NotFound\<close> with a blank answer.
\<close>

lemma queries_reflect_the_map:
  assumes "core_inv c"
  shows "jobCount c = Inr (card {k. fst (getJobInfo c k) = Inr ()}) \<and>
    getJobInfo c k = (case job_map c k of None \<Rightarrow> (Inl NotFound, emptyJobInfo)
                                        | Some r \<Rightarrow> (Inr (), info_of r))"
proof
  show info: "getJobInfo c k = (case job_map c k of None \<Rightarrow> (Inl NotFound, emptyJobInfo)
      | Some r \<Rightarrow> (Inr (), info_of r))" for k
    by (cases "findJobSlot c k") (auto simp: getJobInfo_def job_map_def dest: findJobSlot_Inl)
  have "{k. fst (getJobInfo c k) = Inr ()} = dom (job_map c)"
    by (auto simp: info split: option.splits)
  moreover have "length (filter active (arr_data (core_jobs c))) = card {u. u < job_count c \<and> active (job_at c u)}"
    by (simp add: length_filter_conv_card job_count_def job_at_def arr_defs)
  ultimately show "jobCount c = Inr (card {k. fst (getJobInfo c k) = Inr ()})"
    using card_job_map [OF assms] fold_count [of active "arr_data (core_jobs c)" 0]
    by (simp add: jobCount_def active_def [abs_def])
qed

lemma queries_reflect_the_map_witness:
  "getJobInfo sample_core 1 = (Inr (), info_of (job_at sample_core 0)) \<and>
   getJobInfo (newCore 200 0 False plenty) 1 = (Inl NotFound, emptyJobInfo)"
  using queries_reflect_the_map [OF sample_core_inv, of 1]
    queries_reflect_the_map [OF newCore_inv [of 200 0 False plenty], of 1] by (simp add: sample_core_map)

end
