(* ===== verification/Core_Dispatch.thy ===== *)
theory Core_Dispatch
  imports Core_Spec
begin

text \<open>
  Dispatching keeps the invariant of the core: \<^verbatim>\<open>dispatchOne\<close>, \<^verbatim>\<open>handleCompletion\<close>, \<^verbatim>\<open>dispatchDue\<close>
  and \<^verbatim>\<open>handleEvent\<close>. The middle of a dispatch does not satisfy the invariant at the slot it works
  on (an inline job is counted as running while its callback runs), so the lemmas about the pieces
  speak of a frame and of all other slots being in order, and of the one record that changes.
\<close>

section \<open>The pieces of a dispatch\<close>

text \<open>A record that may be handed to an executor.\<close>

definition ready :: "JobRecord \<Rightarrow> bool" where
  "ready r \<longleftrightarrow> slot_flags r \<and> jr_occupied r \<and> \<not> jr_canceled r \<and> \<not> jr_paused r \<and>
     (jr_runningCount r = 0 \<or> jr_overlap r = AllowParallel)"

lemma ready_quiet: "ready r \<Longrightarrow> \<not> jr_queuedWhileRunning r \<and> \<not> jr_refreshPending r"
  by (auto simp: ready_def slot_flags_def)

lemma retry_later_spec:
  assumes "frame_inv c" "others_ok s c" "s < job_count c" "slot_pend c s"
    "slot_flags (job_at c s)" "jr_occupied (job_at c s)" "\<not> jr_canceled (job_at c s)" "\<not> jr_paused (job_at c s)"
  shows "core_inv (retry_later date now s c)" "local_step s c (retry_later date now s c)"
    "due_set (retry_later date now s c) \<subseteq> insert
       \<lparr>due_nextEpoch = epochSeconds (addSeconds date now kRetryDelaySeconds), due_slotIndex = s,
        due_generation = jr_generation (job_at c s)\<rparr> (due_set c)"
proof -
  let ?r = "(job_at c s)\<lparr>jr_hasNext := True, jr_nextRunUtc := addSeconds date now kRetryDelaySeconds\<rparr>"
  let ?c = "set_job s ?r c"
  have step: "local_step s c ?c" by (rule local_step_set_job) simp_all
  have at: "job_at ?c s = ?r" using assms(3) by (simp add: job_at_set_job)
  have "arrays_wf ?c" using assms(1) by (simp add: frame_inv_def)
  note p = push_or_clear_spec [OF this, of s]
  have e: "retry_later date now s c = push_or_clear s ?c" by (simp add: retry_later_def)
  have fl: "slot_flags ?r" using assms(5-8) by (auto simp: slot_flags_def)
  have res: "job_at (push_or_clear s ?c) s = ?r \<or> job_at (push_or_clear s ?c) s = ?r\<lparr>jr_hasNext := False\<rparr>"
    using p(3) unfolding at .
  then have "slot_flags (job_at (push_or_clear s ?c) s)"
    by (elim disjE) (simp_all only: fl slot_flags_hasNext [OF fl])
  moreover have "jr_pendingSchedule (job_at (push_or_clear s ?c) s) = jr_pendingSchedule (job_at c s)"
    using res by (elim disjE) simp_all
  then have "slot_pend (push_or_clear s ?c) s" using p(5) assms(4) by (simp add: slot_pend_def)
  moreover have "slot_due (push_or_clear s ?c) s"
    by (rule p(2)) (use assms(3,6,7) in \<open>simp_all add: at\<close>)
  ultimately have "slot_ok (push_or_clear s ?c) s" by (simp add: slot_ok_def)
  moreover show "local_step s c (retry_later date now s c)" unfolding e using step p(1) by (rule local_step_trans)
  ultimately show "core_inv (retry_later date now s c)"
    unfolding e by (intro local_step_core_inv [OF _ assms(1,2)])
  show "due_set (retry_later date now s c) \<subseteq> insert
       \<lparr>due_nextEpoch = epochSeconds (addSeconds date now kRetryDelaySeconds), due_slotIndex = s,
        due_generation = jr_generation (job_at c s)\<rparr> (due_set c)"
    using p(4) unfolding e at by (simp add: due_entry_def)
qed

text \<open>
  Starting a run: the run is counted and the following one is planned, unless there is none. The
  inline and the asynchronous branch share these statements.
\<close>

definition started :: "ESPDate \<Rightarrow> bool \<Rightarrow> nat \<Rightarrow> SchedulerCore \<Rightarrow> SchedulerCore" where
  "started date final s c =
     (let r = (job_at c s)\<lparr>jr_runningCount := jr_runningCount (job_at c s) + 1\<rparr>
      in if final \<or> one_shot r then set_job s (r\<lparr>jr_hasNext := False\<rparr>) c
         else plan_slot date s r (addMinutes date (jr_nextRunUtc (job_at c s)) 1) (set_job s r c))"

lemma schedule_following_set_job:
  "s < job_count c \<Longrightarrow> schedule_following date d s (set_job s r c) =
     plan_slot date s r (addMinutes date d 1) (set_job s r c)"
  by (simp add: schedule_following_def job_at_set_job)

lemma started_eqs:
  "s < job_count c \<Longrightarrow> inline_start date s c = started date False s c"
  "s < job_count c \<Longrightarrow> async_started date deferred s c = started date deferred s c"
  by (simp_all add: inline_start_def async_started_def started_def Let_def schedule_following_set_job)

lemma started_spec:
  fixes date :: ESPDate and final :: bool
  assumes "arrays_wf c" "s < job_count c" "ready (job_at c s)"
  defines "c' \<equiv> started date final s c"
  shows "local_step s c c'" "slot_due c' s"
    "pend_set c' = pend_set c" "jr_pendingSchedule (job_at c' s) = jr_pendingSchedule (job_at c s)"
    "jr_runningCount (job_at c' s) = jr_runningCount (job_at c s) + 1"
    "jr_canceled (job_at c' s) = False" "jr_paused (job_at c' s) = False" "jr_occupied (job_at c' s)"
    "jr_queuedWhileRunning (job_at c' s) = False" "jr_refreshPending (job_at c' s) = False"
    "jr_overlap (job_at c' s) = jr_overlap (job_at c s)" "jr_dispatch (job_at c' s) = jr_dispatch (job_at c s)"
    "one_shot (job_at c' s) = one_shot (job_at c s)"
proof -
  let ?r = "(job_at c s)\<lparr>jr_runningCount := jr_runningCount (job_at c s) + 1\<rparr>"
  have live: "jr_occupied ?r" "\<not> jr_canceled ?r" "\<not> jr_paused ?r" "\<not> jr_queuedWhileRunning ?r" "\<not> jr_refreshPending ?r"
    using assms(3) ready_quiet [OF assms(3)] by (auto simp: ready_def)
  have step: "local_step s c (set_job s ?r c)" by (rule local_step_set_job) simp_all
  have at: "job_at (set_job s ?r c) s = ?r" using assms(2) by (simp add: job_at_set_job)
  note p = plan_slot_local [of "set_job s ?r c" s ?r date "addMinutes date (jr_nextRunUtc (job_at c s)) 1"]
  have quiet: "\<not> jr_refreshPending (snd (computeNextForJob date ?r t))" for t
    using live by (auto simp: computeNextForJob_def Let_def split: option.splits)
  show "local_step s c c'"
    using assms(1,2) live at local_step_trans [OF step p(1)]
    by (auto simp: c'_def started_def Let_def intro: local_step_set_job)
  show "slot_due c' s" "pend_set c' = pend_set c"
    using assms(1,2) live at p(2,6) by (auto simp: c'_def started_def Let_def slot_due_def job_at_set_job)
  show "jr_pendingSchedule (job_at c' s) = jr_pendingSchedule (job_at c s)"
    "jr_runningCount (job_at c' s) = jr_runningCount (job_at c s) + 1"
    "jr_canceled (job_at c' s) = False" "jr_paused (job_at c' s) = False" "jr_occupied (job_at c' s)"
    "jr_queuedWhileRunning (job_at c' s) = False" "jr_refreshPending (job_at c' s) = False"
    "jr_overlap (job_at c' s) = jr_overlap (job_at c s)" "jr_dispatch (job_at c' s) = jr_dispatch (job_at c s)"
    "one_shot (job_at c' s) = one_shot (job_at c s)"
    using assms(1,2) live at p(3) quiet by (auto simp: c'_def started_def Let_def job_at_set_job one_shot_def)
qed


text \<open>Where no queued run and no refresh wait, a completion is the idle one.\<close>

definition less_running :: "JobRecord \<Rightarrow> JobRecord" where
  "less_running r = (if jr_runningCount r > 0 then r\<lparr>jr_runningCount := jr_runningCount r - 1\<rparr> else r)"

lemma handleCompletion_quiet:
  assumes "s < job_count c" "jr_occupied (job_at c s)" "\<not> jr_canceled (job_at c s)"
    "\<not> jr_queuedWhileRunning (job_at c s)" "\<not> jr_refreshPending (job_at c s)"
  shows "handleCompletion date ex now s c e = (complete_idle now s (set_job s (less_running (job_at c s)) c), e)"
  using assms by (subst handleCompletion.simps) (simp add: Let_def less_running_def)

lemma complete_idle_inv:
  assumes "frame_inv c" "others_ok s c" "s < job_count c" "slot_ok c s" "jr_occupied (job_at c s)"
    "\<not> jr_canceled (job_at c s)"
  shows "core_inv (complete_idle now s c)"
proof -
  define c1 where "c1 = (if jr_runningCount (job_at c s) = 0 \<and> \<not> jr_paused (job_at c s) \<and>
      \<not> jr_hasNext (job_at c s) \<and> \<not> one_shot (job_at c s) then snd (queueScheduling s now c) else c)"
  have "core_inv c" using assms by (auto intro: core_invI)
  moreover have "core_inv (snd (queueScheduling s now c))"
    using assms by (intro queueScheduling_inv) (auto simp: slot_ok_def)
  ultimately have inv: "core_inv c1" by (simp add: c1_def)
  have wf: "arrays_wf c" using assms(1) by (simp add: frame_inv_def)
  have "local_step s c (snd (queueScheduling s now c))"
    using queueScheduling_local [OF wf assms(3), of now] by metis
  then have step: "local_step s c c1" by (simp add: c1_def)
  have "complete_idle now s c = (if jr_runningCount (job_at c1 s) = 0 \<and> \<not> jr_hasNext (job_at c1 s) \<and>
      one_shot (job_at c1 s) then retireJob s c1 else c1)"
    unfolding complete_idle_def Let_def c1_def by (rule refl)
  moreover have "s < job_count c1" "jr_occupied (job_at c1 s)" using step assms(3,5) by (auto simp: local_step_def)
  ultimately show ?thesis using inv core_invD(1,2) [OF inv] by (simp add: retireJob_inv)
qed

lemma local_step_less_running: "local_step s c (set_job s (less_running (job_at c s)) c)"
  by (rule local_step_set_job) (simp_all add: less_running_def)

lemma less_running_slot:
  assumes "slot_due c s" "slot_pend c s" "s < job_count c" "slot_flags (less_running (job_at c s))"
  shows "slot_ok (set_job s (less_running (job_at c s)) c) s"
  using assms
  by (auto simp: slot_ok_def slot_due_def slot_pend_def job_at_set_job less_running_def due_entry_def)

lemma word_le_one: "(n :: u16) \<le> 1 \<Longrightarrow> n = 0 \<or> n = 1"
  using word_le_nat_alt [of n 1] unat_eq_0 [of n] word_unat_eq_iff [of n 1] by (simp add: le_Suc_eq)

lemma less_running_flags:
  "slot_flags r \<Longrightarrow> \<not> (jr_canceled r \<and> jr_runningCount (less_running r) = 0) \<Longrightarrow>
   \<not> (jr_refreshPending r \<and> jr_runningCount (less_running r) = 0) \<Longrightarrow>
   \<not> (jr_queuedWhileRunning r \<and> jr_runningCount (less_running r) = 0) \<Longrightarrow> slot_flags (less_running r)"
  using word_le_one [of "jr_runningCount r"]
  by (cases "jr_runningCount r = 0") (auto simp: slot_flags_def less_running_def word_gt_0)

text \<open>The end of an inline run.\<close>

lemma inline_finished_inv:
  assumes "frame_inv c" "others_ok s c" "s < job_count c" "ready (job_at c s)" "slot_pend c s"
    "jr_dispatch (job_at c s) = Inline"
  shows "core_inv (fst (handleCompletion date ex now s (started date final s c) e))"
    "snd (handleCompletion date ex now s (started date final s c) e) = e"
proof -
  let ?c = "started date final s c"
  let ?c' = "set_job s (less_running (job_at ?c s)) ?c"
  have wf: "arrays_wf c" using assms(1) by (simp add: frame_inv_def)
  note st = started_spec [OF wf assms(3,4), of date final]
  have run0: "jr_runningCount (job_at c s) = 0" using assms(4,6) by (auto simp: ready_def slot_flags_def)
  have s: "s < job_count ?c" using st(1) assms(3) by (simp add: local_step_def)
  have lr: "less_running (job_at ?c s) = (job_at ?c s)\<lparr>jr_runningCount := 0\<rparr>"
    using st(5) run0 by (simp add: less_running_def)
  have fl: "slot_flags (less_running (job_at ?c s))"
    using st(6-12) assms(4,6) unfolding lr by (auto simp: slot_flags_def ready_def)
  have "slot_pend ?c s" using st(3,4) assms(5) by (simp add: slot_pend_def)
  then have "slot_ok ?c' s" using less_running_slot [OF st(2) _ s fl] by simp
  moreover have "local_step s c ?c'" using st(1) local_step_less_running local_step_trans by blast
  ultimately have "core_inv (complete_idle now s ?c')"
    using local_step_inv [of s c ?c'] assms(1,2) s st(6,8) s
    by (intro complete_idle_inv) (auto simp: job_at_set_job less_running_def)
  then show "core_inv (fst (handleCompletion date ex now s ?c e))" "snd (handleCompletion date ex now s ?c e) = e"
    by (simp_all add: handleCompletion_quiet s st(6,8-10))
qed

lemma started_inv:
  assumes "frame_inv c" "others_ok s c" "s < job_count c" "ready (job_at c s)" "slot_pend c s"
    "jr_dispatch (job_at c s) \<noteq> Inline"
  shows "core_inv (started date final s c)"
proof -
  have wf: "arrays_wf c" using assms(1) by (simp add: frame_inv_def)
  note st = started_spec [OF wf assms(3,4), of date final]
  have "slot_flags (job_at (started date final s c) s)"
    using st(5-12) assms(4,6) by (auto simp: slot_flags_def ready_def)
  moreover have "slot_pend (started date final s c) s" using st(3,4) assms(5) by (simp add: slot_pend_def)
  ultimately have "slot_ok (started date final s c) s" using st(2) by (simp add: slot_ok_def)
  then show ?thesis using st(1) assms(1,2) by (auto intro: local_step_core_inv)
qed

lemma inline_refused_inv:
  assumes "frame_inv c" "others_ok s c" "s < job_count c" "ready (job_at c s)" "slot_pend c s"
    "jr_dispatch (job_at c s) = Inline"
  shows "core_inv (retry_later date now s (stop_running s (started date final s c)))"
proof -
  let ?c = "started date final s c"
  let ?c' = "stop_running s ?c"
  have wf: "arrays_wf c" using assms(1) by (simp add: frame_inv_def)
  note st = started_spec [OF wf assms(3,4), of date final]
  have run0: "jr_runningCount (job_at c s) = 0" using assms(4,6) by (auto simp: ready_def slot_flags_def)
  have s: "s < job_count ?c" using st(1) assms(3) by (simp add: local_step_def)
  have at: "job_at ?c' s = (job_at ?c s)\<lparr>jr_runningCount := 0\<rparr>"
    using st(5) run0 s by (simp add: stop_running_def job_at_set_job)
  have "local_step s ?c ?c'" unfolding stop_running_def by (rule local_step_set_job) simp_all
  then have step: "local_step s c ?c'" using st(1) local_step_trans by blast
  have "slot_flags (job_at ?c' s)" using st(6-12) assms(4,6) unfolding at by (auto simp: slot_flags_def ready_def)
  moreover have "slot_pend ?c' s"
    using st(3,4) assms(5) at by (simp add: slot_pend_def) (simp add: stop_running_def)
  ultimately show ?thesis
    using local_step_inv [OF step assms(1,2)] s st at by (intro retry_later_spec(1)) (auto simp: stop_running_def)
qed

lemma dispatchOne_inv:
  assumes "frame_inv c" "others_ok s c" "slot_pend c s"
    and "s < job_count c \<Longrightarrow> jr_occupied (job_at c s) \<and> \<not> jr_canceled (job_at c s) \<and> \<not> jr_paused (job_at c s)
          \<Longrightarrow> ready (job_at c s)"
    and "s < job_count c \<Longrightarrow> \<not> (jr_occupied (job_at c s) \<and> \<not> jr_canceled (job_at c s) \<and> \<not> jr_paused (job_at c s))
          \<Longrightarrow> slot_ok c s"
  shows "core_inv (fst (dispatchOne date ex now s deferred c e))"
proof (cases "s < job_count c \<and> jr_occupied (job_at c s) \<and> \<not> jr_canceled (job_at c s) \<and> \<not> jr_paused (job_at c s)")
  case False
  then have "fst (dispatchOne date ex now s deferred c e) = c" by (subst dispatchOne.simps) auto
  then show ?thesis using False assms(1,2,5) by (auto intro: core_invI)
next
  case True
  then have s: "s < job_count c" and r: "ready (job_at c s)" using assms(4) by auto
  note ctx = assms(1,2) s r assms(3)
  have retry: "core_inv (retry_later date now s c)"
    using ctx by (intro retry_later_spec(1)) (auto simp: ready_def)
  show ?thesis
  proof (cases "jr_dispatch (job_at c s) = Inline")
    case True
    then show ?thesis
      using retry inline_refused_inv [OF ctx True] inline_finished_inv(1) [OF ctx True] started_eqs(1) [OF s] s r
      by (subst dispatchOne.simps) (auto simp: Let_def ready_def split: option.splits prod.splits)
  next
    case False
    then show ?thesis
      using retry started_inv [OF ctx False] started_eqs(2) [OF s] s r
      by (subst dispatchOne.simps) (auto simp: Let_def ready_def split: option.splits prod.splits)
  qed
qed

lemma handleCompletion_inv [inv_intros]:
  assumes "core_inv c"
  shows "core_inv (fst (handleCompletion date ex now s c e))"
proof (cases "s < job_count c \<and> jr_occupied (job_at c s)")
  case False
  then have "fst (handleCompletion date ex now s c e) = c" by (subst handleCompletion.simps) auto
  then show ?thesis using assms by simp
next
  case True
  then have s: "s < job_count c" and occ: "jr_occupied (job_at c s)" by auto
  let ?r = "less_running (job_at c s)" and ?c = "set_job s (less_running (job_at c s)) c"
  note fr = local_step_inv [OF local_step_less_running core_invD(1,2) [OF assms], of s]
  have ok: "slot_flags (job_at c s)" "slot_due c s" "slot_pend c s"
    using core_invD(3) [OF assms s] by (auto simp: slot_ok_def)
  have lr: "slot_flags ?r \<Longrightarrow> slot_ok ?c s" using less_running_slot [OF ok(2,3) s] .
  have at: "job_at ?c s = ?r" "s < job_count ?c" using s by (auto simp: job_at_set_job)
  have pend: "slot_pend ?c s" using ok(3) s by (auto simp: slot_pend_def job_at_set_job less_running_def)
  have keep: "jr_occupied ?r" "jr_canceled ?r = jr_canceled (job_at c s)" "jr_paused ?r = jr_paused (job_at c s)"
    "jr_queuedWhileRunning ?r = jr_queuedWhileRunning (job_at c s)" "jr_refreshPending ?r = jr_refreshPending (job_at c s)"
    using occ by (auto simp: less_running_def)
  have un: "handleCompletion date ex now s c e =
    (if jr_canceled ?r then (finalizeCanceledIfIdle s ?c, e)
     else if jr_refreshPending ?r \<and> jr_runningCount ?r = 0
     then (snd (queueScheduling s now (set_job s (?r\<lparr>jr_refreshPending := False, jr_queuedWhileRunning := False,
             jr_hasNext := False\<rparr>) ?c)), e)
     else if jr_queuedWhileRunning ?r \<and> jr_runningCount ?r = 0
     then dispatchDeferredIfNeeded date ex now s ?c e
     else (complete_idle now s ?c, e))"
    using s occ by (subst handleCompletion.simps) (simp add: Let_def less_running_def)
  consider (canceled) "jr_canceled ?r"
    | (refresh) "\<not> jr_canceled ?r" "jr_refreshPending ?r" "jr_runningCount ?r = 0"
    | (queued) "\<not> jr_canceled ?r" "\<not> (jr_refreshPending ?r \<and> jr_runningCount ?r = 0)"
        "jr_queuedWhileRunning ?r" "jr_runningCount ?r = 0"
    | (idle) "\<not> jr_canceled ?r" "\<not> (jr_refreshPending ?r \<and> jr_runningCount ?r = 0)"
        "\<not> (jr_queuedWhileRunning ?r \<and> jr_runningCount ?r = 0)"
    by blast
  then show ?thesis
  proof cases
    case canceled
    have "\<not> jr_refreshPending (job_at c s)" "\<not> jr_queuedWhileRunning (job_at c s)"
      using ok(1) canceled keep(2) by (auto simp: slot_flags_def)
    then have "jr_runningCount ?r \<noteq> 0 \<Longrightarrow> slot_ok ?c s"
      using less_running_flags [OF ok(1)] canceled keep(2) by (intro lr) auto
    then have "core_inv (finalizeCanceledIfIdle s ?c)"
      using canceled keep(1) at by (intro finalizeCanceledIfIdle_inv [OF fr]) auto
    then show ?thesis using canceled unfolding un by simp
  next
    case refresh
    let ?r' = "?r\<lparr>jr_refreshPending := False, jr_queuedWhileRunning := False, jr_hasNext := False\<rparr>"
    have "local_step s ?c (set_job s ?r' ?c)" using at by (intro local_step_set_job) simp_all
    then have "frame_inv (set_job s ?r' ?c)" "others_ok s (set_job s ?r' ?c)" using local_step_inv fr by blast+
    moreover have "slot_flags ?r'" using ok(1) refresh(1,3) keep(1,2) by (auto simp: slot_flags_def less_running_def)
    moreover have "slot_pend (set_job s ?r' ?c) s" using pend at by (simp add: slot_pend_def job_at_set_job)
    ultimately show ?thesis
      using refresh at unfolding un by (auto intro!: queueScheduling_inv simp: job_at_set_job)
  next
    case queued
    let ?r' = "?r\<lparr>jr_queuedWhileRunning := False\<rparr>"
    have q: "jr_overlap ?r = QueueOne" "\<not> jr_paused ?r"
      using ok(1) queued keep by (auto simp: slot_flags_def less_running_def)
    have "local_step s ?c (set_job s ?r' ?c)" using at by (intro local_step_set_job) simp_all
    then have fr': "frame_inv (set_job s ?r' ?c)" "others_ok s (set_job s ?r' ?c)" using local_step_inv fr by blast+
    have r': "ready ?r'"
      using ok(1) queued keep(1) q by (auto simp: ready_def slot_flags_def less_running_def)
    have p': "slot_pend (set_job s ?r' ?c) s" using pend at by (simp add: slot_pend_def job_at_set_job)
    have "core_inv (fst (dispatchOne date ex now s True (set_job s ?r' ?c) e))"
      using r' at(2) queued(1) keep(1) q(2) by (intro dispatchOne_inv [OF fr' p']) (auto simp: job_at_set_job)
    moreover have "dispatchDeferredIfNeeded date ex now s ?c e = dispatchOne date ex now s True (set_job s ?r' ?c) e"
      using queued keep(1) q(2) at by (subst dispatchDeferredIfNeeded.simps) (simp add: Let_def)
    ultimately show ?thesis using queued unfolding un by simp
  next
    case idle
    then have "slot_flags ?r" using less_running_flags [OF ok(1)] keep by auto
    then have "core_inv (complete_idle now s ?c)"
      using idle(1) keep(1) at by (intro complete_idle_inv [OF fr at(2) lr]) auto
    moreover have "handleCompletion date ex now s c e = (complete_idle now s ?c, e)"
      unfolding un using idle by (simp only: if_False simp_thms)
    ultimately show ?thesis by simp
  qed
qed


section \<open>The due loop\<close>

text \<open>One round of the loop, once a valid entry that is due stands on top of the heap.\<close>

definition turn ::
  "ESPDate \<Rightarrow> 'e IExecutorResolver \<Rightarrow> DateTime \<Rightarrow> SchedulerCore \<Rightarrow> 'e \<Rightarrow> SchedulerCore \<times> 'e" where
  "turn date ex now c e =
     (let s = due_slotIndex (dueTop (core_dueHeap c));
          c = c\<lparr>core_dueHeap := snd (duePop (core_dueHeap c))\<rparr>;
          r = job_at c s
      in if jr_paused r then (set_job s (r\<lparr>jr_hasNext := False\<rparr>) c, e)
         else if jr_runningCount r > 0 \<and> jr_overlap r \<noteq> AllowParallel
         then (set_job s (r\<lparr>jr_queuedWhileRunning :=
                              (if jr_overlap r = QueueOne then True else jr_queuedWhileRunning r),
                            jr_hasNext := False\<rparr>) c, e)
         else dispatchOne date ex now s False c e)"

text \<open>When the loop stops: no entry, or the first entry is in the future.\<close>

definition caught_up :: "DateTime \<Rightarrow> SchedulerCore \<Rightarrow> bool" where
  "caught_up now c \<longleftrightarrow> dueEmpty (core_dueHeap c) \<or> due_nextEpoch (dueTop (core_dueHeap c)) > epochSeconds now"

lemma prune_empty: "dueEmpty (core_dueHeap c) \<Longrightarrow> pruneInvalidDueEntries c = c"
  by (subst pruneInvalidDueEntries.simps) simp

lemma dispatch_loop_unfold:
  "dispatch_loop date ex now c e =
     (if caught_up now (pruneInvalidDueEntries c) then Some (pruneInvalidDueEntries c, e)
      else dispatch_loop date ex now (fst (turn date ex now (pruneInvalidDueEntries c) e))
             (snd (turn date ex now (pruneInvalidDueEntries c) e)))"
  by (subst dispatch_loop.simps) (auto simp: caught_up_def turn_def Let_def prune_empty)

lemma prune_valid:
  "\<not> dueEmpty (core_dueHeap (pruneInvalidDueEntries c)) \<Longrightarrow>
   validateDueEntry (pruneInvalidDueEntries c) (dueTop (core_dueHeap (pruneInvalidDueEntries c)))"
proof -
  assume ne: "\<not> dueEmpty (core_dueHeap (pruneInvalidDueEntries c))"
  let ?q = "core_dueHeap (pruneInvalidDueEntries c)"
  have "validateDueEntry c (dueTop ?q)" and e: "pruneInvalidDueEntries c = c\<lparr>core_dueHeap := ?q\<rparr>"
    using prune_pruned [of c] ne by auto
  have "validateDueEntry (c\<lparr>core_dueHeap := q\<rparr>) x = validateDueEntry c x" for q x
    by (simp add: validateDueEntry_def)
  with \<open>validateDueEntry c (dueTop ?q)\<close> show ?thesis by (subst e) simp
qed

lemma popped:
  assumes "core_inv c" "\<not> dueEmpty (core_dueHeap c)" "validateDueEntry c (dueTop (core_dueHeap c))"
  defines "s \<equiv> due_slotIndex (dueTop (core_dueHeap c))"
    and "c' \<equiv> c\<lparr>core_dueHeap := snd (duePop (core_dueHeap c))\<rparr>"
  shows "frame_inv c'" "others_ok s c'" "slot_pend c' s" "s < job_count c'" "slot_flags (job_at c' s)"
    "jr_occupied (job_at c' s)" "\<not> jr_canceled (job_at c' s)"
proof -
  have q: "due_wf (core_dueHeap c)" using core_invD(5) [OF assms(1)] by (simp add: arrays_wf_def)
  note pop = dq.pop_rest [OF q assms(2)]
  show "frame_inv c'" unfolding c'_def using core_invD(1) [OF assms(1)] pop by (intro frame_inv_dueHeap) auto
  have kept: "x \<in> set (arr_data (snd (duePop (core_dueHeap c))))" if "x \<in> due_set c" "due_slotIndex x \<noteq> s" for x
    using that conjunct2 [OF pop] unfolding due_set_def s_def by (metis insert_iff set_mset_add_mset_insert set_mset_mset)
  show "others_ok s c'"
    unfolding others_ok_def c'_def slot_ok_dueHeap using core_invD(3) [OF assms(1)] kept
    by (auto simp: slot_ok_def slot_due_def due_entry_def)
  have "s < job_count c" "jr_occupied (job_at c s)" "\<not> jr_canceled (job_at c s)"
    using assms(3) by (auto simp: validateDueEntry_def s_def Let_def split: if_splits)
  then show "slot_pend c' s" "s < job_count c'" "slot_flags (job_at c' s)"
    "jr_occupied (job_at c' s)" "\<not> jr_canceled (job_at c' s)"
    using core_invD(3) [OF assms(1), of s] by (auto simp: c'_def slot_ok_def slot_pend_def pend_set_def)
qed

lemma turn_inv:
  assumes "core_inv c" "\<not> dueEmpty (core_dueHeap c)" "validateDueEntry c (dueTop (core_dueHeap c))"
  shows "core_inv (fst (turn date ex now c e))"
proof -
  define s where "s = due_slotIndex (dueTop (core_dueHeap c))"
  define c' where "c' = c\<lparr>core_dueHeap := snd (duePop (core_dueHeap c))\<rparr>"
  note p = popped [OF assms, folded s_def c'_def]
  have put: "core_inv (set_job s r c')"
    if "slot_flags r" "\<not> jr_hasNext r" "jr_pendingSchedule r = jr_pendingSchedule (job_at c' s)"
      "jr_id r = jr_id (job_at c' s)" "jr_occupied r = jr_occupied (job_at c' s)"
      "jr_generation r = jr_generation (job_at c' s)" for r
  proof -
    have "slot_ok (set_job s r c') s"
      using that(1-3) p(3,4) by (simp add: slot_ok_def slot_due_def slot_pend_def job_at_set_job)
    then show ?thesis using local_step_core_inv [OF local_step_set_job [OF that(4-6)] p(1,2)] by simp
  qed
  let ?r = "job_at c' s"
  have t: "turn date ex now c e =
      (if jr_paused ?r then (set_job s (?r\<lparr>jr_hasNext := False\<rparr>) c', e)
       else if jr_runningCount ?r > 0 \<and> jr_overlap ?r \<noteq> AllowParallel
       then (set_job s (?r\<lparr>jr_queuedWhileRunning :=
               (if jr_overlap ?r = QueueOne then True else jr_queuedWhileRunning ?r), jr_hasNext := False\<rparr>) c', e)
       else dispatchOne date ex now s False c' e)"
    unfolding turn_def Let_def s_def c'_def by simp
  consider (paused) "jr_paused ?r"
    | (busy) "\<not> jr_paused ?r" "jr_runningCount ?r > 0 \<and> jr_overlap ?r \<noteq> AllowParallel"
    | (run) "\<not> jr_paused ?r" "\<not> (jr_runningCount ?r > 0 \<and> jr_overlap ?r \<noteq> AllowParallel)" by blast
  then show ?thesis
  proof cases
    case paused
    then show ?thesis unfolding t using slot_flags_hasNext [OF p(5)] by (simp add: put)
  next
    case busy
    have "slot_flags (?r\<lparr>jr_queuedWhileRunning :=
               (if jr_overlap ?r = QueueOne then True else jr_queuedWhileRunning ?r), jr_hasNext := False\<rparr>)"
      using p(5-7) busy by (auto simp: slot_flags_def)
    then show ?thesis unfolding t using busy by (simp add: put)
  next
    case run
    then have "ready ?r" using p(5-7) by (auto simp: ready_def word_gt_0)
    then have "core_inv (fst (dispatchOne date ex now s False c' e))"
      using run(1) p by (intro dispatchOne_inv) auto
    moreover have "turn date ex now c e = dispatchOne date ex now s False c' e"
      unfolding t using run by (simp only: if_False)
    ultimately show ?thesis by simp
  qed
qed

text \<open>What the loop returns, if it returns.\<close>

lemma dispatch_loop_induct [consumes 1, case_names stop turn]:
  assumes "dispatch_loop date ex now c e = Some res"
    and stop: "\<And>c e. caught_up now (pruneInvalidDueEntries c) \<Longrightarrow> P c e (pruneInvalidDueEntries c, e)"
    and turn: "\<And>c e res. \<not> caught_up now (pruneInvalidDueEntries c) \<Longrightarrow>
      P (fst (turn date ex now (pruneInvalidDueEntries c) e)) (snd (turn date ex now (pruneInvalidDueEntries c) e)) res
      \<Longrightarrow> P c e res"
  shows "P c e res"
proof -
  have "date' = date \<longrightarrow> ex' = ex \<longrightarrow> now' = now \<longrightarrow> P c e res"
    if "dispatch_loop date' ex' now' c e = Some res" for date' ex' now' c e res
    using _ that
  proof (rule dispatch_loop.raw_induct [where P = "\<lambda>date' ex' now' c e res.
      date' = date \<longrightarrow> ex' = ex \<longrightarrow> now' = now \<longrightarrow> P c e res"], goal_cases)
    case (1 loop date' ex' now' c e res)
    let ?c = "pruneInvalidDueEntries c"
    have "res = (?c, e) \<and> caught_up now' ?c \<or> \<not> caught_up now' ?c \<and>
        loop date' ex' now' (fst (turn date' ex' now' ?c e)) (snd (turn date' ex' now' ?c e)) = Some res"
      using 1(2) by (auto simp: caught_up_def turn_def Let_def prune_empty split: if_splits)
    then show ?case using stop [of c e] turn [of c e res] 1(1) by blast
  qed
  from this [OF assms(1)] show ?thesis by simp
qed

lemma dispatch_loop_partial:
  assumes "dispatch_loop date ex now c e = Some (c', e')" "core_inv c"
  shows "core_inv c' \<and> caught_up now c'"
proof -
  have "core_inv c \<longrightarrow> core_inv (fst res) \<and> caught_up now (fst res)"
    if "dispatch_loop date ex now c e = Some res" for res
    using that
  proof (induction rule: dispatch_loop_induct)
    case (turn c e res)
    then have ne: "\<not> dueEmpty (core_dueHeap (pruneInvalidDueEntries c))" by (simp add: caught_up_def)
    then show ?case
      using turn(2) turn_inv [OF pruneInvalidDueEntries_inv ne prune_valid [OF ne], of date ex now e] by blast
  qed (simp add: pruneInvalidDueEntries_inv)
  from this [OF assms(1)] show ?thesis using assms(2) by simp
qed

lemma dispatchDue_partial:
  assumes "dispatchDue date ex now c e = Some (c', e')" "core_inv c"
  shows "core_inv c'" "clockValid c now \<Longrightarrow> caught_up now c'"
proof -
  have "core_inv (pruneInvalidDueEntries (drainPendingSchedules date now c))"
    using assms(2) by (intro inv_intros)
  note loop = dispatch_loop_partial [OF _ this, of date ex now e c' e']
  show "core_inv c'" "clockValid c now \<Longrightarrow> caught_up now c'"
    using assms loop by (simp_all add: dispatchDue_def split: if_splits)
qed

lemma handleEvent_inv [inv_intros]: "core_inv c \<Longrightarrow> core_inv (fst (handleEvent date ex ev now c e))"
  by (auto simp: handleEvent_def Let_def intro: handleCompletion_inv)

lemma setMinValidUnixSeconds_inv [inv_intros]: "core_inv c \<Longrightarrow> core_inv (setMinValidUnixSeconds t c)"
  by (simp add: setMinValidUnixSeconds_def core_inv_def frame_inv_def arrays_wf_def index_inv_def
      free_inv_def ids_inv_def slot_ok_def slot_due_def slot_pend_def)

lemma nextDueEpoch_inv [inv_intros]: "core_inv c \<Longrightarrow> core_inv (snd (nextDueEpoch c))"
  by (simp add: nextDueEpoch_def Let_def pruneInvalidDueEntries_inv)

text \<open>In a state where the loop stopped, every planned run is in the future.\<close>

lemma caught_up_future:
  assumes "core_inv c" "caught_up now c" "s < job_count c" "jr_hasNext (job_at c s)"
  shows "epochSeconds now < epochSeconds (jr_nextRunUtc (job_at c s))"
proof -
  have wf: "due_wf (core_dueHeap c)" using core_invD(5) [OF assms(1)] by (simp add: arrays_wf_def)
  have "due_entry s (job_at c s) \<in># mset (arr_data (core_dueHeap c))"
    using core_invD(3) [OF assms(1,3)] assms(4) by (simp add: slot_ok_def slot_due_def due_set_def)
  then have "\<not> dueEmpty (core_dueHeap c)"
    "due_nextEpoch (dueTop (core_dueHeap c)) \<le> due_nextEpoch (due_entry s (job_at c s))"
    using dq.isEmpty_iff dq.top_least [OF wf] by auto
  then show ?thesis using assms(2) by (simp add: caught_up_def due_entry_def)
qed


text \<open>Executors of which none is registered.\<close>

definition no_executors :: "unit IExecutorResolver" where
  "no_executors = \<lparr>inlineExecutor = None, executorFor = (\<lambda>k. None)\<rparr>"

section \<open>Reachable states\<close>

text \<open>
  Every call of the public interface is a step; \<open>date\<close> and the executors are fixed, the clock and the
  executors' state may be anything at each call. Ids are handed out once: the job with the largest 32-bit id is
  the last one the model follows.
\<close>

inductive core_step :: "ESPDate \<Rightarrow> 'e IExecutorResolver \<Rightarrow> SchedulerCore \<Rightarrow> SchedulerCore \<Rightarrow> bool"
  for date :: ESPDate and ex :: "'e IExecutorResolver" where
  add: "core_nextId c \<noteq> - 1 \<Longrightarrow> core_step date ex c (snd (addJob date spec opts cb now c))"
| cancel: "core_step date ex c (snd (cancelJob k c))"
| pause: "core_step date ex c (snd (pauseJob k c))"
| resume: "core_step date ex c (snd (resumeJob k now c))"
| cancel_all: "core_step date ex c (snd (cancelAll c))"
| refresh: "core_step date ex c (snd (refreshAllSchedules date now c))"
| min_valid: "core_step date ex c (setMinValidUnixSeconds t c)"
| next_due: "core_step date ex c (snd (nextDueEpoch c))"
| dispatch: "dispatchDue date ex now c e = Some (c', e') \<Longrightarrow> core_step date ex c c'"
| event: "core_step date ex c (fst (handleEvent date ex ev now c e))"

inductive core_reachable :: "ESPDate \<Rightarrow> 'e IExecutorResolver \<Rightarrow> SchedulerCore \<Rightarrow> bool"
  for date :: ESPDate and ex :: "'e IExecutorResolver" where
  start: "core_reachable date ex (newCore recordSize minValid psram h)"
| step: "core_reachable date ex c \<Longrightarrow> core_step date ex c c' \<Longrightarrow> core_reachable date ex c'"

lemma core_step_inv: "core_step date ex c c' \<Longrightarrow> core_inv c \<Longrightarrow> core_inv c'"
  by (induction rule: core_step.induct) (auto intro: inv_intros dispatchDue_partial)

lemma core_reachable_inv: "core_reachable date ex c \<Longrightarrow> core_inv c"
  by (induction rule: core_reachable.induct) (auto intro: newCore_inv core_step_inv)

text \<open>
  C7: in every reachable state the tables agree: an id is found in the index exactly at the slot that
  holds its live record, ids are unique, free slots are free, and a job that claims a next run has
  its entry in the due heap.
\<close>

theorem reachable_consistent:
  assumes "core_reachable date ex c" "s < job_count c"
  shows "(jr_occupied (job_at c s) \<longrightarrow> ix_get (core_jobIndex c) (jr_id (job_at c s)) = Some s) \<and>
    (ix_get (core_jobIndex c) k = Some u \<longrightarrow> u < job_count c \<and> jr_occupied (job_at c u) \<and> jr_id (job_at c u) = k) \<and>
    (s \<in> set (arr_data (core_freeSlots c)) \<longrightarrow> \<not> jr_occupied (job_at c s)) \<and>
    (jr_hasNext (job_at c s) \<longrightarrow> due_entry s (job_at c s) \<in> set (arr_data (core_dueHeap c)))"
proof -
  have inv: "core_inv c" using assms(1) by (rule core_reachable_inv)
  then have "index_inv c" "free_inv c" "slot_ok c s"
    using assms(2) by (auto simp: core_inv_def frame_inv_def)
  then show ?thesis using assms(2) by (auto simp: index_inv_def free_inv_def slot_ok_def slot_due_def due_set_def)
qed

lemma sample_core_reachable: "core_reachable utc_date no_executors sample_core"
  unfolding sample_core_def by (rule core_reachable.step [OF core_reachable.start core_step.add]) simp

theorem reachable_consistent_witness:
  "ix_get (core_jobIndex sample_core) 1 = Some 0 \<and>
   due_entry 0 (job_at sample_core 0) \<in> set (arr_data (core_dueHeap sample_core))"
  using reachable_consistent [OF sample_core_reachable, of 0] by (simp add: sample_core_simps)

text \<open>
  C3: overlap safety. In every reachable state a job whose policy does not allow parallel runs is
  running at most once, an extra run is remembered only for a \<^verbatim>\<open>QueueOne\<close> job that is running, an
  inline job is not running between two calls, and a canceled or paused job has neither a next run
  nor a queued one.
\<close>

theorem reachable_no_overlap:
  assumes "core_reachable date ex c" "s < job_count c"
  shows "(jr_overlap (job_at c s) \<noteq> AllowParallel \<longrightarrow> jr_runningCount (job_at c s) \<le> 1) \<and>
    (jr_queuedWhileRunning (job_at c s) \<longrightarrow> jr_overlap (job_at c s) = QueueOne \<and> jr_runningCount (job_at c s) = 1) \<and>
    (jr_dispatch (job_at c s) = Inline \<longrightarrow> jr_runningCount (job_at c s) = 0) \<and>
    (jr_canceled (job_at c s) \<or> jr_paused (job_at c s) \<longrightarrow>
       \<not> jr_hasNext (job_at c s) \<and> \<not> jr_queuedWhileRunning (job_at c s))"
proof -
  have "slot_flags (job_at c s)" using core_invD(4) [OF core_reachable_inv [OF assms(1)] assms(2)] .
  then show ?thesis using word_le_one [of "jr_runningCount (job_at c s)"] by (auto simp: slot_flags_def)
qed

theorem reachable_no_overlap_witness:
  "jr_overlap (job_at sample_core 0) = SkipIfRunning \<and> jr_runningCount (job_at sample_core 0) \<le> 1"
  using reachable_no_overlap [OF sample_core_reachable, of 0] by (simp add: sample_core_simps)


end
