(* ===== verification/Dispatch_Progress.thy ===== *)
theory Dispatch_Progress
  imports Core_Dispatch
begin

text \<open>
  Why a pass of \<^verbatim>\<open>dispatchDue\<close> ends. Each round has to move the job it dispatches forward in time, which
  depends on the local clock: the theory follows from which instant on a core's recurring jobs are planned,
  and shows that the loop ends while the clock is steady from there until now.
\<close>

section \<open>From when on jobs are planned\<close>

text \<open>
  A recurring job is planned from \<open>lo\<close> on: its next run, and the instant its pending request starts from,
  are not before \<open>lo\<close>. One-shot jobs are planned for their own instant and do not recur.
\<close>

definition recurs_from :: "int \<Rightarrow> bool \<Rightarrow> JobRecord \<Rightarrow> bool" where
  "recurs_from lo pending r \<longleftrightarrow> one_shot r \<or>
     (jr_hasNext r \<longrightarrow> lo \<le> epochSeconds (jr_nextRunUtc r)) \<and> (pending \<longrightarrow> lo \<le> epochSeconds (jr_scheduleFromUtc r))"

definition planned_from :: "int \<Rightarrow> SchedulerCore \<Rightarrow> bool" where
  "planned_from lo c \<longleftrightarrow> (\<forall>s < job_count c. recurs_from lo (s \<in> pend_set c) (job_at c s))"

named_theorems planned_intros

lemma planned_fromD: "planned_from lo c \<Longrightarrow> s < job_count c \<Longrightarrow> recurs_from lo (s \<in> pend_set c) (job_at c s)"
  by (simp add: planned_from_def)

lemma planned_from_same:
  "planned_from lo c \<Longrightarrow> job_count c' = job_count c \<Longrightarrow> (\<And>s. job_at c' s = job_at c s) \<Longrightarrow> pend_set c' \<subseteq> pend_set c \<Longrightarrow>
   planned_from lo c'"
  unfolding planned_from_def recurs_from_def by (metis subset_iff)

lemma planned_from_update [simp]:
  "planned_from lo (c\<lparr>core_dueHeap := q\<rparr>) \<longleftrightarrow> planned_from lo c"
  "planned_from lo (c\<lparr>core_jobIndex := x\<rparr>) \<longleftrightarrow> planned_from lo c"
  "planned_from lo (c\<lparr>core_freeSlots := f, core_heap := h\<rparr>) \<longleftrightarrow> planned_from lo c"
  "planned_from lo (c\<lparr>core_minValidEpochSeconds := v\<rparr>) \<longleftrightarrow> planned_from lo c"
  by (simp_all add: planned_from_def pend_set_def job_at_def job_count_def)

lemma planned_set_job:
  "planned_from lo c \<Longrightarrow> recurs_from lo (s \<in> pend_set c) r \<Longrightarrow> planned_from lo (set_job s r c)"
  by (simp add: planned_from_def pend_set_def job_at_set_job)

lemma planned_push_or_clear [planned_intros]:
  assumes "planned_from lo c"
  shows "planned_from lo (push_or_clear s c)"
proof -
  have "pend_set (push_or_clear s c) = pend_set c" "job_count (push_or_clear s c) = job_count c"
    by (simp_all add: pend_set_def push_or_clear_def Let_def case_prod_unfold)
  then show ?thesis
    using assms by (auto simp: planned_from_def job_at_push_or_clear recurs_from_def one_shot_def)
qed

lemma computeNextForJob_scheduleFrom [simp]:
  "jr_scheduleFromUtc (snd (computeNextForJob date r t)) = jr_scheduleFromUtc r"
  by (auto simp: computeNextForJob_def Let_def split: option.splits)

lemma one_shot_kind: "\<not> one_shot r \<Longrightarrow> resolvedScheduleKind (jr_schedule r) \<noteq> OneShotUtc"
  by (auto simp: one_shot_def resolvedScheduleKind_def)

lemma computeNextForJob_ge:
  assumes "steady_period date lo hi" "lo \<le> epochSeconds t" "\<not> one_shot r" "fst (computeNextForJob date r t)"
  shows "epochSeconds t \<le> epochSeconds (jr_nextRunUtc (snd (computeNextForJob date r t))) \<or>
    hi < epochSeconds (jr_nextRunUtc (snd (computeNextForJob date r t)))"
  using assms computeNext_ge [of date "jr_schedule r" lo hi t, OF _ _ _ one_shot_kind]
  by (auto simp: steady_period_def computeNextForJob_def Let_def one_shot_def split: if_splits option.splits)

lemma computeNextForJob_recurs:
  assumes "steady_period date lo hi" "one_shot r \<or> lo \<le> epochSeconds t" "recurs_from lo pending (r\<lparr>jr_hasNext := False\<rparr>)"
  shows "recurs_from lo pending (snd (computeNextForJob date r t))"
proof (cases "one_shot r")
  case False
  then have "jr_hasNext (snd (computeNextForJob date r t)) \<longrightarrow>
      lo \<le> epochSeconds (jr_nextRunUtc (snd (computeNextForJob date r t)))"
    using computeNextForJob_ge [OF assms(1) _ False, of t] assms(1,2) computeNextForJob_fst [of date r t]
    by (auto simp: steady_period_def)
  then show ?thesis using assms(3) False by (simp add: recurs_from_def one_shot_def)
qed (simp add: recurs_from_def)

lemma planned_plan_slot [planned_intros]:
  assumes "steady_period date lo hi" "one_shot r \<or> lo \<le> epochSeconds t" "planned_from lo c"
    and "recurs_from lo (s \<in> pend_set c) (r\<lparr>jr_hasNext := False\<rparr>)"
  shows "planned_from lo (plan_slot date s r t c)"
  using planned_set_job [OF assms(3) computeNextForJob_recurs [OF assms(1,2,4)]] planned_push_or_clear
  by (simp add: plan_slot_def Let_def case_prod_unfold)

lemma recurs_from_cleared:
  "recurs_from lo p r \<Longrightarrow> recurs_from lo p (r\<lparr>jr_hasNext := False\<rparr>)"
  by (auto simp: recurs_from_def one_shot_def)

text \<open>Requests, retirement and the rest of the bookkeeping.\<close>

lemma recurs_from_like:
  "recurs_from lo p r \<Longrightarrow> jr_schedule r' = jr_schedule r \<Longrightarrow> jr_scheduleFromUtc r' = jr_scheduleFromUtc r \<Longrightarrow>
   (jr_hasNext r' \<Longrightarrow> jr_hasNext r \<and> jr_nextRunUtc r' = jr_nextRunUtc r) \<Longrightarrow> recurs_from lo p r'"
  by (auto simp: recurs_from_def one_shot_def)

lemma planned_like:
  assumes "planned_from lo c" "jr_schedule r = jr_schedule (job_at c s)" "jr_scheduleFromUtc r = jr_scheduleFromUtc (job_at c s)"
    and "jr_hasNext r \<Longrightarrow> jr_hasNext (job_at c s) \<and> jr_nextRunUtc r = jr_nextRunUtc (job_at c s)"
  shows "planned_from lo (set_job s r c)"
proof (cases "s < job_count c")
  case True
  from planned_set_job [OF assms(1) recurs_from_like [OF planned_fromD [OF assms(1) True] assms(2-4)]] show ?thesis .
next
  case False
  then show ?thesis using assms(1) by (simp add: planned_from_def job_at_set_job pend_set_def)
qed

lemma planned_pending:
  assumes "planned_from lo c" "set (arr_data p) \<subseteq> insert s (pend_set c)" "recurs_from lo True r"
  shows "planned_from lo (set_job s r (c\<lparr>core_pendingSchedules := p, core_heap := h\<rparr>))"
proof -
  have "\<forall>u < job_count c. recurs_from lo (u \<in> set (arr_data p)) (if u = s then r else job_at c u)"
    using planned_fromD [OF assms(1)] assms(2,3) by (auto simp: recurs_from_def)
  moreover have "job_count (c\<lparr>core_pendingSchedules := p, core_heap := h\<rparr>) = job_count c" by (simp add: job_count_def)
  ultimately show ?thesis by (auto simp: planned_from_def job_at_set_job pend_set_def)
qed

lemma planned_queueScheduling [planned_intros]:
  assumes "planned_from lo c" "lo \<le> epochSeconds t"
  shows "planned_from lo (snd (queueScheduling s t c))"
proof -
  obtain ok p h where p: "pushBack s (core_pendingSchedules c) (core_heap c) = (ok, p, h)" by (metis prod_cases3)
  then have "set (arr_data p) \<subseteq> insert s (pend_set c)" by (rule pushBack_cases) (auto simp: pend_set_def)
  note add = planned_pending [OF assms(1) this]
  have r: "recurs_from lo b ((job_at c s)\<lparr>jr_scheduleFromUtc := t, jr_hasNext := False\<rparr>)"
    "recurs_from lo b ((job_at c s)\<lparr>jr_scheduleFromUtc := t, jr_hasNext := False, jr_pendingSchedule := pd\<rparr>)" for b pd
    using assms(2) by (simp_all add: recurs_from_def)
  show ?thesis
    using assms(1) p r add
    by (auto simp: queueScheduling_def Let_def intro: planned_like planned_set_job)
qed

lemma planned_retireJob [planned_intros]: "planned_from lo c \<Longrightarrow> planned_from lo (retireJob s c)"
  by (auto simp: retireJob_def Let_def split: prod.splits intro!: planned_like)

lemma planned_finalize [planned_intros]: "planned_from lo c \<Longrightarrow> planned_from lo (finalizeCanceledIfIdle s c)"
  by (simp add: finalizeCanceledIfIdle_def Let_def planned_retireJob)

lemma planned_complete_idle [planned_intros]:
  "planned_from lo c \<Longrightarrow> lo \<le> epochSeconds t \<Longrightarrow> planned_from lo (complete_idle t s c)"
  by (simp add: complete_idle_def Let_def planned_queueScheduling planned_retireJob)

lemma planned_prune [planned_intros]: "planned_from lo c \<Longrightarrow> planned_from lo (pruneInvalidDueEntries c)"
  by (induction c rule: pruneInvalidDueEntries.induct) (subst pruneInvalidDueEntries.simps, simp)

lemma planned_drain_loop [planned_intros]:
  "steady_period date lo hi \<Longrightarrow> planned_from lo c \<Longrightarrow> planned_from lo (drain_loop date c)"
proof (induction date c rule: drain_loop.induct)
  case (1 date c)
  let ?p = "core_pendingSchedules c"
  let ?s = "arr_at ?p (arr_size ?p - 1)" and ?c = "c\<lparr>core_pendingSchedules := popBack ?p\<rparr>"
  have at: "job_at ?c u = job_at c u" "job_count ?c = job_count c" for u by (simp_all add: job_at_def job_count_def)
  have pc: "planned_from lo ?c"
    by (rule planned_from_same [OF 1(3)]) (auto simp: at pend_set_def arr_defs dest: in_set_butlastD)
  have "planned_from lo (drain_one date ?s ?c)" if "\<not> arr_empty ?p"
  proof (cases "?s < job_count c")
    case True
    have "?s \<in> pend_set c" using that by (auto simp: pend_set_def arr_defs last_conv_nth [symmetric])
    then have "recurs_from lo True (job_at c ?s)" using planned_fromD [OF 1(3) True] by simp
    then show ?thesis
      using 1(2) at pc
      by (auto simp: drain_one_def Let_def recurs_from_def one_shot_def intro!: planned_plan_slot planned_set_job)
  qed (use pc in \<open>simp add: drain_one_def at\<close>)
  then show ?case using 1 by (subst drain_loop.simps) (simp add: Let_def)
qed

lemma planned_drainPending [planned_intros]:
  "steady_period date lo hi \<Longrightarrow> planned_from lo c \<Longrightarrow> planned_from lo (drainPendingSchedules date now c)"
  by (simp add: drainPendingSchedules_def planned_drain_loop)

section \<open>Dispatching keeps it\<close>

lemma planned_retry_later [planned_intros]:
  assumes "steady_period date lo hi" "lo \<le> epochSeconds now" "planned_from lo c" "s < job_count c"
  shows "planned_from lo (retry_later date now s c)"
proof -
  have "epochSeconds now \<le> epochSeconds (addSeconds date now kRetryDelaySeconds)"
    using assms(1) by (simp add: steady_period_def utc_arithmetic_simps kRetryDelaySeconds_def)
  then have "recurs_from lo (s \<in> pend_set c) ((job_at c s)\<lparr>jr_hasNext := True,
      jr_nextRunUtc := addSeconds date now kRetryDelaySeconds\<rparr>)"
    using planned_fromD [OF assms(3,4)] assms(2) by (auto simp: recurs_from_def one_shot_def)
  then show ?thesis unfolding retry_later_def by (intro planned_push_or_clear planned_set_job assms(3))
qed

text \<open>The run that is started is one that was planned, or the deferred run of an asynchronous job.\<close>

lemma planned_started [planned_intros]:
  assumes "steady_period date lo hi" "planned_from lo c" "s < job_count c" "final \<or> jr_hasNext (job_at c s)"
  shows "planned_from lo (started date final s c)"
proof -
  let ?r = "(job_at c s)\<lparr>jr_runningCount := jr_runningCount (job_at c s) + 1\<rparr>"
  have rec: "recurs_from lo (s \<in> pend_set c) (job_at c s)" using planned_fromD [OF assms(2,3)] .
  then have "one_shot ?r \<or> lo \<le> epochSeconds (addMinutes date (jr_nextRunUtc (job_at c s)) 1)" if "\<not> final"
    using assms(1,4) that by (auto simp: recurs_from_def one_shot_def steady_period_def utc_arithmetic_simps)
  moreover have "recurs_from lo (s \<in> pend_set (set_job s ?r c)) (?r\<lparr>jr_hasNext := False\<rparr>)"
    using rec by (auto simp: recurs_from_def one_shot_def pend_set_def)
  ultimately show ?thesis
    using assms(1,2) by (auto simp: started_def Let_def intro!: planned_like planned_plan_slot)
qed

lemma planned_less_running: "planned_from lo c \<Longrightarrow> planned_from lo (set_job s (less_running (job_at c s)) c)"
  by (auto simp: less_running_def intro!: planned_like)

lemma planned_stop_running [planned_intros]: "planned_from lo c \<Longrightarrow> planned_from lo (stop_running s c)"
  by (auto simp: stop_running_def intro!: planned_like)

lemma planned_dispatchOne [planned_intros]:
  assumes "steady_period date lo hi" "lo \<le> epochSeconds now" "planned_from lo c" "arrays_wf c" "s < job_count c"
    and "ready (job_at c s)" "deferred \<and> jr_dispatch (job_at c s) = Async \<or> jr_hasNext (job_at c s)"
  shows "planned_from lo (fst (dispatchOne date ex now s deferred c e))"
proof -
  note st = started_spec [OF assms(4-6), of date]
  have s: "s < job_count (started date f s c)" for f using st(1) [of f] assms(5) by (simp add: local_step_def)
  have run: "planned_from lo (started date f s c)" if "f \<or> jr_hasNext (job_at c s)" for f
    using planned_started [OF assms(1,3,5) that] .
  have retry: "planned_from lo (retry_later date now s c)" using planned_retry_later [OF assms(1-3,5)] .
  have inline: "planned_from lo (retry_later date now s (stop_running s (started date False s c)))"
    "planned_from lo (fst (handleCompletion date ex now s (started date False s c) e'))" if "jr_hasNext (job_at c s)" for e'
  proof -
    show "planned_from lo (retry_later date now s (stop_running s (started date False s c)))"
      using run [of False] that s [of False] assms(1,2)
      by (intro planned_retry_later planned_stop_running) (auto simp: stop_running_def)
    have "handleCompletion date ex now s (started date False s c) e' = (complete_idle now s
        (set_job s (less_running (job_at (started date False s c) s)) (started date False s c)), e')"
      using s [of False] st [of False] by (simp add: handleCompletion_quiet)
    then show "planned_from lo (fst (handleCompletion date ex now s (started date False s c) e'))"
      using run [of False] that assms(2) by (simp add: planned_complete_idle planned_less_running)
  qed
  show ?thesis
    using retry inline run [of deferred] assms(5-7) started_eqs [OF assms(5)]
    by (subst dispatchOne.simps) (auto simp: Let_def ready_def split: option.splits prod.splits)
qed

lemma planned_handleCompletion [planned_intros]:
  assumes "steady_period date lo hi" "lo \<le> epochSeconds now" "core_inv c" "planned_from lo c"
  shows "planned_from lo (fst (handleCompletion date ex now s c e))"
proof (cases "s < job_count c \<and> jr_occupied (job_at c s)")
  case True
  define r where "r = less_running (job_at c s)"
  define c' where "c' = set_job s r c"
  have at: "job_at c' s = r" "s < job_count c'" using True by (simp_all add: c'_def job_at_set_job)
  have pc: "planned_from lo c'" unfolding c'_def r_def by (rule planned_less_running [OF assms(4)])
  have un: "handleCompletion date ex now s c e =
      (if jr_canceled r then (finalizeCanceledIfIdle s c', e)
       else if jr_refreshPending r \<and> jr_runningCount r = 0
       then (snd (queueScheduling s now (set_job s
              (r\<lparr>jr_refreshPending := False, jr_queuedWhileRunning := False, jr_hasNext := False\<rparr>) c')), e)
       else if jr_queuedWhileRunning r \<and> jr_runningCount r = 0
       then dispatchDeferredIfNeeded date ex now s c' e else (complete_idle now s c', e))"
    using True by (subst handleCompletion.simps) (simp add: Let_def r_def c'_def less_running_def)
  have refresh: "planned_from lo (set_job s (r\<lparr>jr_refreshPending := False, jr_queuedWhileRunning := False,
      jr_hasNext := False\<rparr>) c')"
    using pc by (rule planned_like) (simp_all add: at)
  have deferred: "planned_from lo (fst (dispatchDeferredIfNeeded date ex now s c' e))" if "jr_queuedWhileRunning r"
    "\<not> jr_canceled r" "jr_runningCount r = 0" "\<not> jr_refreshPending r"
  proof -
    let ?r = "r\<lparr>jr_queuedWhileRunning := False\<rparr>" and ?c = "set_job s (r\<lparr>jr_queuedWhileRunning := False\<rparr>) c'"
    have fl: "slot_flags (job_at c s)" using core_invD(3) [OF assms(3)] True by (simp add: slot_ok_def)
    have keep: "jr_queuedWhileRunning r = jr_queuedWhileRunning (job_at c s)" "jr_canceled r = jr_canceled (job_at c s)"
      "jr_refreshPending r = jr_refreshPending (job_at c s)" "jr_paused r = jr_paused (job_at c s)"
      "jr_occupied r = jr_occupied (job_at c s)" "jr_dispatch r = jr_dispatch (job_at c s)"
      by (simp_all add: r_def less_running_def)
    have "jr_overlap (job_at c s) = QueueOne" "0 < jr_runningCount (job_at c s)" "\<not> jr_paused (job_at c s)"
      "jr_dispatch (job_at c s) \<noteq> Inline"
      using fl that keep by (auto simp: slot_flags_def)
    then have "ready ?r" "jr_dispatch ?r \<noteq> Inline"
      using that True keep fl by (auto simp: ready_def slot_flags_def r_def less_running_def)
    then have "jr_dispatch ?r = Async" by (cases "jr_dispatch ?r") auto
    moreover have "planned_from lo ?c" using pc by (rule planned_like) (simp_all add: at)
    moreover have "arrays_wf ?c" using core_invD(5) [OF assms(3)] by (simp add: c'_def arrays_wf_def set_job_def)
    ultimately have "planned_from lo (fst (dispatchOne date ex now s True ?c e))"
      using assms(1,2) at \<open>ready ?r\<close> by (intro planned_dispatchOne) (auto simp: job_at_set_job)
    then show ?thesis using at pc by (subst dispatchDeferredIfNeeded.simps) (simp add: Let_def)
  qed
  show ?thesis
    unfolding un using pc assms(2) deferred planned_queueScheduling [OF refresh assms(2), of s]
    by (simp add: planned_finalize planned_complete_idle)
qed (use assms(4) in \<open>subst handleCompletion.simps, auto\<close>)

lemma planned_handleEvent [planned_intros]:
  "steady_period date lo hi \<Longrightarrow> lo \<le> epochSeconds now \<Longrightarrow> core_inv c \<Longrightarrow> planned_from lo c \<Longrightarrow>
   planned_from lo (fst (handleEvent date ex ev now c e))"
  by (simp add: handleEvent_def Let_def planned_handleCompletion)

lemma planned_turn [planned_intros]:
  assumes "steady_period date lo (epochSeconds now)" "core_inv c" "planned_from lo c" "\<not> dueEmpty (core_dueHeap c)"
    and "validateDueEntry c (dueTop (core_dueHeap c))"
  shows "planned_from lo (fst (turn date ex now c e))"
proof -
  define s where "s = due_slotIndex (dueTop (core_dueHeap c))"
  define c' where "c' = c\<lparr>core_dueHeap := snd (duePop (core_dueHeap c))\<rparr>"
  note p = popped [OF assms(2,4,5), folded s_def c'_def]
  have pc: "planned_from lo c'" using assms(3) by (simp add: c'_def)
  have next_run: "jr_hasNext (job_at c' s)"
    using assms(5) by (auto simp: validateDueEntry_def s_def c'_def Let_def split: if_splits)
  have run: "planned_from lo (fst (dispatchOne date ex now s False c' e))"
    if "\<not> jr_paused (job_at c' s)" "\<not> (jr_runningCount (job_at c' s) > 0 \<and> jr_overlap (job_at c' s) \<noteq> AllowParallel)"
  proof (rule planned_dispatchOne [OF assms(1) _ pc _ p(4)])
    show "ready (job_at c' s)" using that p(5-7) by (auto simp: ready_def word_gt_0)
    show "arrays_wf c'" using p(1) by (simp add: frame_inv_def)
  qed (use assms(1) next_run in \<open>auto simp: steady_period_def\<close>)
  have quiet: "planned_from lo (set_job s ((job_at c' s)\<lparr>jr_hasNext := False\<rparr>) c')"
    "planned_from lo (set_job s ((job_at c' s)\<lparr>jr_queuedWhileRunning := b, jr_hasNext := False\<rparr>) c')" for b
    using pc by (auto intro: planned_like)
  show ?thesis
    unfolding turn_def Let_def s_def [symmetric] c'_def [symmetric] using quiet run
    by (cases "jr_paused (job_at c' s)";
        cases "jr_runningCount (job_at c' s) > 0 \<and> jr_overlap (job_at c' s) \<noteq> AllowParallel")
      (simp_all only: if_True if_False fst_conv simp_thms)
qed

section \<open>The loop ends\<close>

text \<open>
  The measure is how late the entries of the heap are, one second more than their lateness each. A
  round takes out an entry that is due; it puts back at most one entry for the same job, at least a
  minute later, and one entry a second in the future.
\<close>

definition lateness :: "DateTime \<Rightarrow> DueHeapEntry \<Rightarrow> nat" where
  "lateness now x = nat (epochSeconds now + 1 - due_nextEpoch x)"

definition overdue :: "DateTime \<Rightarrow> SchedulerCore \<Rightarrow> nat" where
  "overdue now c = (\<Sum>x\<in>#mset (arr_data (core_dueHeap c)). lateness now x)"

lemma overdue_same: "core_dueHeap c' = core_dueHeap c \<Longrightarrow> overdue now c' = overdue now c"
  by (simp add: overdue_def)

lemma overdue_pop:
  assumes "due_wf (core_dueHeap c)" "\<not> dueEmpty (core_dueHeap c)"
  shows "overdue now c = lateness now (dueTop (core_dueHeap c)) +
    overdue now (c\<lparr>core_dueHeap := snd (duePop (core_dueHeap c))\<rparr>)"
  using conjunct2 [OF dq.pop_rest [OF assms]] by (simp add: overdue_def)

lemma overdue_prune:
  assumes "due_wf (core_dueHeap c)"
  shows "overdue now (pruneInvalidDueEntries c) \<le> overdue now c"
proof -
  have "mset (arr_data (core_dueHeap (pruneInvalidDueEntries c))) \<subseteq># mset (arr_data (core_dueHeap c))"
    using prune_pruned [of c] dq.pruned_subset assms by blast
  then obtain m where "mset (arr_data (core_dueHeap c)) =
      mset (arr_data (core_dueHeap (pruneInvalidDueEntries c))) + m"
    by (auto simp: subset_mset.le_iff_add)
  then show ?thesis by (simp add: overdue_def)
qed

lemma overdue_push_or_clear:
  assumes "due_wf (core_dueHeap c)"
  shows "overdue now (push_or_clear s c) \<le> overdue now c + lateness now (due_entry s (job_at c s))"
proof -
  obtain ok q h where p: "duePush (due_entry s (job_at c s)) (core_dueHeap c) (core_heap c) = (ok, q, h)"
    by (metis prod_cases3)
  have "core_dueHeap (push_or_clear s c) = core_dueHeap c \<or> core_dueHeap (push_or_clear s c) = q"
    using p by (simp add: push_or_clear_def pushDue_def Let_def)
  moreover have "mset (arr_data q) = add_mset (due_entry s (job_at c s)) (mset (arr_data (core_dueHeap c))) \<or>
      q = core_dueHeap c"
    using p assms dq.push_accepted [of _ _ _ q h] dq.push_refused [of _ _ _ q h] by (cases ok) auto
  ultimately show ?thesis by (elim disjE) (simp_all add: overdue_def)
qed

lemma overdue_retry_later:
  assumes "due_wf (core_dueHeap c)" "utc_arithmetic date" "s < job_count c"
  shows "overdue now (retry_later date now s c) \<le> overdue now c"
proof -
  let ?c = "set_job s ((job_at c s)\<lparr>jr_hasNext := True, jr_nextRunUtc := addSeconds date now kRetryDelaySeconds\<rparr>) c"
  have "lateness now (due_entry s (job_at ?c s)) = 0"
    using assms(2,3) by (simp add: lateness_def due_entry_def job_at_set_job utc_arithmetic_simps kRetryDelaySeconds_def)
  then show ?thesis
    using overdue_push_or_clear [of ?c now s] assms(1) overdue_same [of ?c c now] by (simp add: retry_later_def)
qed

lemma overdue_started:
  assumes "due_wf (core_dueHeap c)" "steady_period date lo (epochSeconds now)" "planned_from lo c" "s < job_count c"
    and "final \<or> jr_hasNext (job_at c s)"
  shows "overdue now (started date final s c) \<le>
    overdue now c + nat (epochSeconds now - epochSeconds (jr_nextRunUtc (job_at c s)))"
proof -
  let ?r = "(job_at c s)\<lparr>jr_runningCount := jr_runningCount (job_at c s) + 1\<rparr>"
  let ?t = "addMinutes date (jr_nextRunUtc (job_at c s)) 1"
  let ?n = "snd (computeNextForJob date ?r ?t)"
  let ?c = "set_job s ?n (set_job s ?r c)"
  have same: "overdue now ?c = overdue now c" by (rule overdue_same) simp
  show ?thesis
  proof (cases "(final \<or> one_shot ?r) \<or> \<not> fst (computeNextForJob date ?r ?t)")
    case True
    then have "core_dueHeap (started date final s c) = core_dueHeap c"
      by (auto simp: started_def Let_def plan_slot_def split: prod.splits)
    then show ?thesis using overdue_same by (metis le_add1)
  next
    case False
    then have "started date final s c = push_or_clear s ?c"
      by (simp add: started_def Let_def plan_slot_def case_prod_unfold)
    moreover have "lo \<le> epochSeconds (jr_nextRunUtc (job_at c s))"
      using planned_fromD [OF assms(3,4)] assms(5) False by (auto simp: recurs_from_def one_shot_def)
    then have "epochSeconds (jr_nextRunUtc (job_at c s)) + 60 \<le> epochSeconds (jr_nextRunUtc ?n) \<or>
        epochSeconds now < epochSeconds (jr_nextRunUtc ?n)"
      using computeNextForJob_ge [OF assms(2), of ?t ?r] False assms(2) by (simp add: steady_period_def utc_arithmetic_simps)
    then have "lateness now (due_entry s (job_at ?c s)) \<le>
        nat (epochSeconds now - epochSeconds (jr_nextRunUtc (job_at c s)))"
      using assms(4) by (auto simp: lateness_def due_entry_def job_at_set_job)
    ultimately show ?thesis using overdue_push_or_clear [of ?c now s] assms(1) same by simp
  qed
qed

lemma core_dueHeap_queueScheduling [simp]:
  "core_dueHeap (snd (queueScheduling s t c)) = core_dueHeap c"
  by (simp add: queueScheduling_def Let_def split: prod.splits)

lemma core_dueHeap_retireJob [simp]: "core_dueHeap (retireJob s c) = core_dueHeap c"
  by (simp add: retireJob_def Let_def split: prod.splits)

lemma core_dueHeap_complete_idle [simp]: "core_dueHeap (complete_idle now s c) = core_dueHeap c"
  by (simp add: complete_idle_def Let_def)

lemma core_dueHeap_stop_running [simp]: "core_dueHeap (stop_running s c) = core_dueHeap c"
  by (simp add: stop_running_def)

lemma overdue_dispatchOne:
  assumes "frame_inv c" "steady_period date lo (epochSeconds now)" "planned_from lo c" "s < job_count c" "ready (job_at c s)"
    and "deferred \<and> jr_dispatch (job_at c s) = Async \<or> jr_hasNext (job_at c s)"
  shows "overdue now (fst (dispatchOne date ex now s deferred c e)) \<le>
    overdue now c + nat (epochSeconds now - epochSeconds (jr_nextRunUtc (job_at c s)))" (is "_ \<le> ?bound")
proof -
  have wf: "arrays_wf c" "due_wf (core_dueHeap c)" using assms(1) by (auto simp: frame_inv_def arrays_wf_def)
  note st = started_spec [OF wf(1) assms(4,5), of date]
  note ov = overdue_started [OF wf(2) assms(2-4)]
  have utc: "utc_arithmetic date" using assms(2) by (simp add: steady_period_def)
  have wf': "due_wf (core_dueHeap (started date f s c))" "s < job_count (started date f s c)" for f
    using st(1) [of f] wf(1) assms(4) by (auto simp: local_step_def arrays_wf_def)
  have retry: "overdue now (retry_later date now s c) \<le> ?bound"
    using overdue_retry_later [OF wf(2) utc assms(4), of now] by simp
  have refused: "overdue now (retry_later date now s (stop_running s (started date f s c))) \<le> ?bound"
    if "f \<or> jr_hasNext (job_at c s)" for f
  proof -
    have "overdue now (retry_later date now s (stop_running s (started date f s c))) \<le>
      overdue now (stop_running s (started date f s c))"
      using wf' [of f] utc by (intro overdue_retry_later) (auto simp: stop_running_def)
    also have "\<dots> = overdue now (started date f s c)" by (rule overdue_same) simp
    finally show ?thesis using ov [OF that] by simp
  qed
  have completed: "overdue now (fst (handleCompletion date ex now s (started date f s c) e')) \<le> ?bound"
    if "f \<or> jr_hasNext (job_at c s)" for f e'
  proof -
    have "overdue now (fst (handleCompletion date ex now s (started date f s c) e')) =
        overdue now (started date f s c)"
      using wf' [of f] st [of f] by (intro overdue_same) (simp add: handleCompletion_quiet)
    then show ?thesis using ov [OF that] by simp
  qed
  show ?thesis
  proof (cases "jr_dispatch (job_at c s) = Inline")
    case True
    then have "jr_hasNext (job_at c s)" using assms(6) by simp
    then show ?thesis
      using True retry refused [of False] completed [of False] assms(4,5) started_eqs(1) [OF assms(4)]
      by (subst dispatchOne.simps) (simp add: Let_def ready_def split: option.split prod.split)
  next
    case False
    then show ?thesis
      using retry ov [of deferred] assms(4-6) started_eqs(2) [OF assms(4)]
      by (subst dispatchOne.simps) (auto simp: Let_def ready_def split: option.split prod.split)
  qed
qed


lemma overdue_turn:
  assumes "core_inv c" "\<not> caught_up now c" "validateDueEntry c (dueTop (core_dueHeap c))"
    and "steady_period date lo (epochSeconds now)" "planned_from lo c"
  shows "overdue now (fst (turn date ex now c e)) < overdue now c"
proof -
  define x where "x = dueTop (core_dueHeap c)"
  define s where "s = due_slotIndex (dueTop (core_dueHeap c))"
  define c' where "c' = c\<lparr>core_dueHeap := snd (duePop (core_dueHeap c))\<rparr>"
  have ne: "\<not> dueEmpty (core_dueHeap c)" and late: "due_nextEpoch x \<le> epochSeconds now"
    using assms(2) by (auto simp: caught_up_def x_def)
  note p = popped [OF assms(1) ne assms(3), folded s_def c'_def]
  have wf: "due_wf (core_dueHeap c)" using core_invD(5) [OF assms(1)] by (simp add: arrays_wf_def)
  have pop: "overdue now c = lateness now x + overdue now c'"
    unfolding c'_def x_def by (rule overdue_pop [OF wf ne])
  have nxt: "epochSeconds (jr_nextRunUtc (job_at c' s)) = due_nextEpoch x"
    using assms(3) by (auto simp: validateDueEntry_def s_def x_def c'_def Let_def split: if_splits)
  have put: "overdue now (set_job s r c') < overdue now c" for r
  proof -
    have "overdue now (set_job s r c') = overdue now c'" by (rule overdue_same) simp
    then show ?thesis using pop late by (simp add: lateness_def)
  qed
  have run: "overdue now (fst (dispatchOne date ex now s False c' e)) < overdue now c"
    if "\<not> jr_paused (job_at c' s)" "\<not> (jr_runningCount (job_at c' s) > 0 \<and> jr_overlap (job_at c' s) \<noteq> AllowParallel)"
  proof -
    have "ready (job_at c' s)" using that p(5-7) by (auto simp: ready_def word_gt_0)
    moreover have "planned_from lo c'" "jr_hasNext (job_at c' s)"
      using assms(3,5) by (auto simp: c'_def s_def validateDueEntry_def Let_def split: if_splits)
    ultimately have "overdue now (fst (dispatchOne date ex now s False c' e)) \<le>
        overdue now c' + nat (epochSeconds now - due_nextEpoch x)"
      using overdue_dispatchOne [OF p(1) assms(4) _ p(4)] nxt by metis
    then show ?thesis using pop late by (simp add: lateness_def)
  qed
  show ?thesis
    unfolding turn_def Let_def s_def [symmetric] c'_def [symmetric] using put run
    by (cases "jr_paused (job_at c' s)";
        cases "jr_runningCount (job_at c' s) > 0 \<and> jr_overlap (job_at c' s) \<noteq> AllowParallel")
      (simp_all only: if_True if_False fst_conv simp_thms)
qed

lemma dispatch_loop_total:
  assumes "steady_period date lo (epochSeconds now)" "core_inv c" "planned_from lo c"
  shows "\<exists>c' e'. dispatch_loop date ex now c e = Some (c', e') \<and> planned_from lo c'"
  using assms(2,3)
proof (induction "overdue now c" arbitrary: c e rule: less_induct)
  case less
  let ?c = "pruneInvalidDueEntries c"
  let ?t = "turn date ex now ?c e"
  show ?case
  proof (cases "caught_up now ?c")
    case False
    then have ne: "\<not> dueEmpty (core_dueHeap ?c)" by (simp add: caught_up_def)
    have inv: "core_inv ?c" "planned_from lo ?c" using less.prems by (auto intro: pruneInvalidDueEntries_inv planned_prune)
    have "overdue now (fst ?t) < overdue now ?c"
      using overdue_turn [OF inv(1) False prune_valid [OF ne] assms(1) inv(2)] .
    moreover have "overdue now ?c \<le> overdue now c"
      using core_invD(5) [OF less.prems(1)] by (intro overdue_prune) (simp add: arrays_wf_def)
    ultimately have "overdue now (fst ?t) < overdue now c" by simp
    from less.hyps [OF this turn_inv [OF inv(1) ne prune_valid [OF ne]] planned_turn [OF assms(1) inv ne prune_valid [OF ne]]]
    show ?thesis using False by (subst dispatch_loop_unfold) simp
  qed (use less.prems in \<open>subst dispatch_loop_unfold, simp add: planned_prune\<close>)
qed

lemma dispatchDue_total:
  assumes "steady_period date lo (epochSeconds now)" "core_inv c" "planned_from lo c"
  shows "\<exists>c' e'. dispatchDue date ex now c e = Some (c', e') \<and> planned_from lo c'"
proof -
  have "core_inv (pruneInvalidDueEntries (drainPendingSchedules date now c))"
    "planned_from lo (pruneInvalidDueEntries (drainPendingSchedules date now c))"
    using assms by (auto intro: inv_intros planned_intros)
  from dispatch_loop_total [OF assms(1) this, of ex e] show ?thesis using assms(3) by (simp add: dispatchDue_def)
qed


text \<open>
  A zone that will go over to summer time at the end of March 2026, long before that; the job of the core is
  due at 100.
\<close>

definition spring_2026 :: int where "spring_2026 = 1774746000"

lemma sample_core_planned: "planned_from lo sample_core"
  by (simp add: planned_from_def recurs_from_def sample_core_simps one_shot_def) (simp add: sample_core_def exec)


section \<open>The operations keep it\<close>

lemma planned_clearScheduling [planned_intros]: "planned_from lo c \<Longrightarrow> planned_from lo (clearScheduling s c)"
  by (auto simp: clearScheduling_def intro!: planned_like)

lemma planned_cancel_slot [planned_intros]: "planned_from lo c \<Longrightarrow> planned_from lo (cancel_slot s c)"
  by (auto simp: cancel_slot_def Let_def intro!: planned_finalize planned_clearScheduling planned_like)

lemma planned_cancel_loop [planned_intros]: "planned_from lo c \<Longrightarrow> planned_from lo (cancel_loop i n c)"
  by (induction i n c rule: cancel_loop.induct) (simp_all add: Let_def planned_cancel_slot)

lemma planned_refresh_slot [planned_intros]:
  assumes "steady_period date lo hi" "lo \<le> epochSeconds now" "planned_from lo c" "s < job_count c"
  shows "planned_from lo (refresh_slot date now s c)"
proof -
  have "recurs_from lo (s \<in> pend_set c) (job_at c s)" using planned_fromD [OF assms(3,4)] .
  then have "recurs_from lo (s \<in> pend_set c) ((job_at c s)\<lparr>jr_pendingSchedule := False, jr_refreshPending := a,
      jr_queuedWhileRunning := b, jr_hasNext := False, jr_nextRunUtc := epochDate\<rparr>)"
    "recurs_from lo (s \<in> pend_set c) ((job_at c s)\<lparr>jr_pendingSchedule := False, jr_refreshPending := a,
      jr_nextRunUtc := epochDate, jr_hasNext := False\<rparr>)" for a b
    by (auto simp: recurs_from_def one_shot_def)
  then show ?thesis
    using assms(1-3) by (auto simp: refresh_slot_def Let_def intro!: planned_set_job planned_plan_slot)
qed

lemma planned_refresh_loop:
  "steady_period date lo hi \<Longrightarrow> lo \<le> epochSeconds now \<Longrightarrow> planned_from lo c \<Longrightarrow> i + n \<le> job_count c \<Longrightarrow>
   planned_from lo (refresh_loop date now i n c)"
  by (induction date now i n c rule: refresh_loop.induct) (simp_all add: planned_refresh_slot)

lemma planned_ops [planned_intros]:
  "planned_from lo c \<Longrightarrow> planned_from lo (snd (cancelJob k c))"
  "planned_from lo c \<Longrightarrow> planned_from lo (snd (pauseJob k c))"
  "planned_from lo c \<Longrightarrow> lo \<le> epochSeconds now \<Longrightarrow> planned_from lo (snd (resumeJob k now c))"
  "planned_from lo c \<Longrightarrow> planned_from lo (snd (cancelAll c))"
  "planned_from lo c \<Longrightarrow> steady_period date lo hi \<Longrightarrow> lo \<le> epochSeconds now \<Longrightarrow>
     planned_from lo (snd (refreshAllSchedules date now c))"
  "planned_from lo c \<Longrightarrow> planned_from lo (setMinValidUnixSeconds v c)"
  "planned_from lo c \<Longrightarrow> planned_from lo (snd (nextDueEpoch c))"
  by (auto simp: cancelJob_def pauseJob_def resumeJob_def cancelAll_def refreshAllSchedules_def setMinValidUnixSeconds_def
      nextDueEpoch_def Let_def case_prod_unfold split: sum.splits
      intro!: planned_cancel_slot planned_clearScheduling planned_queueScheduling planned_cancel_loop planned_refresh_loop
        planned_prune planned_like)

text \<open>
  A new job in a slot that still waits in the list of pending requests is planned from its
  \<^verbatim>\<open>scheduleFromUtc\<close>, which is the epoch: with jobs being added, no later \<open>lo\<close> is kept.
\<close>

lemma planned_place_job:
  assumes "planned_from lo c" "recurs_from lo True r" "place_job r c = (pl, c')"
  shows "planned_from lo c'"
proof (cases "arr_empty (core_freeSlots c)")
  case True
  obtain ok js h where p: "pushBack r (core_jobs c) (core_heap c) = (ok, js, h)" by (metis prod_cases3)
  then have c': "c' = c\<lparr>core_jobs := js, core_heap := h\<rparr>" using assms(3) True by (auto simp: place_job_def Let_def split: if_splits)
  have rec: "recurs_from lo b r" for b using assms(2) by (auto simp: recurs_from_def)
  show ?thesis
    using p unfolding c'
    by (cases rule: pushBack_cases)
      (use assms(1) rec in \<open>auto simp: planned_from_def job_at_def job_count_def arr_defs pend_set_def nth_append less_Suc_eq\<close>)
next
  case False
  define s where "s = arr_at (core_freeSlots c) (arr_size (core_freeSlots c) - 1)"
  have "c' = set_job s (r\<lparr>jr_generation := jr_generation (job_at c s)\<rparr>) (c\<lparr>core_freeSlots := popBack (core_freeSlots c)\<rparr>)"
    using assms(3) False by (auto simp: place_job_def Let_def s_def job_at_def)
  moreover have "planned_from lo (c\<lparr>core_freeSlots := popBack (core_freeSlots c)\<rparr>)"
    using assms(1) by (simp add: planned_from_def)
  ultimately show ?thesis using assms(2) by (auto simp: recurs_from_def one_shot_def intro!: planned_set_job)
qed

lemma planned_register_job: "planned_from lo (snd (register_job s c)) \<longleftrightarrow> planned_from lo c"
  by (simp add: register_job_def Let_def case_prod_unfold planned_from_def job_at_def job_count_def pend_set_def)

lemma planned_schedule_new:
  "planned_from lo c \<Longrightarrow> lo \<le> epochSeconds now \<Longrightarrow> planned_from lo (snd (schedule_new prime now s c))"
  by (simp add: schedule_new_def planned_push_or_clear planned_queueScheduling)

lemma planned_unplace_job:
  assumes "planned_from lo c" "lo \<le> 0"
  shows "planned_from lo (unplace_job s reused c)"
proof (cases reused)
  case None
  have "recurs_from lo (u \<in> pend_set c) (job_at c u)" if "u < job_count c - 1" for u
    using planned_fromD [OF assms(1), of u] that by simp
  then show ?thesis
    using None by (auto simp: unplace_job_def planned_from_def job_at_def job_count_def pend_set_def arr_defs nth_butlast Let_def)
next
  case (Some g)
  have "recurs_from lo b ((newJobRecord p)\<lparr>jr_generation := g\<rparr>)" for b p
    using assms(2) by (simp add: recurs_from_def newJobRecord_def epochDate_def)
  then show ?thesis
    using Some assms(1) by (auto simp: unplace_job_def Let_def case_prod_unfold intro!: planned_set_job)
qed

lemma planned_install_job:
  assumes "planned_from lo c" "lo \<le> 0" "lo \<le> epochSeconds now" "recurs_from lo True r"
  shows "planned_from lo (snd (install_job prime now r c))"
proof -
  obtain pl c1 where p: "place_job r c = (pl, c1)" by fastforce
  have 1: "planned_from lo c1" using planned_place_job [OF assms(1,4) p] .
  show ?thesis
  proof (cases pl)
    case None
    then show ?thesis using p 1 by (simp add: install_job_def)
  next
    case (Some sr)
    obtain s reused where sr: "sr = (s, reused)" by fastforce
    have 2: "planned_from lo (snd (register_job s c1))" using 1 by (simp add: planned_register_job)
    show ?thesis
      using p Some sr planned_unplace_job [OF 2 assms(2)] planned_schedule_new [OF 2 assms(3)]
        planned_unplace_job [OF planned_schedule_new [OF 2 assms(3)] assms(2)]
      by (simp add: install_job_def Let_def case_prod_unfold)
  qed
qed

lemma planned_addJob [planned_intros]:
  assumes "steady_period date lo hi" "planned_from lo c" "lo \<le> 0" "lo \<le> epochSeconds now"
  shows "planned_from lo (snd (addJob date spec opts cb now c))"
proof -
  have "recurs_from lo True r" "recurs_from lo True (snd (computeNextForJob date r now))"
    if "jr_scheduleFromUtc r = epochDate" "\<not> jr_hasNext r" for r
  proof -
    show r: "recurs_from lo True r" using that assms(3) by (simp add: recurs_from_def epochDate_def)
    show "recurs_from lo True (snd (computeNextForJob date r now))"
      by (rule computeNextForJob_recurs [OF assms(1) _ recurs_from_cleared [OF r]]) (simp add: assms(4))
  qed
  note rec = this
  have frame: "planned_from lo (c\<lparr>core_nextId := n\<rparr>)" "planned_from lo (c\<lparr>core_nextId := n, core_heap := h\<rparr>)" for n h
    using assms(2) by (simp_all add: planned_from_def job_at_def job_count_def pend_set_def)
  have base: "jr_scheduleFromUtc (job_record_for spec opts cb c) = epochDate" "\<not> jr_hasNext (job_record_for spec opts cb c)"
    by (simp_all add: job_record_for_def newJobRecord_def)
  show ?thesis
    using frame base assms(2)
    by (auto simp: addJob_def Let_def case_prod_unfold split: option.splits
        intro!: planned_install_job [OF _ assms(3,4)] rec)
qed

end
