(* ===== verification/Dispatch_Safety.thy ===== *)
theory Dispatch_Safety
  imports Dispatch_Progress
begin

text \<open>
  What dispatching does to the outside and to the job it concerns: which invocations reach an
  executor, what happens to a job whose submission is refused, and when the core asks to be woken
  next.
\<close>

section \<open>What is submitted\<close>

text \<open>
  A record can only get less urgent while the loop runs: it keeps what an invocation is made of, is
  not un-paused or un-canceled, and is due afterwards only if it was due before.
\<close>

definition is_due :: "DateTime \<Rightarrow> JobRecord \<Rightarrow> bool" where
  "is_due now r \<longleftrightarrow> jr_hasNext r \<and> epochSeconds (jr_nextRunUtc r) \<le> epochSeconds now"

definition evolves :: "DateTime \<Rightarrow> JobRecord \<Rightarrow> JobRecord \<Rightarrow> bool" where
  "evolves now r r' \<longleftrightarrow> (jr_occupied r' \<longrightarrow> jr_occupied r \<and> jr_canceled r' = jr_canceled r \<and>
     jr_paused r' = jr_paused r \<and> invocation_of 0 r' = invocation_of 0 r \<and> (is_due now r' \<longrightarrow> is_due now r))"

lemma evolves_refl [simp]: "evolves now r r"
  by (simp add: evolves_def)

lemma evolves_trans: "evolves now r r' \<Longrightarrow> evolves now r' r'' \<Longrightarrow> evolves now r r''"
  by (auto simp: evolves_def)

lemma invocation_of_slot: "invocation_of 0 r' = invocation_of 0 r \<Longrightarrow> invocation_of s r' = invocation_of s r"
  by (simp add: invocation_of_def)

definition table_evolves :: "DateTime \<Rightarrow> SchedulerCore \<Rightarrow> SchedulerCore \<Rightarrow> bool" where
  "table_evolves now c c' \<longleftrightarrow> job_count c' = job_count c \<and> (\<forall>s. evolves now (job_at c s) (job_at c' s))"

lemma table_evolves_refl [simp]: "table_evolves now c c"
  by (simp add: table_evolves_def)

lemma table_evolves_trans [trans]:
  "table_evolves now c c' \<Longrightarrow> table_evolves now c' c'' \<Longrightarrow> table_evolves now c c''"
  by (auto simp: table_evolves_def intro: evolves_trans)

lemma table_evolves_set_job: "evolves now (job_at c s) r \<Longrightarrow> table_evolves now c (set_job s r c)"
  by (simp add: table_evolves_def job_at_set_job)

lemma computeNextForJob_invocation:
  "invocation_of s (snd (computeNextForJob date r t)) = invocation_of s r"
  by (auto simp: invocation_of_def computeNextForJob_def Let_def split: option.splits)

lemma job_count_push_or_clear [simp]: "job_count (push_or_clear s c) = job_count c"
  by (simp add: push_or_clear_def Let_def case_prod_unfold)

lemma push_or_clear_evolves: "table_evolves now c (push_or_clear s c)"
proof -
  have "evolves now (job_at c s) ((job_at c s)\<lparr>jr_hasNext := False\<rparr>)"
    by (simp add: evolves_def is_due_def invocation_of_def)
  then have "evolves now (job_at c t) (job_at (push_or_clear s c) t)" for t
    unfolding job_at_push_or_clear by (auto split: if_split)
  then show ?thesis by (simp add: table_evolves_def)
qed

lemma retry_later_evolves:
  assumes "utc_arithmetic date"
  shows "table_evolves now c (retry_later date now s c)"
proof -
  let ?r = "(job_at c s)\<lparr>jr_hasNext := True, jr_nextRunUtc := addSeconds date now kRetryDelaySeconds\<rparr>"
  have "evolves now (job_at c s) ?r"
    using assms(1) by (simp add: evolves_def is_due_def invocation_of_def utc_arithmetic_simps kRetryDelaySeconds_def)
  from table_evolves_trans [OF table_evolves_set_job [OF this] push_or_clear_evolves]
  show ?thesis unfolding retry_later_def .
qed

lemma plan_slot_evolves:
  assumes "evolves now (job_at c s) r" "jr_occupied r" "is_due now (job_at c s)"
  shows "table_evolves now c (plan_slot date s r t c)"
proof -
  let ?r = "snd (computeNextForJob date r t)"
  have "evolves now (job_at c s) ?r"
    using assms by (simp add: evolves_def computeNextForJob_invocation)
  from table_evolves_set_job [OF this] show ?thesis
    using table_evolves_trans push_or_clear_evolves unfolding plan_slot_def Let_def case_prod_unfold by auto
qed

lemma started_evolves:
  assumes "s < job_count c" "jr_occupied (job_at c s)" "is_due now (job_at c s)"
  shows "table_evolves now c (started date final s c)"
proof -
  let ?r = "(job_at c s)\<lparr>jr_runningCount := jr_runningCount (job_at c s) + 1\<rparr>"
  have e: "evolves now (job_at c s) ?r" "evolves now (job_at c s) (?r\<lparr>jr_hasNext := False\<rparr>)"
    by (auto simp: evolves_def is_due_def invocation_of_def)
  have at: "job_at (set_job s ?r c) s = ?r" using assms(1) by (simp add: job_at_set_job)
  have "table_evolves now (set_job s ?r c)
      (plan_slot date s ?r (addMinutes date (jr_nextRunUtc (job_at c s)) 1) (set_job s ?r c))"
    using assms(2,3) at by (intro plan_slot_evolves) (auto simp: is_due_def)
  then show ?thesis
    using e table_evolves_set_job table_evolves_trans unfolding started_def Let_def
    by (cases "final \<or> one_shot ?r") (simp_all, blast)
qed

lemma queueScheduling_evolves: "table_evolves now c (snd (queueScheduling s t c))"
  by (simp add: queueScheduling_def table_evolves_def job_at_set_job evolves_def is_due_def invocation_of_def
      Let_def split: prod.splits)

lemma job_count_retireJob [simp]: "job_count (retireJob s c) = job_count c"
  by (simp add: retireJob_def Let_def split: prod.splits)

lemma retireJob_evolves: "table_evolves now c (retireJob s c)"
  by (simp add: table_evolves_def) (simp add: retireJob_def job_at_set_job evolves_def Let_def split: prod.splits)

lemma complete_idle_evolves: "table_evolves now c (complete_idle t s c)"
  using queueScheduling_evolves retireJob_evolves table_evolves_trans
  unfolding complete_idle_def Let_def by (smt (verit, best) table_evolves_refl)

lemma less_running_evolves: "evolves now r (less_running r)"
  by (simp add: less_running_def evolves_def is_due_def invocation_of_def)

lemma stop_running_evolves: "table_evolves now c (stop_running s c)"
  unfolding stop_running_def
  by (rule table_evolves_set_job) (simp add: evolves_def is_due_def invocation_of_def)

text \<open>
  One dispatch hands at most the invocation of its own slot to an executor, so whatever that
  submission keeps of the executors' state is kept.
\<close>

definition submits_only :: "'e IExecutorResolver \<Rightarrow> (JobInvocation \<Rightarrow> bool) \<Rightarrow> ('e \<Rightarrow> bool) \<Rightarrow> bool" where
  "submits_only ex ok P \<longleftrightarrow> (\<forall>submit i e. (inlineExecutor ex = Some submit \<or> (\<exists>k. executorFor ex k = Some submit)) \<longrightarrow>
     ok i \<longrightarrow> P e \<longrightarrow> P (snd (submit i e)))"

lemma dispatchOne_submits:
  assumes "frame_inv c" "utc_arithmetic date" "s < job_count c" "ready (job_at c s)" "is_due now (job_at c s)"
    and "submits_only ex ok P" "ok (invocation_of s (job_at c s))" "P e"
  shows "table_evolves now c (fst (dispatchOne date ex now s deferred c e))"
    "P (snd (dispatchOne date ex now s deferred c e))"
proof -
  have wf: "arrays_wf c" using assms(1) by (simp add: frame_inv_def)
  have occ: "jr_occupied (job_at c s)" using assms(4) by (simp add: ready_def)
  note st = started_spec [OF wf assms(3,4), of date]
  note ev = started_evolves [OF assms(3) occ assms(5)]
  have s: "s < job_count (started date f s c)" for f using st(1) [of f] assms(3) by (simp add: local_step_def)
  have hc: "handleCompletion date ex now s (started date f s c) e' =
      (complete_idle now s (set_job s (less_running (job_at (started date f s c) s)) (started date f s c)), e')" for f e'
    using s [of f] st [of f] by (simp add: handleCompletion_quiet)
  have fin: "table_evolves now c (fst (handleCompletion date ex now s (started date f s c) e'))" for f e'
    unfolding hc fst_conv
    by (rule table_evolves_trans [OF table_evolves_trans [OF ev table_evolves_set_job [OF less_running_evolves]]
          complete_idle_evolves])
  have refused: "table_evolves now c (retry_later date now s (stop_running s (started date f s c)))" for f
    by (rule table_evolves_trans [OF table_evolves_trans [OF ev stop_running_evolves] retry_later_evolves [OF assms(2)]])
  show "table_evolves now c (fst (dispatchOne date ex now s deferred c e))"
    using fin refused retry_later_evolves [OF assms(2), of now c s] ev assms(3,4) started_eqs [OF assms(3)]
    by (subst dispatchOne.simps) (auto simp: Let_def ready_def split: option.splits prod.splits)
  have keep: "P (snd (submit (invocation_of s (job_at c s)) e))"
    if "inlineExecutor ex = Some submit \<or> executorFor ex k = Some submit" for submit k
    using assms(6-8) that unfolding submits_only_def by blast
  show "P (snd (dispatchOne date ex now s deferred c e))"
  proof (cases "jr_dispatch (job_at c s) = Inline")
    case True
    show ?thesis
    proof (cases "inlineExecutor ex")
      case (Some submit)
      then have "P (snd (submit (invocation_of s (job_at c s)) e))" using keep by blast
      then show ?thesis
        using True Some assms(3,4) hc started_eqs(1) [OF assms(3), of date]
        by (subst dispatchOne.simps) (simp add: Let_def ready_def case_prod_unfold)
    qed (use True assms(3,4,8) in \<open>subst dispatchOne.simps, simp add: Let_def ready_def\<close>)
  next
    case False
    show ?thesis
    proof (cases "executorFor ex (jr_executorId (job_at c s))")
      case (Some submit)
      then have "P (snd (submit (invocation_of s (job_at c s)) e))" using keep by blast
      then show ?thesis
        using False Some assms(3,4,8)
        by (subst dispatchOne.simps) (simp add: Let_def ready_def case_prod_unfold)
    qed (use False assms(3,4,8) in \<open>subst dispatchOne.simps, simp add: Let_def ready_def\<close>)
  qed
qed

lemma turn_submits:
  assumes "core_inv c" "\<not> dueEmpty (core_dueHeap c)" "validateDueEntry c (dueTop (core_dueHeap c))"
    and "\<not> caught_up now c" "utc_arithmetic date"
    and "submits_only ex ok P" "P e"
    and "\<And>s. s < job_count c \<Longrightarrow> active (job_at c s) \<Longrightarrow> \<not> jr_paused (job_at c s) \<Longrightarrow> is_due now (job_at c s) \<Longrightarrow>
      ok (invocation_of s (job_at c s))"
  shows "table_evolves now c (fst (turn date ex now c e))" "P (snd (turn date ex now c e))"
proof -
  define s where "s = due_slotIndex (dueTop (core_dueHeap c))"
  define c' where "c' = c\<lparr>core_dueHeap := snd (duePop (core_dueHeap c))\<rparr>"
  note p = popped [OF assms(1-3), folded s_def c'_def]
  have at: "job_at c' t = job_at c t" "job_count c' = job_count c" for t by (simp_all add: c'_def)
  have ev: "table_evolves now c c'" by (simp add: table_evolves_def at)
  have due: "is_due now (job_at c s)"
    using assms(3,4) by (auto simp: validateDueEntry_def caught_up_def s_def is_due_def Let_def split: if_splits)
  have put: "table_evolves now c (set_job s r c')" if "evolves now (job_at c' s) r" for r
    using table_evolves_trans [OF ev table_evolves_set_job [OF that]] .
  have quiet: "evolves now (job_at c' s) ((job_at c' s)\<lparr>jr_hasNext := False\<rparr>)"
    "evolves now (job_at c' s) ((job_at c' s)\<lparr>jr_queuedWhileRunning := b, jr_hasNext := False\<rparr>)" for b
    by (simp_all add: evolves_def is_due_def invocation_of_def)
  have run: "table_evolves now c (fst (dispatchOne date ex now s False c' e))"
      "P (snd (dispatchOne date ex now s False c' e))"
    if r: "\<not> jr_paused (job_at c' s)" "\<not> (jr_runningCount (job_at c' s) > 0 \<and> jr_overlap (job_at c' s) \<noteq> AllowParallel)"
  proof -
    have rd: "ready (job_at c' s)" using r p(5-7) by (auto simp: ready_def word_gt_0)
    have h: "is_due now (job_at c' s)" using due by (simp add: at)
    have "ok (invocation_of s (job_at c' s))"
      using assms(8) [of s] due r(1) p(4,6,7) by (simp add: at active_def)
    note d = dispatchOne_submits [OF p(1) assms(5) p(4) rd h assms(6) this assms(7), of False]
    show "table_evolves now c (fst (dispatchOne date ex now s False c' e))" using table_evolves_trans [OF ev d(1)] .
    show "P (snd (dispatchOne date ex now s False c' e))" by (rule d(2))
  qed
  show "table_evolves now c (fst (turn date ex now c e))" "P (snd (turn date ex now c e))"
    unfolding turn_def Let_def s_def [symmetric] c'_def [symmetric] using put quiet run assms(7)
    by (cases "jr_paused (job_at c' s)";
        cases "jr_runningCount (job_at c' s) > 0 \<and> jr_overlap (job_at c' s) \<noteq> AllowParallel";
        simp only: if_True if_False fst_conv snd_conv simp_thms)+
qed

lemma table_evolves_prune: "table_evolves now c (pruneInvalidDueEntries c)"
proof -
  have "pruneInvalidDueEntries c = c\<lparr>core_dueHeap := core_dueHeap (pruneInvalidDueEntries c)\<rparr>"
    using prune_pruned [of c] by blast
  then have "job_at (pruneInvalidDueEntries c) t = job_at c t" "job_count (pruneInvalidDueEntries c) = job_count c" for t
    by (metis job_at_pending_update(3), metis job_at_pending_update(4))
  then show ?thesis by (simp add: table_evolves_def)
qed


definition eligible :: "DateTime \<Rightarrow> SchedulerCore \<Rightarrow> JobInvocation \<Rightarrow> bool" where
  "eligible now c i \<longleftrightarrow> (\<exists>s < job_count c. active (job_at c s) \<and> \<not> jr_paused (job_at c s) \<and>
     is_due now (job_at c s) \<and> i = invocation_of s (job_at c s))"

lemma eligible_evolves:
  assumes "table_evolves now c c'" "eligible now c' i"
  shows "eligible now c i"
proof -
  obtain s where s: "s < job_count c'" "active (job_at c' s)" "\<not> jr_paused (job_at c' s)"
      "is_due now (job_at c' s)" "i = invocation_of s (job_at c' s)"
    using assms(2) unfolding eligible_def by blast
  have e: "evolves now (job_at c s) (job_at c' s)" "job_count c' = job_count c"
    using assms(1) by (auto simp: table_evolves_def)
  have "active (job_at c s)" "\<not> jr_paused (job_at c s)" "is_due now (job_at c s)"
    "invocation_of 0 (job_at c' s) = invocation_of 0 (job_at c s)"
    using s(2-4) e(1) by (simp_all add: evolves_def active_def)
  moreover from this(4) have "i = invocation_of s (job_at c s)" using s(5) invocation_of_slot by metis
  ultimately show ?thesis using s(1) e(2) unfolding eligible_def by metis
qed

lemma dispatch_loop_submits:
  assumes "dispatch_loop date ex now c e = Some (c', e')"
    and "core_inv c" "utc_arithmetic date"
    and "submits_only ex (eligible now c) P" "P e"
  shows "P e'"
proof -
  define ok where "ok = eligible now c"
  have "core_inv c \<longrightarrow> (\<forall>i. eligible now c i \<longrightarrow> ok i) \<longrightarrow> P e \<longrightarrow> P (snd res)"
    if "dispatch_loop date ex now c e = Some res" for res c e
    using that
  proof (induction rule: dispatch_loop_induct)
    case (turn c e res)
    let ?c = "pruneInvalidDueEntries c"
    let ?t = "turn date ex now ?c e"
    have ne: "\<not> dueEmpty (core_dueHeap ?c)" using turn(1) by (simp add: caught_up_def)
    show ?case
    proof (intro impI)
      assume inv: "core_inv c" and okc: "\<forall>i. eligible now c i \<longrightarrow> ok i" and Pe: "P e"
      have inv': "core_inv ?c" using inv by (rule pruneInvalidDueEntries_inv)
      have ok': "eligible now ?c i \<Longrightarrow> ok i" for i using okc eligible_evolves [OF table_evolves_prune] by blast
      have "ok (invocation_of s (job_at ?c s))"
        if "s < job_count ?c" "active (job_at ?c s)" "\<not> jr_paused (job_at ?c s)" "is_due now (job_at ?c s)" for s
        using that ok' unfolding eligible_def by blast
      note t = turn_submits [OF inv' ne prune_valid [OF ne] turn(1) assms(3) assms(4) [folded ok_def] Pe this]
      have "\<forall>i. eligible now (fst ?t) i \<longrightarrow> ok i" using ok' eligible_evolves [OF t(1)] by blast
      then show "P (snd res)" using turn(2) turn_inv [OF inv' ne prune_valid [OF ne], of date ex now e] t(2) by blast
    qed
  qed simp
  from this [OF assms(1)] show ?thesis using assms(2,5) by (simp add: ok_def)
qed

text \<open>
  C5: \<^verbatim>\<open>dispatchDue\<close> submits only invocations it may submit. Whatever the executors keep under the
  submission of eligible invocations (for instance a log of the eligible ones) they keep through
  \<^verbatim>\<open>dispatchDue\<close>: the invocation is made of the record of a job that is neither canceled nor paused
  and whose next run, after the pending requests have been planned, is not later than now.
\<close>

theorem dispatchDue_submits_eligible:
  assumes "utc_arithmetic date" "core_inv c"
    and "dispatchDue date ex now c e = Some (c', e')"
    and "submits_only ex (eligible now (drainPendingSchedules date now c)) P" "P e"
  shows "P e'"
proof (cases "clockValid c now")
  case True
  let ?c = "pruneInvalidDueEntries (drainPendingSchedules date now c)"
  have inv: "core_inv ?c" using assms(2) by (intro inv_intros)
  have "submits_only ex (eligible now ?c) P"
    using assms(4) eligible_evolves [OF table_evolves_prune] unfolding submits_only_def by blast
  then show ?thesis
    using dispatch_loop_submits [OF _ inv assms(1)] True assms(3,5) by (simp add: dispatchDue_def)
qed (use assms(3,5) in \<open>simp add: dispatchDue_def\<close>)

text \<open>An executor that records what it is given and accepts it.\<close>

definition logging :: "JobInvocation list IExecutorResolver" where
  "logging = \<lparr>inlineExecutor = Some (\<lambda>i log. (True, log @ [i])), executorFor = (\<lambda>k. Some (\<lambda>i log. (True, log @ [i])))\<rparr>"

theorem dispatchDue_submits_eligible_witness:
  "\<exists>c' log. dispatchDue utc_date logging \<lparr>epochSeconds = 160\<rparr> sample_core [] = Some (c', log) \<and>
     filter (\<lambda>i. inv_jobId i \<noteq> 1) log = []"
proof -
  let ?now = "\<lparr>epochSeconds = 160\<rparr>"
  obtain c' log where d: "dispatchDue utc_date logging ?now sample_core [] = Some (c', log)"
    using dispatchDue_total [OF utc_date_period sample_core_inv sample_core_planned, of 0 ?now logging "[]"] by auto
  let ?P = "\<lambda>log. filter (\<lambda>i. inv_jobId i \<noteq> 1) log = []"
  have c: "drainPendingSchedules utc_date ?now sample_core = sample_core"
    by (simp add: sample_core_def exec)
  have "inv_jobId i = 1" if "eligible ?now sample_core i" for i
    using that by (auto simp: eligible_def sample_core_simps invocation_of_def)
  then have "submits_only logging (eligible ?now (drainPendingSchedules utc_date ?now sample_core)) ?P"
    unfolding submits_only_def c by (auto simp: logging_def)
  from dispatchDue_submits_eligible [OF utc_date_laws(1) sample_core_inv d this] show ?thesis using d by auto
qed


section \<open>A refused submission\<close>

text \<open>
  C22: when no executor is registered for an asynchronous job or the executor refuses it, the job is
  neither lost nor counted as running: the record is unchanged except that its next run is one
  second from now. It stays without a next run only when the due heap cannot grow. No other job
  changes.
\<close>

theorem refused_submission_retries:
  assumes "core_inv c" "s < job_count c" "ready (job_at c s)" "jr_dispatch (job_at c s) = Async"
    and "case executorFor ex (jr_executorId (job_at c s)) of None \<Rightarrow> True
         | Some submit \<Rightarrow> \<not> fst (submit (invocation_of s (job_at c s)) e)"
  shows "let c' = fst (dispatchOne date ex now s deferred c e);
             planned = (job_at c s)\<lparr>jr_hasNext := True, jr_nextRunUtc := addSeconds date now 1\<rparr>
         in job_at c' s = planned\<lparr>jr_hasNext := fst (duePush (due_entry s planned) (core_dueHeap c) (core_heap c))\<rparr> \<and>
            (\<forall>u. u \<noteq> s \<longrightarrow> job_at c' u = job_at c u) \<and> core_inv c'"
proof -
  let ?r = "(job_at c s)\<lparr>jr_hasNext := True, jr_nextRunUtc := addSeconds date now 1\<rparr>"
  have live: "jr_occupied (job_at c s)" "\<not> jr_canceled (job_at c s)" "\<not> jr_paused (job_at c s)"
    using assms(3) by (auto simp: ready_def)
  have c': "fst (dispatchOne date ex now s deferred c e) = retry_later date now s c"
    using assms(2,4,5) live
    by (subst dispatchOne.simps) (auto simp: Let_def split: option.splits prod.splits)
  obtain ok q h where p: "duePush (due_entry s ?r) (core_dueHeap c) (core_heap c) = (ok, q, h)"
    by (metis prod_cases3)
  have push: "fst (pushDue s ?r (set_job s ?r c)) = ok"
    using live p by (simp add: pushDue_def)
  have "job_at (retry_later date now s c) u = (if u = s then ?r\<lparr>jr_hasNext := ok\<rparr> else job_at c u)" for u
    using assms(2) push unfolding retry_later_def kRetryDelaySeconds_def job_at_push_or_clear
    by (simp add: job_at_set_job)
  moreover have "core_inv (retry_later date now s c)"
    using core_invD(1-3) [OF assms(1)] assms(2,3) live
    by (intro retry_later_spec(1)) (auto simp: ready_def slot_ok_def)
  ultimately show ?thesis unfolding c' Let_def p fst_conv by simp
qed

lemma sample_core2_inv: "core_inv sample_core2"
  unfolding sample_core2_def by (rule addJob_inv [OF sample_core_inv]) (simp add: sample_core_simps)

lemma sample_core2_simps:
  "job_count sample_core2 = 2" "jr_occupied (job_at sample_core2 (Suc 0))" "\<not> jr_canceled (job_at sample_core2 (Suc 0))"
  "\<not> jr_paused (job_at sample_core2 (Suc 0))" "jr_runningCount (job_at sample_core2 (Suc 0)) = 0"
  "jr_dispatch (job_at sample_core2 (Suc 0)) = Async" "jr_nextRunUtc (job_at sample_core2 (Suc 0)) = \<lparr>epochSeconds = 120\<rparr>"
  by (simp_all add: sample_core2_def sample_core_def exec)

theorem refused_submission_retries_witness:
  "jr_nextRunUtc (job_at (fst (dispatchOne utc_date no_executors \<lparr>epochSeconds = 130\<rparr> 1 False sample_core2 ())) 1)
     = \<lparr>epochSeconds = 131\<rparr>"
proof -
  have "ready (job_at sample_core2 1)"
    using core_invD(4) [OF sample_core2_inv, of 1] by (simp add: ready_def sample_core2_simps)
  then show ?thesis
    using refused_submission_retries [OF sample_core2_inv, where s = 1 and ex = no_executors and e = "()"
        and date = utc_date and now = "\<lparr>epochSeconds = 130\<rparr>" and deferred = False]
    by (simp add: sample_core2_simps no_executors_def Let_def utc_date_def fixed_offset_date_def)
qed

section \<open>The next wake-up\<close>

text \<open>
  C23: \<^verbatim>\<open>nextDueEpoch\<close> is the earliest next run of all jobs that have one, although the heap may hold
  stale entries; it leaves every job record as it is.
\<close>

theorem nextDueEpoch_earliest:
  assumes "core_inv c"
  shows "(fst (nextDueEpoch c) = Some t \<longleftrightarrow>
      (\<exists>s < job_count c. jr_hasNext (job_at c s) \<and> epochSeconds (jr_nextRunUtc (job_at c s)) = t) \<and>
      (\<forall>s < job_count c. jr_hasNext (job_at c s) \<longrightarrow> t \<le> epochSeconds (jr_nextRunUtc (job_at c s)))) \<and>
    core_jobs (snd (nextDueEpoch c)) = core_jobs c"
proof
  let ?c = "pruneInvalidDueEntries c" and ?q = "core_dueHeap (pruneInvalidDueEntries c)"
  have e: "?c = c\<lparr>core_dueHeap := ?q\<rparr>" using prune_pruned [of c] by blast
  have at: "job_at ?c s = job_at c s" "job_count ?c = job_count c" for s
    by (metis e job_at_pending_update(3), metis e job_at_pending_update(4))
  have inv: "core_inv ?c" using assms by (rule pruneInvalidDueEntries_inv)
  then have wf: "due_wf ?q" using core_invD(5) by (auto simp: arrays_wf_def)
  have in_q: "due_entry s (job_at c s) \<in># mset (arr_data ?q)" if "s < job_count c" "jr_hasNext (job_at c s)" for s
    using core_invD(3) [OF inv, of s] that by (simp add: at slot_ok_def slot_due_def due_set_def)
  have n: "fst (nextDueEpoch c) = (if dueEmpty ?q then None else Some (due_nextEpoch (dueTop ?q)))"
    by (simp add: nextDueEpoch_def Let_def)
  show "fst (nextDueEpoch c) = Some t \<longleftrightarrow>
      (\<exists>s < job_count c. jr_hasNext (job_at c s) \<and> epochSeconds (jr_nextRunUtc (job_at c s)) = t) \<and>
      (\<forall>s < job_count c. jr_hasNext (job_at c s) \<longrightarrow> t \<le> epochSeconds (jr_nextRunUtc (job_at c s)))"
  proof (cases "dueEmpty ?q")
    case True
    then have "mset (arr_data ?q) = {#}" using dq.isEmpty_iff by blast
    then have "\<not> (s < job_count c \<and> jr_hasNext (job_at c s))" for s using in_q [of s] by auto
    then show ?thesis using n True by auto
  next
    case False
    let ?s = "due_slotIndex (dueTop ?q)"
    have v: "?s < job_count c" "jr_hasNext (job_at c ?s)"
      "epochSeconds (jr_nextRunUtc (job_at c ?s)) = due_nextEpoch (dueTop ?q)"
      using prune_valid [OF False] by (auto simp: validateDueEntry_def at Let_def split: if_splits)
    have low: "due_nextEpoch (dueTop ?q) \<le> epochSeconds (jr_nextRunUtc (job_at c s))"
      if "s < job_count c" "jr_hasNext (job_at c s)" for s
      using dq.top_least [OF wf in_q [OF that]] by (simp add: due_entry_def)
    have "t = due_nextEpoch (dueTop ?q)"
      if "\<exists>s < job_count c. jr_hasNext (job_at c s) \<and> epochSeconds (jr_nextRunUtc (job_at c s)) = t"
        "\<forall>s < job_count c. jr_hasNext (job_at c s) \<longrightarrow> t \<le> epochSeconds (jr_nextRunUtc (job_at c s))"
      using that v low by (metis order_antisym)
    moreover have "fst (nextDueEpoch c) = Some t \<longleftrightarrow> t = due_nextEpoch (dueTop ?q)" using n False by auto
    ultimately show ?thesis using v low by metis
  qed
  show "core_jobs (snd (nextDueEpoch c)) = core_jobs c"
    by (simp add: nextDueEpoch_def Let_def) (metis e SchedulerCore.select_convs(4) SchedulerCore.surjective SchedulerCore.update_convs(8))
qed


theorem nextDueEpoch_earliest_witness:
  "fst (nextDueEpoch sample_core) = Some 100 \<and> core_jobs (snd (nextDueEpoch sample_core)) = core_jobs sample_core"
  using nextDueEpoch_earliest [OF sample_core_inv, of 100] by (simp add: sample_core_simps)

end
