(* ===== verification/Core_Scenarios.thy ===== *)
theory Core_Scenarios
  imports Dispatch_Safety
begin

text \<open>
  Short runs of the core on concrete inputs that show behaviour its comments or its change log do
  not announce.
\<close>

section \<open>Pending requests outlive their job\<close>

text \<open>
  A job is added before the clock is valid, so slot 0 waits in \<^verbatim>\<open>pendingSchedules_\<close>; it is canceled,
  and its slot is taken by a new job once the clock is valid. \<^verbatim>\<open>retireJob\<close> and \<^verbatim>\<open>clearScheduling\<close>
  leave the slot number in the list.
\<close>

definition reused_slot :: SchedulerCore where
  "reused_slot = snd (addJob utc_date every_minute defaultOptions sample_callback \<lparr>epochSeconds = 2000\<rparr>
     (snd (cancelJob 1 sample_waiting)))"

text \<open>
  The new job is planned for the next minute, 2040; the next pass of \<^verbatim>\<open>drainPendingSchedules\<close>
  plans it again, from its \<^verbatim>\<open>scheduleFromUtc\<close> that was never set, and it is due since 1970.
\<close>

lemma stale_pending_slot_replans:
  "jr_id (job_at reused_slot 0) = 2 \<and> \<not> jr_pendingSchedule (job_at reused_slot 0) \<and>
   jr_nextRunUtc (job_at reused_slot 0) = \<lparr>epochSeconds = 2040\<rparr> \<and>
   jr_nextRunUtc (job_at (drainPendingSchedules utc_date \<lparr>epochSeconds = 2000\<rparr> reused_slot) 0) = \<lparr>epochSeconds = 0\<rparr>"
  by (simp add: reused_slot_def sample_waiting_def exec epochDate_def)

text \<open>
  A job that was added at 5, before the clock was valid (from 1000 on), is refreshed and dispatched
  once the clock is valid. The refresh plans it in the future; the pending request then plans it
  again from the time it was added at, so that it catches up every minute since.
\<close>

definition refreshed :: SchedulerCore where
  "refreshed = snd (refreshAllSchedules utc_date \<lparr>epochSeconds = 2000\<rparr> sample_waiting)"

lemma pending_slot_undoes_refresh:
  "jr_nextRunUtc (job_at refreshed 0) = \<lparr>epochSeconds = 2040\<rparr> \<and> \<not> jr_pendingSchedule (job_at refreshed 0) \<and>
   jr_nextRunUtc (job_at (drainPendingSchedules utc_date \<lparr>epochSeconds = 2000\<rparr> refreshed) 0) = \<lparr>epochSeconds = 60\<rparr>"
  by (simp add: refreshed_def refreshAllSchedules_def refresh_slot_def sample_waiting_def exec)

section \<open>A due heap that cannot grow\<close>

text \<open>
  The allocator grants the job table and the index but not the due heap. The job is accepted, has no
  next run and is not queued for another attempt: a later pass of \<^verbatim>\<open>drainPendingSchedules\<close> with
  memory to spare leaves it as it is.
\<close>

definition two_grants :: heap where
  "two_grants = (\<lambda>n. n < 2)"

definition heapless :: "u32 SchedulerResult \<times> SchedulerCore" where
  "heapless = addJob utc_date every_minute defaultOptions sample_callback \<lparr>epochSeconds = 5\<rparr>
     (newCore 200 0 False two_grants)"

lemma refused_due_entry_is_not_retried:
  "fst heapless = Inr 1 \<and> \<not> jr_hasNext (job_at (snd heapless) 0) \<and>
   drainPendingSchedules utc_date \<lparr>epochSeconds = 65\<rparr> (snd heapless\<lparr>core_heap := plenty\<rparr>) =
     snd heapless\<lparr>core_heap := plenty\<rparr>"
  by (simp add: heapless_def two_grants_def exec)

end
