(* ===== verification/Clock_Change.thy ===== *)
theory Clock_Change
  imports Dispatch_Safety
begin

text \<open>
  What happens on a day on which the zone's clock is put forward. \<^verbatim>\<open>computeNextCronOccurrence\<close> compares the
  minutes that have passed since local midnight with the fields of the schedule, and then sets the local time of day to
  those minutes; after the change the two are an hour apart, so the instant that was found is moved idem by an hour. The
  occurrence it returns may then lie before the instant it was asked from, and \<^verbatim>\<open>dispatchDue\<close> plans the same run
  again and again. The theorems that a pass ends therefore require a clock that is not changed.
\<close>

section \<open>What a dispatch leaves alone\<close>

lemma plan_slot_others: "t \<noteq> s \<Longrightarrow> job_at (plan_slot date s r d c) t = job_at c t"
  by (simp add: plan_slot_def Let_def case_prod_unfold job_at_push_or_clear job_at_set_job)

lemma started_others: "t \<noteq> s \<Longrightarrow> job_at (started date final s c) t = job_at c t"
  by (simp add: started_def Let_def plan_slot_others job_at_set_job)

lemma retry_later_others: "t \<noteq> s \<Longrightarrow> job_at (retry_later date now s c) t = job_at c t"
  by (simp add: retry_later_def job_at_push_or_clear job_at_set_job)

lemma queueScheduling_others: "t \<noteq> s \<Longrightarrow> job_at (snd (queueScheduling s d c)) t = job_at c t"
  by (simp add: queueScheduling_def Let_def case_prod_unfold job_at_set_job)

lemma retireJob_others: "t \<noteq> s \<Longrightarrow> job_at (retireJob s c) t = job_at c t"
  by (simp add: retireJob_def Let_def case_prod_unfold job_at_def set_job_def arr_defs)

lemma complete_idle_others: "t \<noteq> s \<Longrightarrow> job_at (complete_idle now s c) t = job_at c t"
  by (simp add: complete_idle_def Let_def retireJob_others queueScheduling_others)

lemmas others = plan_slot_others started_others retry_later_others complete_idle_others job_at_set_job stop_running_def

lemma dispatchOne_others:
  assumes "arrays_wf c" "s < job_count c" "ready (job_at c s)" "t \<noteq> s"
  shows "job_at (fst (dispatchOne date ex now s deferred c e)) t = job_at c t"
proof -
  note st = started_spec [OF assms(1-3), of date]
  have "s < job_count (started date f s c)" for f using st(1) [of f] assms(2) by (simp add: local_step_def)
  then have "job_at (fst (handleCompletion date ex now s (started date f s c) e')) t = job_at c t" for f e'
    using st [of f] assms(4) by (simp add: handleCompletion_quiet others)
  then show ?thesis
    using assms(2-4) started_eqs [OF assms(2)]
    by (subst dispatchOne.simps) (auto simp: Let_def ready_def others split: option.split prod.split)
qed

lemma turn_others:
  assumes "core_inv c" "\<not> dueEmpty (core_dueHeap c)" "validateDueEntry c (dueTop (core_dueHeap c))"
    and "t \<noteq> due_slotIndex (dueTop (core_dueHeap c))"
  shows "job_at (fst (turn date ex now c e)) t = job_at c t"
proof -
  define s where "s = due_slotIndex (dueTop (core_dueHeap c))"
  define c' where "c' = c\<lparr>core_dueHeap := snd (duePop (core_dueHeap c))\<rparr>"
  note p = popped [OF assms(1-3), folded s_def c'_def]
  have at: "job_at c' u = job_at c u" for u by (simp add: c'_def job_at_def)
  have wf: "arrays_wf c'" using p(1) by (simp add: frame_inv_def)
  have ne: "t \<noteq> s" using assms(4) by (simp add: s_def)
  have "job_at (fst (dispatchOne date ex now s False c' e)) t = job_at c t"
    if "\<not> jr_paused (job_at c' s)" "\<not> (jr_runningCount (job_at c' s) > 0 \<and> jr_overlap (job_at c' s) \<noteq> AllowParallel)"
  proof -
    have "ready (job_at c' s)" using that p(5-7) by (auto simp: ready_def word_gt_0)
    then show ?thesis using dispatchOne_others [OF wf p(4) _ ne] at by simp
  qed
  moreover have "job_at (set_job s r c') t = job_at c t" for r using ne at by (simp add: job_at_set_job)
  ultimately show ?thesis
    unfolding turn_def Let_def s_def [symmetric] c'_def [symmetric]
    by (cases "jr_paused (job_at c' s)";
        cases "jr_runningCount (job_at c' s) > 0 \<and> jr_overlap (job_at c' s) \<noteq> AllowParallel")
      (simp_all only: if_True if_False fst_conv simp_thms)
qed

section \<open>A run that is planned again and again\<close>

text \<open>
  An inline job that is due, and whose next occurrence after its next run is that same run.
\<close>

definition looping :: "ESPDate \<Rightarrow> DateTime \<Rightarrow> JobRecord \<Rightarrow> bool" where
  "looping date now r \<longleftrightarrow> ready r \<and> jr_dispatch r = Inline \<and> \<not> one_shot r \<and> jr_hasNext r \<and>
     epochSeconds (jr_nextRunUtc r) \<le> epochSeconds now \<and>
     computeNext date (jr_schedule r) (addMinutes date (jr_nextRunUtc r) 1) = Some (jr_nextRunUtc r)"

lemma looping_idle: "looping date now r \<Longrightarrow> jr_runningCount r = 0 \<and> \<not> jr_paused r \<and> \<not> jr_refreshPending r"
  by (auto simp: looping_def ready_def slot_flags_def)

text \<open>Taking an entry out of the heap makes room for the one that is put idem.\<close>

lemma push_after_pop:
  assumes "due_wf q" "\<not> dueEmpty q"
  shows "fst (duePush x (snd (duePop q)) h)"
proof -
  have "size (mset (arr_data q)) = Suc (size (mset (arr_data (snd (duePop q)))))"
    using conjunct2 [OF dq.pop_rest [OF assms]] by (metis size_add_mset)
  moreover have "arr_capacity (snd (duePop q)) = arr_capacity q" by (simp add: duePop_def Let_def)
  ultimately have "arr_size (snd (duePop q)) < arr_capacity (snd (duePop q))"
    using assms(1) by (simp add: due_wf_def arr_wf_def arr_size_def)
  then show ?thesis by (simp add: duePush_def pushBack_within_capacity)
qed

lemma looping_started:
  assumes "s < job_count c" "looping date now (job_at c s)"
    and "\<And>x. fst (duePush x (core_dueHeap c) (core_heap c))"
  shows "job_at (started date False s c) s = (job_at c s)\<lparr>jr_runningCount := 1\<rparr>"
proof -
  let ?r = "(job_at c s)\<lparr>jr_runningCount := 1\<rparr>"
  have r: "jr_occupied ?r" "\<not> jr_canceled ?r" "\<not> jr_paused ?r" "\<not> one_shot ?r"
    "computeNext date (jr_schedule ?r) (addMinutes date (jr_nextRunUtc ?r) 1) = Some (jr_nextRunUtc ?r)"
    using assms(2) by (auto simp: looping_def ready_def one_shot_def)
  have "computeNextForJob date ?r (addMinutes date (jr_nextRunUtc ?r) 1) =
      (True, ?r\<lparr>jr_refreshPending := False, jr_nextRunUtc := jr_nextRunUtc ?r, jr_hasNext := True\<rparr>)"
    using r by (simp add: computeNextForJob_def Let_def one_shot_def)
  also have "?r\<lparr>jr_refreshPending := False, jr_nextRunUtc := jr_nextRunUtc ?r, jr_hasNext := True\<rparr> = ?r"
    using looping_idle [OF assms(2)] assms(2) by (simp add: looping_def)
  finally have n: "computeNextForJob date ?r (addMinutes date (jr_nextRunUtc (job_at c s)) 1) = (True, ?r)" by simp
  have at: "job_at (set_job s ?r (set_job s ?r c)) s = ?r" using assms(1) by (simp add: job_at_set_job)
  have "fst (pushDue s ?r (set_job s ?r (set_job s ?r c)))"
    using assms(3) by (simp add: pushDue_def case_prod_unfold Let_def)
  then have "job_at (push_or_clear s (set_job s ?r (set_job s ?r c))) s = ?r"
    using at by (simp add: job_at_push_or_clear)
  then show ?thesis
    using looping_idle [OF assms(2)] r(4) n
    by (simp add: started_def plan_slot_def Let_def)
qed

lemma looping_turn:
  assumes "core_inv c" "\<not> dueEmpty (core_dueHeap c)" "validateDueEntry c (dueTop (core_dueHeap c))"
    and "s < job_count c" "looping date now (job_at c s)"
    and "inlineExecutor ex = Some submit" "\<And>i e. fst (submit i e)"
  shows "job_at (fst (turn date ex now c e)) s = job_at c s"
proof (cases "s = due_slotIndex (dueTop (core_dueHeap c))")
  case True
  define c' where "c' = c\<lparr>core_dueHeap := snd (duePop (core_dueHeap c))\<rparr>"
  note p = popped [OF assms(1-3), folded True c'_def]
  have at: "job_at c' s = job_at c s" by (simp add: c'_def job_at_def)
  have wf: "arrays_wf c'" using p(1) by (simp add: frame_inv_def)
  have rd: "ready (job_at c' s)" "jr_dispatch (job_at c' s) = Inline" using assms(5) by (simp_all add: at looping_def)
  note idle = looping_idle [OF assms(5)]
  have idem: "(job_at c s)\<lparr>jr_runningCount := 0\<rparr> = job_at c s" using idle by simp
  have "due_wf (core_dueHeap c)" using core_invD(5) [OF assms(1)] by (simp add: arrays_wf_def)
  then have run: "job_at (started date False s c') s = (job_at c s)\<lparr>jr_runningCount := 1\<rparr>"
    using looping_started [OF p(4), of date now] assms(2,5) push_after_pop at by (simp add: c'_def)
  have cnt: "s < job_count (started date False s c')"
    using started_spec(1) [OF wf p(4) rd(1), of date False] p(4) by (simp add: local_step_def)
  obtain e' where "submit (invocation_of s (job_at c' s)) e = (True, e')" using assms(7) by (metis prod.collapse)
  then have "fst (dispatchOne date ex now s False c' e) =
      fst (handleCompletion date ex now s (started date False s c') e')"
    using rd assms(6) p(4) started_eqs(1) [OF p(4)] by (subst dispatchOne.simps) (simp add: Let_def ready_def)
  moreover have "fst (handleCompletion date ex now s (started date False s c') e') =
      complete_idle now s (set_job s (job_at c s) (started date False s c'))"
    using cnt idle rd(1) ready_quiet [OF rd(1)] by (simp add: idem handleCompletion_quiet run at ready_def less_running_def)
  moreover have "complete_idle now s (set_job s (job_at c s) (started date False s c')) =
      set_job s (job_at c s) (started date False s c')"
    using assms(5) cnt by (simp add: complete_idle_def Let_def job_at_set_job looping_def)
  ultimately have "job_at (fst (dispatchOne date ex now s False c' e)) s = job_at c s"
    using cnt by (simp add: job_at_set_job)
  then show ?thesis
    using idle unfolding turn_def Let_def True [symmetric] c'_def [symmetric] by (simp add: at)
qed (rule turn_others [OF assms(1-3)])

lemma drain_one_others: "t \<noteq> s \<Longrightarrow> job_at (drain_one date s c) t = job_at c t"
  by (simp add: drain_one_def Let_def plan_slot_others job_at_set_job)

lemma drain_loop_others: "t \<notin> pend_set c \<Longrightarrow> job_at (drain_loop date c) t = job_at c t"
proof (induction date c rule: drain_loop.induct)
  case (1 date c)
  let ?p = "core_pendingSchedules c"
  let ?s = "arr_at ?p (arr_size ?p - 1)" and ?c = "c\<lparr>core_pendingSchedules := popBack ?p\<rparr>"
  show ?case
  proof (cases "arr_empty ?p")
    case False
    then have "?s \<in> pend_set c" by (auto simp: pend_set_def arr_defs last_conv_nth [symmetric])
    then have "t \<noteq> ?s" using 1(2) by blast
    moreover have "t \<notin> pend_set (drain_one date ?s ?c)" using 1(2) by (auto simp: pend_set_def dest: in_set_butlastD)
    ultimately have "job_at (drain_loop date (drain_one date ?s ?c)) t = job_at ?c t"
      using 1(1) [OF False refl refl] by (simp add: drain_one_others)
    then show ?thesis using False by (subst drain_loop.simps) (simp add: Let_def job_at_def)
  qed (simp add: drain_loop.simps)
qed

lemma job_count_drain_loop: "job_count (drain_loop date c) = job_count c"
proof (induction date c rule: drain_loop.induct)
  case (1 date c)
  let ?p = "core_pendingSchedules c"
  let ?s = "arr_at ?p (arr_size ?p - 1)" and ?c = "c\<lparr>core_pendingSchedules := popBack ?p\<rparr>"
  have "job_count (drain_one date ?s ?c) = job_count c"
    by (simp add: drain_one_def plan_slot_def Let_def case_prod_unfold)
  then show ?case using 1 [OF _ refl refl] by (subst drain_loop.simps) (simp add: Let_def)
qed

lemma prune_jobs: "job_at (pruneInvalidDueEntries c) s = job_at c s" "job_count (pruneInvalidDueEntries c) = job_count c"
proof -
  have e: "pruneInvalidDueEntries c = c\<lparr>core_dueHeap := core_dueHeap (pruneInvalidDueEntries c)\<rparr>"
    using prune_pruned [of c] by blast
  show "job_at (pruneInvalidDueEntries c) s = job_at c s" by (subst e) (simp add: job_at_def)
  show "job_count (pruneInvalidDueEntries c) = job_count c" by (subst e) (simp add: job_count_def)
qed

text \<open>The loop cannot stop while the job is due, and no round makes it anything else.\<close>

lemma dispatch_loop_hangs:
  assumes "core_inv c" "s < job_count c" "looping date now (job_at c s)"
    and "inlineExecutor ex = Some submit" "\<And>i e. fst (submit i e)" "utc_arithmetic date"
  shows "dispatch_loop date ex now c e = None"
proof (rule ccontr)
  assume "dispatch_loop date ex now c e \<noteq> None"
  then obtain res where "dispatch_loop date ex now c e = Some res" by blast
  then have "\<not> (core_inv c \<and> s < job_count c \<and> looping date now (job_at c s))"
  proof (induction rule: dispatch_loop_induct)
    case (stop c e)
    let ?c = "pruneInvalidDueEntries c"
    show ?case
      using caught_up_future [OF _ stop, of s] pruneInvalidDueEntries_inv [of c] prune_jobs [of c]
      by (auto simp: looping_def)
  next
    case (turn c e res)
    let ?c = "pruneInvalidDueEntries c"
    have ne: "\<not> dueEmpty (core_dueHeap ?c)" using turn(1) by (simp add: caught_up_def)
    show ?case
    proof
      assume a: "core_inv c \<and> s < job_count c \<and> looping date now (job_at c s)"
      then have inv: "core_inv ?c" by (simp add: pruneInvalidDueEntries_inv)
      have "job_at (fst (turn date ex now ?c e)) s = job_at ?c s"
        using looping_turn [OF inv ne prune_valid [OF ne], of s date now ex submit e] a assms(4,5) prune_jobs [of c] by simp
      moreover have "core_inv (fst (turn date ex now ?c e))" using turn_inv [OF inv ne prune_valid [OF ne]] .
      moreover have "table_evolves now ?c (fst (turn date ex now ?c e))"
        using turn_submits(1) [OF inv ne prune_valid [OF ne] turn(1) assms(6), of ex "\<lambda>i. True" "\<lambda>e. True" e]
        by (simp add: submits_only_def)
      then have "job_count (fst (turn date ex now ?c e)) = job_count ?c" by (simp add: table_evolves_def)
      ultimately show False using turn(2) a prune_jobs [of c] by simp
    qed
  qed
  then show False using assms(1-3) by blast
qed

lemma dispatchDue_hangs:
  assumes "core_inv c" "clockValid c now" "s < job_count c" "s \<notin> set (arr_data (core_pendingSchedules c))"
    and "looping date now (job_at c s)" "inlineExecutor ex = Some submit" "\<And>i e. fst (submit i e)"
    and "utc_arithmetic date"
  shows "dispatchDue date ex now c e = None"
proof -
  let ?c = "pruneInvalidDueEntries (drainPendingSchedules date now c)"
  have "job_at ?c s = job_at c s" "job_count ?c = job_count c"
    using drain_loop_others [of s c date] assms(2,4) job_count_drain_loop
    by (simp_all add: prune_jobs drainPendingSchedules_def pend_set_def)
  moreover have "core_inv ?c" using assms(1) by (intro inv_intros)
  ultimately show ?thesis
    using dispatch_loop_hangs [of ?c s date now ex submit e] assms by (simp add: dispatchDue_def)
qed

section \<open>The day of the change\<close>

text \<open>
  The day \<open>n\<close> begins before the change, at \<open>midnight\<close>. A daily schedule for \<open>h\<close> hours \<open>m\<close>, after the change, is found
  that many minutes after midnight, which is an hour after the time of day it names.
\<close>

lemma day_of_change:
  assumes "n * 86400 - 3600 < change" "n * 86400 - 3600 \<le> v" "v < n * 86400 + 79200"
  shows "zone_days change \<lparr>epochSeconds = v\<rparr> = n"
    "local_minutes (summer_time_date change) \<lparr>epochSeconds = v\<rparr> = (v - (n * 86400 - 3600)) div 60"
proof -
  have "(v + z) div 86400 = n" if "3600 \<le> z" "z \<le> 7200" for z
    using assms(2,3) that by (intro int_div_pos_eq [where r = "v + z - n * 86400"]) simp_all
  then show d: "zone_days change \<lparr>epochSeconds = v\<rparr> = n" by (simp add: zone_days_def zone_offset_def)
  show "local_minutes (summer_time_date change) \<lparr>epochSeconds = v\<rparr> = (v - (n * 86400 - 3600)) div 60"
    using assms(1) by (simp add: local_minutes_def summer_time_date_def fixed_offset_date_def d zone_instant_def)
qed

lemma hours_minutes:
  assumes "0 \<le> m" "m \<le> 59" "w mod 60 = (0 :: int)"
  shows "w div 60 mod 60 = m \<and> w div 60 div 60 = h \<longleftrightarrow> w = h * 3600 + m * 60"
proof -
  have w: "w = w div 60 * 60" "w div 60 = w div 60 div 60 * 60 + w div 60 mod 60"
    using div_mult_mod_eq [of w 60] assms(3) by simp_all
  have hm: "(h * 60 + m) div 60 = h" "(h * 60 + m) mod 60 = m" using assms(1,2) by simp_all
  show ?thesis
  proof
    assume "w div 60 mod 60 = m \<and> w div 60 div 60 = h"
    then show "w = h * 3600 + m * 60" using w by linarith
  next
    assume "w = h * 3600 + m * 60"
    then have "w div 60 = h * 60 + m" using w(1) by linarith
    then show "w div 60 mod 60 = m \<and> w div 60 div 60 = h" using hm by simp
  qed
qed

lemma daily_matches:
  assumes "n * 86400 - 3600 < change" "n * 86400 - 3600 \<le> v" "v < n * 86400 + 79200" "v mod 60 = 0"
    and "0 \<le> h" "h \<le> 22" "0 \<le> m" "m \<le> 59"
  shows "cron_matches (summer_time_date change) (dailyAtLocal h m) \<lparr>epochSeconds = v\<rparr> \<longleftrightarrow>
    v = n * 86400 - 3600 + h * 3600 + m * 60"
proof -
  let ?w = "v - (n * 86400 - 3600)"
  have "(n * 86400 - 3600) mod 60 = (0 :: int)" using mod_mult_self1_is_0 [of 60 "n * 1440 - 60"] by (simp add: algebra_simps)
  then have "?w mod 60 = 0" using assms(4) by (metis mod_diff_eq diff_0_right mod_0)
  note hm = hours_minutes [OF assms(7,8) this, of h]
  have fields: "sf_matches (sp_minute (dailyAtLocal h m)) x \<longleftrightarrow> x = m" "sf_matches (sp_hour (dailyAtLocal h m)) x \<longleftrightarrow> x = h"
    "sf_isAny (sp_dayOfMonth (dailyAtLocal h m))" "sf_matches (sp_dayOfMonth (dailyAtLocal h m)) x"
    "sf_matches (sp_dayOfWeek (dailyAtLocal h m)) x" "sf_matches (sp_month (dailyAtLocal h m)) x" for x
    using assms(5-8) by (auto simp: dailyAtLocal_def defaultSpec_def sf_matches_only)
  have "0 \<le> ?w div 60" using assms(2) by (simp add: pos_imp_zdiv_nonneg_iff)
  then have "cron_matches (summer_time_date change) (dailyAtLocal h m) \<lparr>epochSeconds = v\<rparr> \<longleftrightarrow>
      ?w div 60 mod 60 = m \<and> ?w div 60 div 60 = h"
    using day_of_change(2) [OF assms(1-3)] by (simp add: cron_matches_def fields Let_def local_minutes_def)
  then show ?thesis using hm by auto
qed

text \<open>Asked on this day, up to an hour after the run, the calculator finds the run itself.\<close>

lemma daily_goes_backwards:
  fixes n h m change from_s :: int
  defines "due \<equiv> n * 86400 - 7200 + h * 3600 + m * 60"
  assumes "n * 86400 - 3600 < change" "change \<le> due + 3600" "1 \<le> h" "h \<le> 22" "0 \<le> m" "m \<le> 59"
    and "n * 86400 - 3600 \<le> from_s" "from_s \<le> due + 3600"
  shows "computeNext (summer_time_date change) (dailyAtLocal h m) \<lparr>epochSeconds = from_s\<rparr> = Some \<lparr>epochSeconds = due\<rparr>"
proof -
  let ?date = "summer_time_date change" and ?u = "\<lparr>epochSeconds = due + 3600\<rparr>"
  let ?c = "roundToNextMinute ?date \<lparr>epochSeconds = from_s\<rparr>"
  note b = roundToNextMinute_bounds [OF summer_time_utc_arithmetic [of change], where d = "\<lparr>epochSeconds = from_s\<rparr>"]
  have minute: "(due + 3600) mod 60 = 0"
    using mod_mult_self1_is_0 [of 60 "n * 1440 - 60 + h * 60 + m"] by (simp add: due_def algebra_simps)
  have match: "cron_matches ?date (dailyAtLocal h m) v \<longleftrightarrow> epochSeconds v = due + 3600"
    if "epochSeconds v mod 60 = 0" "from_s \<le> epochSeconds v" "epochSeconds v \<le> due + 3600" for v
    using daily_matches [of n change "epochSeconds v" h m] assms that by (cases v) auto
  have "first_hit (cron_matches ?date (dailyAtLocal h m)) (\<lambda>i. \<lparr>epochSeconds = epochSeconds ?c + 60 * int i\<rparr>)
      kMaxSearchMinutes ?u"
    unfolding first_hit_minutes [OF b(1)]
  proof (intro conjI allI impI)
    show "epochSeconds ?c \<le> epochSeconds ?u" using b(3) [of "due + 3600"] minute assms(9) by simp
    show "epochSeconds ?u < epochSeconds ?c + 60 * int kMaxSearchMinutes"
      using b(2) assms(2,5,7,8) by (simp add: kMaxSearchMinutes_def due_def)
    show "\<not> cron_matches ?date (dailyAtLocal h m) v"
      if "epochSeconds v mod 60 = 0 \<and> epochSeconds ?c \<le> epochSeconds v \<and> epochSeconds v < epochSeconds ?u" for v
      using match [of v] that b(2) by simp
  qed (use minute match assms(9) in auto)
  moreover have "clock_reading ?date ?u = \<lparr>epochSeconds = due\<rparr>"
    using summer_time_reading [of ?u change] minute assms(2,3) day_of_change(1) [of n change "due + 3600"] assms(4-7)
    by (intro DateTime_eqI) (simp add: due_def)
  moreover have "resolvedScheduleKind (dailyAtLocal h m) = Cron" by (simp add: resolvedScheduleKind_def dailyAtLocal_def defaultSpec_def)
  ultimately show ?thesis
    using cron_loop_iff [OF summer_time_utc_arithmetic] by (simp add: computeNext_def computeNextCronOccurrence_def) blast
qed

text \<open>
  C30: on the day on which the clock is put forward, a daily job that runs inline never lets \<^verbatim>\<open>dispatchDue\<close> return. Let the
  day \<open>n\<close> begin in winter time and \<open>h:m\<close> be a time of that day in summer time, before 23:00. The occurrence the calculator
  finds from a minute after that run is the same run. So once such a job is due, every core in order, whatever other jobs it
  has, dispatches it for ever: no value is returned.
\<close>

theorem spring_forward_hangs:
  fixes n h m change :: int
  assumes "n * 86400 - 3600 < change" "change \<le> n * 86400 - 7200 + h * 3600 + m * 60" "1 \<le> h" "h \<le> 22" "0 \<le> m" "m \<le> 59"
    and "core_inv c" "clockValid c now" "s < job_count c" "s \<notin> set (arr_data (core_pendingSchedules c))"
    and "jr_occupied (job_at c s)" "\<not> jr_canceled (job_at c s)" "\<not> jr_paused (job_at c s)"
    and "jr_dispatch (job_at c s) = Inline" "jr_schedule (job_at c s) = dailyAtLocal h m" "jr_hasNext (job_at c s)"
    and "jr_nextRunUtc (job_at c s) = \<lparr>epochSeconds = n * 86400 - 7200 + h * 3600 + m * 60\<rparr>"
    and "n * 86400 - 7200 + h * 3600 + m * 60 \<le> epochSeconds now"
    and "inlineExecutor ex = Some submit" "\<And>i e. fst (submit i e)"
  shows "computeNext (summer_time_date change) (dailyAtLocal h m)
      (addMinutes (summer_time_date change) \<lparr>epochSeconds = n * 86400 - 7200 + h * 3600 + m * 60\<rparr> 1) =
      Some \<lparr>epochSeconds = n * 86400 - 7200 + h * 3600 + m * 60\<rparr> \<and>
    dispatchDue (summer_time_date change) ex now c e = None"
proof -
  let ?date = "summer_time_date change" and ?due = "\<lparr>epochSeconds = n * 86400 - 7200 + h * 3600 + m * 60\<rparr>"
  have "addMinutes ?date ?due 1 = \<lparr>epochSeconds = n * 86400 - 7200 + h * 3600 + m * 60 + 60\<rparr>"
    by (rule DateTime_eqI) (simp add: utc_arithmetic_simps [OF summer_time_utc_arithmetic])
  then have again: "computeNext ?date (dailyAtLocal h m) (addMinutes ?date ?due 1) = Some ?due"
    using daily_goes_backwards [of n change h m "n * 86400 - 7200 + h * 3600 + m * 60 + 60"] assms(1-6) by simp
  have flags: "slot_flags (job_at c s)" using core_invD(3) [OF assms(7,9)] by (simp add: slot_ok_def)
  then have "ready (job_at c s)" using assms(11-14) by (auto simp: ready_def slot_flags_def)
  moreover have "\<not> one_shot (job_at c s)" using assms(15) by (simp add: one_shot_def dailyAtLocal_def defaultSpec_def)
  ultimately have "looping ?date now (job_at c s)" using assms(14-18) again by (simp add: looping_def)
  then show ?thesis
    using again dispatchDue_hangs [OF assms(7-10) _ assms(19,20) summer_time_utc_arithmetic] by blast
qed

text \<open>
  In Central Europe, on the 29th of March 2026: a job for 8:15 every day that was added at 8:00, the pass
  at 8:16.
\<close>

definition spring_core :: SchedulerCore where
  "spring_core = snd (addJob (summer_time_date spring_2026) (dailyAtLocal 8 15) defaultOptions sample_callback
     \<lparr>epochSeconds = 1774764000\<rparr> (newCore 200 0 False plenty))"

lemma spring_next:
  "computeNext (summer_time_date spring_2026) (dailyAtLocal 8 15) \<lparr>epochSeconds = 1774764000\<rparr> =
     Some \<lparr>epochSeconds = 1774764900\<rparr>"
  using daily_goes_backwards [of 20541 spring_2026 8 15 1774764000] by (simp add: spring_2026_def)

lemma spring_spec: "validate (dailyAtLocal 8 15)" "\<not> sp_isOneShot (dailyAtLocal 8 15)" "sp_kind (dailyAtLocal 8 15) = Cron"
  by (simp_all add: dailyAtLocal_def defaultSpec_def validate_def resolvedScheduleKind_def fieldWithinRange_def
      sf_any_def sf_empty_def sf_only_def emptyField_def allowedMask_def bit_of_def Let_def)

lemma spring_core_simps:
  "job_count spring_core = 1" "jr_occupied (job_at spring_core 0)" "\<not> jr_canceled (job_at spring_core 0)"
  "\<not> jr_paused (job_at spring_core 0)" "jr_hasNext (job_at spring_core 0)"
  "jr_nextRunUtc (job_at spring_core 0) = \<lparr>epochSeconds = 1774764900\<rparr>" "jr_dispatch (job_at spring_core 0) = Inline"
  "jr_schedule (job_at spring_core 0) = dailyAtLocal 8 15" "clockValid spring_core t = (0 \<le> epochSeconds t)"
  "arr_data (core_pendingSchedules spring_core) = []"
  by (simp_all add: spring_core_def exec spring_next spring_spec)

definition accepting_inline :: "unit IExecutorResolver" where
  "accepting_inline = \<lparr>inlineExecutor = Some (\<lambda>i e. (True, e)), executorFor = \<lambda>k. None\<rparr>"

theorem spring_forward_hangs_witness:
  "dispatchDue (summer_time_date spring_2026) accepting_inline \<lparr>epochSeconds = 1774764960\<rparr> spring_core () = None"
proof -
  have "core_inv spring_core" unfolding spring_core_def by (rule addJob_inv [OF newCore_inv]) simp
  then show ?thesis
    using spring_forward_hangs [where n = 20541 and change = spring_2026 and h = 8 and m = 15 and c = spring_core and s = 0
        and now = "\<lparr>epochSeconds = 1774764960\<rparr>" and ex = accepting_inline and e = "()" and submit = "\<lambda>i e. (True, e)"]
    by (simp add: spring_core_simps spring_2026_def accepting_inline_def)
qed

end
