(* ===== verification/Buffer_Ownership.thy ===== *)
theory Buffer_Ownership
  imports Id_Index
begin

text \<open>
  The buffers behind the containers of \<^verbatim>\<open>core/runtime_containers.h\<close>: constructors, destructors, moves and
  the operations that replace a buffer, on pointers, with the allocator's functions of
  \<^verbatim>\<open>scheduler_allocator.h\<close>. An object is its buffer pointer together with the contents modelled in
  \<open>Runtime_Array\<close> and \<open>Id_Index\<close>, which the operations here refine. The contract of a container that owns
  at most one buffer is a locale that the three classes interpret.
\<close>

section \<open>Memory\<close>

text \<open>
  \<open>mm_blocks\<close> are the blocks that were allocated and not freed, with their sizes in bytes; \<open>mm_fault\<close>
  records that a block was freed that is not live, or read past its end.
\<close>

record Memory =
  mm_blocks :: "nat \<rightharpoonup> nat"
  mm_fault :: bool

definition no_memory :: Memory where
  "no_memory = \<lparr>mm_blocks = Map.empty, mm_fault = False\<rparr>"

text \<open>
  \<open>p\<close> is the answer of \<^verbatim>\<open>malloc\<close>, or of the buffer manager, to the request, where one is made: null or
  a block that is not in use.
\<close>

definition granted :: "nat \<Rightarrow> nat option \<Rightarrow> Memory \<Rightarrow> Memory" where
  "granted bytes p m = (case p of None \<Rightarrow> m | Some b \<Rightarrow> m\<lparr>mm_blocks := (mm_blocks m)(b \<mapsto> bytes)\<rparr>)"

definition alloc_block :: "nat \<Rightarrow> nat \<Rightarrow> nat option \<Rightarrow> Memory \<Rightarrow> nat option \<times> Memory" where
  "alloc_block requested elemSize p m =
     (if requested = 0 then (None, m)
      else if requested > SIZE_MAX div elemSize then (None, m)
      else (p, granted (requested * elemSize) p m))"

definition schedulerDeallocate :: "nat option \<Rightarrow> Memory \<Rightarrow> Memory" where
  "schedulerDeallocate p m =
     (case p of
        None \<Rightarrow> m
      | Some b \<Rightarrow> if mm_blocks m b \<noteq> None then m\<lparr>mm_blocks := (mm_blocks m)(b := None)\<rparr>
                 else m\<lparr>mm_fault := True\<rparr>)"

text \<open>\<^verbatim>\<open>memcpy\<close> reads \<open>bytes\<close> bytes of the source.\<close>

definition read_block :: "nat option \<Rightarrow> nat \<Rightarrow> Memory \<Rightarrow> Memory" where
  "read_block q bytes m =
     (case Option.bind q (mm_blocks m) of
        None \<Rightarrow> m\<lparr>mm_fault := True\<rparr>
      | Some n \<Rightarrow> if bytes \<le> n then m else m\<lparr>mm_fault := True\<rparr>)"

text \<open>
  \<open>manager\<close> tells whether the buffer manager is compiled in; \<^verbatim>\<open>std::realloc\<close> keeps the old block when it
  has no memory and frees it otherwise.
\<close>

definition std_realloc :: "nat option \<Rightarrow> nat \<Rightarrow> nat option \<Rightarrow> Memory \<Rightarrow> nat option \<times> Memory" where
  "std_realloc ptr bytes p m = (if p = None then (None, m) else (p, granted bytes p (schedulerDeallocate ptr m)))"

definition reallocate :: "bool \<Rightarrow> nat option \<Rightarrow> nat \<Rightarrow> nat option \<Rightarrow> Memory \<Rightarrow> nat option \<times> Memory" where
  "reallocate manager ptr bytes p m =
     (if manager
      then let m = granted bytes p m
           in if p = None then (None, m)
              else if ptr \<noteq> None \<and> p \<noteq> ptr
              then let m = read_block ptr bytes m in (p, schedulerDeallocate ptr m)
              else (p, m)
      else std_realloc ptr bytes p m)"

definition schedulerReallocate ::
  "bool \<Rightarrow> nat option \<Rightarrow> nat \<Rightarrow> nat \<Rightarrow> nat \<Rightarrow> nat option \<Rightarrow> Memory \<Rightarrow> nat option \<times> Memory" where
  "schedulerReallocate manager ptr oldCount newCount elemSize p m =
     (if newCount = 0 then (None, schedulerDeallocate ptr m)
      else if newCount > SIZE_MAX div elemSize then (None, m)
      else if manager
      then let (next, m) = alloc_block newCount elemSize p m
           in if next = None then (None, m)
              else if ptr \<noteq> None
              then let toCopy = (if oldCount < newCount then oldCount else newCount);
                       m = read_block ptr (toCopy * elemSize) m
                   in (next, schedulerDeallocate ptr m)
              else (next, m)
      else reallocate manager ptr (newCount * elemSize) p m)"

text \<open>The adapter for standard containers, \<^verbatim>\<open>SchedulerAllocator<T>\<close>.\<close>

record SchedulerAllocator =
  sa_usePSRAMBuffers :: bool

definition sa_allocate :: "SchedulerAllocator \<Rightarrow> nat \<Rightarrow> nat \<Rightarrow> nat option \<Rightarrow> Memory \<Rightarrow> nat option \<times> Memory" where
  "sa_allocate a n elemSize p m =
     (if n = 0 then (None, m)
      else if n > SIZE_MAX div elemSize then (None, m)
      else let memory = p; m = granted (n * elemSize) p m
           in if memory = None then (None, m) else (memory, m))"

definition sa_deallocate :: "SchedulerAllocator \<Rightarrow> nat option \<Rightarrow> nat \<Rightarrow> Memory \<Rightarrow> Memory" where
  "sa_deallocate a ptr n m = schedulerDeallocate ptr m"

definition sa_equal :: "SchedulerAllocator \<Rightarrow> SchedulerAllocator \<Rightarrow> bool" where
  "sa_equal a b \<longleftrightarrow> sa_usePSRAMBuffers a = sa_usePSRAMBuffers b"

section \<open>SchedulerArray\<close>

record 'a ArrayHandle =
  ah_data :: "nat option"
  ah_array :: "'a SchedulerArray"

definition ah_new :: "nat \<Rightarrow> bool \<Rightarrow> 'a ArrayHandle" where
  "ah_new elemSize usePSRAM = \<lparr>ah_data = None, ah_array = newArray elemSize usePSRAM\<rparr>"

definition ah_clear :: "'a ArrayHandle \<Rightarrow> 'a ArrayHandle" where
  "ah_clear a = a\<lparr>ah_array := arr_clear (ah_array a)\<rparr>"

definition ah_destroy :: "'a ArrayHandle \<Rightarrow> Memory \<Rightarrow> Memory" where
  "ah_destroy a m = (let a = ah_clear a in schedulerDeallocate (ah_data a) m)"

definition ah_emptied :: "'a ArrayHandle \<Rightarrow> 'a ArrayHandle" where
  "ah_emptied other =
     other\<lparr>ah_data := None, ah_array := (ah_array other)\<lparr>arr_data := [], arr_capacity := 0\<rparr>\<rparr>"

text \<open>The new object and what is left of the old one.\<close>

definition ah_moveConstruct :: "'a ArrayHandle \<Rightarrow> 'a ArrayHandle \<times> 'a ArrayHandle" where
  "ah_moveConstruct other = (\<lparr>ah_data = ah_data other, ah_array = ah_array other\<rparr>, ah_emptied other)"

text \<open>\<open>same\<close> is \<^verbatim>\<open>this == &other\<close>.\<close>

definition ah_moveAssign ::
  "bool \<Rightarrow> 'a ArrayHandle \<Rightarrow> 'a ArrayHandle \<Rightarrow> Memory \<Rightarrow> 'a ArrayHandle \<times> 'a ArrayHandle \<times> Memory" where
  "ah_moveAssign same a other m =
     (if same then (a, other, m)
      else let a = ah_clear a;
               m = schedulerDeallocate (ah_data a) m;
               a = a\<lparr>ah_data := ah_data other, ah_array := ah_array other\<rparr>
           in (a, ah_emptied other, m))"

definition ah_reserve :: "nat \<Rightarrow> nat option \<Rightarrow> 'a ArrayHandle \<Rightarrow> Memory \<Rightarrow> bool \<times> 'a ArrayHandle \<times> Memory" where
  "ah_reserve requested p a m =
     (if requested \<le> arr_capacity (ah_array a) then (True, a, m)
      else let (next, m) = alloc_block requested (arr_elemSize (ah_array a)) p m
           in if next = None then (False, a, m)
              else let m = schedulerDeallocate (ah_data a) m
                   in (True, a\<lparr>ah_data := next, ah_array := (ah_array a)\<lparr>arr_capacity := requested\<rparr>\<rparr>, m))"

definition ah_emplaceBack :: "'a \<Rightarrow> nat option \<Rightarrow> 'a ArrayHandle \<Rightarrow> Memory \<Rightarrow> bool \<times> 'a ArrayHandle \<times> Memory" where
  "ah_emplaceBack x p a m =
     (let capacity = arr_capacity (ah_array a);
          (ok, a, m) =
            (if arr_size (ah_array a) = capacity
             then ah_reserve (if capacity = 0 then 4 else capacity * 2) p a m else (True, a, m))
      in if \<not> ok then (False, a, m)
         else (True, a\<lparr>ah_array := (ah_array a)\<lparr>arr_data := arr_data (ah_array a) @ [x]\<rparr>\<rparr>, m))"

text \<open>The calls that change an array; those of the second group leave the buffer where it is.\<close>

datatype 'a ArrayCall = Reserve nat | EmplaceBack 'a | PopBack | SwapRemove nat | Erase nat | Clear

fun array_call :: "'a ArrayCall \<Rightarrow> nat option \<Rightarrow> 'a ArrayHandle \<Rightarrow> Memory \<Rightarrow> 'a ArrayHandle \<times> Memory" where
  "array_call (Reserve n) p a m = snd (ah_reserve n p a m)"
| "array_call (EmplaceBack x) p a m = snd (ah_emplaceBack x p a m)"
| "array_call PopBack p a m = (a\<lparr>ah_array := popBack (ah_array a)\<rparr>, m)"
| "array_call (SwapRemove i) p a m = (a\<lparr>ah_array := snd (swapRemove i (ah_array a))\<rparr>, m)"
| "array_call (Erase i) p a m = (a\<lparr>ah_array := erase i (ah_array a)\<rparr>, m)"
| "array_call Clear p a m = (ah_clear a, m)"

section \<open>SchedulerOwnedString\<close>

record StringHandle =
  sh_data :: "nat option"
  sh_string :: SchedulerOwnedString

definition sh_new :: "bool \<Rightarrow> StringHandle" where
  "sh_new usePSRAM = \<lparr>sh_data = None, sh_string = newString usePSRAM\<rparr>"

definition sh_destroy :: "StringHandle \<Rightarrow> Memory \<Rightarrow> Memory" where
  "sh_destroy s m = schedulerDeallocate (sh_data s) m"

definition sh_emptied :: "StringHandle \<Rightarrow> StringHandle" where
  "sh_emptied other = other\<lparr>sh_data := None, sh_string := (sh_string other)\<lparr>str_data := None, str_length := 0\<rparr>\<rparr>"

definition sh_moveConstruct :: "StringHandle \<Rightarrow> StringHandle \<times> StringHandle" where
  "sh_moveConstruct other = (\<lparr>sh_data = sh_data other, sh_string = sh_string other\<rparr>, sh_emptied other)"

definition sh_moveAssign :: "bool \<Rightarrow> StringHandle \<Rightarrow> StringHandle \<Rightarrow> Memory \<Rightarrow> StringHandle \<times> StringHandle \<times> Memory" where
  "sh_moveAssign same s other m =
     (if same then (s, other, m)
      else let m = schedulerDeallocate (sh_data s) m;
               s = s\<lparr>sh_data := sh_data other, sh_string := sh_string other\<rparr>
           in (s, sh_emptied other, m))"

definition sh_clear :: "StringHandle \<Rightarrow> Memory \<Rightarrow> StringHandle \<times> Memory" where
  "sh_clear s m =
     (let m = schedulerDeallocate (sh_data s) m
      in (s\<lparr>sh_data := None, sh_string := str_clear (sh_string s)\<rparr>, m))"

definition sh_assign :: "string option \<Rightarrow> nat option \<Rightarrow> StringHandle \<Rightarrow> Memory \<Rightarrow> bool \<times> StringHandle \<times> Memory" where
  "sh_assign text p s m =
     (let m = schedulerDeallocate (sh_data s) m;
          s = s\<lparr>sh_data := None, sh_string := (sh_string s)\<lparr>str_data := None, str_length := 0\<rparr>\<rparr>
      in case text of
           None \<Rightarrow> (True, s, m)
         | Some t \<Rightarrow>
             if t = [] then (True, s, m)
             else let (d, m) = alloc_block (length t + 1) 1 p m
                  in if d = None then (False, s, m)
                     else (True, s\<lparr>sh_data := d,
                                  sh_string := (sh_string s)\<lparr>str_data := Some t, str_length := length t\<rparr>\<rparr>, m))"

datatype StringCall = Assign "string option" | ClearText

fun string_call :: "StringCall \<Rightarrow> nat option \<Rightarrow> StringHandle \<Rightarrow> Memory \<Rightarrow> StringHandle \<times> Memory" where
  "string_call (Assign text) p s m = snd (sh_assign text p s m)"
| "string_call ClearText p s m = sh_clear s m"

section \<open>SchedulerIdIndex\<close>

record IndexHandle =
  xh_entries :: "nat option"
  xh_index :: SchedulerIdIndex

definition xh_new :: "bool \<Rightarrow> IndexHandle" where
  "xh_new usePSRAM = \<lparr>xh_entries = None, xh_index = newIndex usePSRAM\<rparr>"

definition xh_destroy :: "IndexHandle \<Rightarrow> Memory \<Rightarrow> Memory" where
  "xh_destroy x m = schedulerDeallocate (xh_entries x) m"

definition xh_emptied :: "IndexHandle \<Rightarrow> IndexHandle" where
  "xh_emptied other =
     other\<lparr>xh_entries := None,
           xh_index := (xh_index other)\<lparr>ix_entries := [], ix_capacity := 0, ix_size := 0, ix_deletedCount := 0\<rparr>\<rparr>"

definition xh_moveConstruct :: "IndexHandle \<Rightarrow> IndexHandle \<times> IndexHandle" where
  "xh_moveConstruct other = (\<lparr>xh_entries = xh_entries other, xh_index = xh_index other\<rparr>, xh_emptied other)"

definition xh_moveAssign :: "bool \<Rightarrow> IndexHandle \<Rightarrow> IndexHandle \<Rightarrow> Memory \<Rightarrow> IndexHandle \<times> IndexHandle \<times> Memory" where
  "xh_moveAssign same x other m =
     (if same then (x, other, m)
      else let m = schedulerDeallocate (xh_entries x) m;
               x = x\<lparr>xh_entries := xh_entries other, xh_index := xh_index other\<rparr>
           in (x, xh_emptied other, m))"

text \<open>The new table is installed, and taken back and freed when an entry does not fit.\<close>

definition xh_rehash :: "nat \<Rightarrow> nat option \<Rightarrow> IndexHandle \<Rightarrow> Memory \<Rightarrow> bool \<times> IndexHandle \<times> Memory" where
  "xh_rehash newCapacity p x m =
     (let (next, m) = alloc_block newCapacity entrySize p m
      in if next = None then (False, x, m)
         else let previous = xh_entries x;
                  t = xh_index x;
                  x = x\<lparr>xh_entries := next,
                        xh_index := t\<lparr>ix_entries := replicate newCapacity emptyEntry, ix_capacity := newCapacity,
                                      ix_size := 0, ix_deletedCount := 0\<rparr>\<rparr>;
                  (ok, t') = rehash_loop (ix_entries t) (xh_index x)
              in if \<not> ok
                 then let m = schedulerDeallocate next m
                      in (False, x\<lparr>xh_entries := previous,
                                   xh_index := t\<lparr>ix_deletedCount :=
                                     length (filter (\<lambda>e. ie_state e = Deleted) (ix_entries t))\<rparr>\<rparr>, m)
                 else (True, x\<lparr>xh_index := t'\<rparr>, schedulerDeallocate previous m))"

definition xh_ensureCapacityForInsert :: "nat option \<Rightarrow> IndexHandle \<Rightarrow> Memory \<Rightarrow> bool \<times> IndexHandle \<times> Memory" where
  "xh_ensureCapacityForInsert p x m =
     (let t = xh_index x
      in if ix_capacity t = 0 then xh_rehash (nextCapacity (ix_capacity t)) p x m
         else if (ix_size t + ix_deletedCount t + 1) * 10 \<ge> ix_capacity t * 7
         then xh_rehash (nextCapacity (ix_capacity t)) p x m
         else if ix_deletedCount t > ix_size t then xh_rehash (ix_capacity t) p x m
         else (True, x, m))"

definition xh_set :: "u32 \<Rightarrow> nat \<Rightarrow> nat option \<Rightarrow> IndexHandle \<Rightarrow> Memory \<Rightarrow> bool \<times> IndexHandle \<times> Memory" where
  "xh_set jobId slotIndex p x m =
     (if jobId = 0 then (False, x, m)
      else let (ok, x, m) = xh_ensureCapacityForInsert p x m
           in if \<not> ok then (False, x, m)
              else let (ok, t) = insertOrAssign jobId slotIndex (xh_index x) in (ok, x\<lparr>xh_index := t\<rparr>, m))"

datatype IndexCall = SetSlot u32 nat | RemoveId u32 | ClearIndex

fun index_call :: "IndexCall \<Rightarrow> nat option \<Rightarrow> IndexHandle \<Rightarrow> Memory \<Rightarrow> IndexHandle \<times> Memory" where
  "index_call (SetSlot jobId slotIndex) p x m = snd (xh_set jobId slotIndex p x m)"
| "index_call (RemoveId jobId) p x m = (x\<lparr>xh_index := snd (ix_remove jobId (xh_index x))\<rparr>, m)"
| "index_call ClearIndex p x m = (x\<lparr>xh_index := ix_clear (xh_index x)\<rparr>, m)"

section \<open>The contents refine the list models\<close>

text \<open>
  The operations on pointers do to the contents what the operations of \<open>Runtime_Array\<close> and \<open>Id_Index\<close> do
  when the allocator answers as it does here.
\<close>

definition answering :: "nat option \<Rightarrow> heap" where
  "answering p = (\<lambda>_. p \<noteq> None)"

lemma answering_shift [simp]: "(\<lambda>n. answering p (Suc n)) = answering p"
  by (simp add: answering_def)

lemma alloc_block_answer:
  "schedulerAllocate n k (answering p) = (ok, h') \<Longrightarrow> fst (alloc_block n k p m) = None \<longleftrightarrow> \<not> ok"
  by (auto simp: schedulerAllocate_def alloc_block_def answering_def split: if_splits)

lemma ah_reserve_refines:
  "ah_reserve n p a m = (ok, a', m') \<Longrightarrow> \<exists>h'. reserve n (ah_array a) (answering p) = (ok, ah_array a', h')"
  using alloc_block_answer [of n "arr_elemSize (ah_array a)" p _ _ m]
  by (auto simp: ah_reserve_def reserve_def split: if_splits prod.splits)

lemma ah_emplaceBack_refines:
  assumes "ah_emplaceBack x p a m = (ok, a', m')"
  shows "\<exists>h'. emplaceBack x (ah_array a) (answering p) = (ok, ah_array a', h')"
proof (cases "arr_size (ah_array a) = arr_capacity (ah_array a)")
  case True
  let ?n = "if arr_capacity (ah_array a) = 0 then 4 else arr_capacity (ah_array a) * 2"
  obtain ok1 a1 m1 where r: "ah_reserve ?n p a m = (ok1, a1, m1)" by (metis prod_cases3)
  obtain h1 where "reserve ?n (ah_array a) (answering p) = (ok1, ah_array a1, h1)"
    using ah_reserve_refines [OF r] by blast
  then show ?thesis using assms r True by (auto simp: ah_emplaceBack_def emplaceBack_def Let_def split: if_splits)
next
  case False
  then show ?thesis using assms by (auto simp: ah_emplaceBack_def emplaceBack_def)
qed

lemma sh_assign_refines:
  "sh_assign text p s m = (ok, s', m') \<Longrightarrow> \<exists>h'. str_assign text (sh_string s) (answering p) = (ok, sh_string s', h')"
  using alloc_block_answer [of "length (the text) + 1" 1 p _ _ "schedulerDeallocate (sh_data s) m"]
  by (auto simp: sh_assign_def str_assign_def Let_def split: option.splits if_splits prod.splits)

lemma xh_rehash_refines:
  "xh_rehash n p x m = (ok, x', m') \<Longrightarrow> \<exists>h'. rehash n (xh_index x) (answering p) = (ok, xh_index x', h')"
  using alloc_block_answer [of n entrySize p _ _ m]
  by (auto simp: xh_rehash_def rehash_def Let_def split: if_splits prod.splits)

lemma xh_set_refines:
  assumes "xh_set k i p x m = (ok, x', m')"
  shows "\<exists>h'. ix_set k i (xh_index x) (answering p) = (ok, xh_index x', h')"
proof -
  obtain ok1 x1 m1 where e: "xh_ensureCapacityForInsert p x m = (ok1, x1, m1)" by (metis prod_cases3)
  have "\<exists>h1. ensureCapacityForInsert (xh_index x) (answering p) = (ok1, xh_index x1, h1)"
    using e xh_rehash_refines
    by (auto simp: xh_ensureCapacityForInsert_def ensureCapacityForInsert_def Let_def split: if_splits)
  then show ?thesis using assms e by (auto simp: xh_set_def ix_set_def split: if_splits prod.splits)
qed

section \<open>Blocks that change hands\<close>

text \<open>A buffer is a block with its size.\<close>

type_synonym buffer = "(nat \<times> nat) option"

definition buffer_at :: "nat \<Rightarrow> nat option \<Rightarrow> buffer" where
  "buffer_at n d = map_option (\<lambda>b. (b, n)) d"

definition owned :: "buffer \<Rightarrow> Memory \<Rightarrow> bool" where
  "owned q m \<longleftrightarrow> (\<forall>b n. q = Some (b, n) \<longrightarrow> mm_blocks m b = Some n)"

definition without :: "buffer \<Rightarrow> (nat \<rightharpoonup> nat) \<Rightarrow> (nat \<rightharpoonup> nat)" where
  "without q B = (case q of None \<Rightarrow> B | Some (b, n) \<Rightarrow> B(b := None))"

definition gaining :: "buffer \<Rightarrow> (nat \<rightharpoonup> nat) \<Rightarrow> (nat \<rightharpoonup> nat)" where
  "gaining q B = (case q of None \<Rightarrow> B | Some (b, n) \<Rightarrow> B(b \<mapsto> n))"

text \<open>The allocator's answer is not a live block.\<close>

definition unused :: "nat option \<Rightarrow> Memory \<Rightarrow> bool" where
  "unused p m \<longleftrightarrow> (\<forall>b. p = Some b \<longrightarrow> mm_blocks m b = None)"

text \<open>From \<open>m\<close> to \<open>m'\<close> the buffer \<open>q\<close> is exchanged for \<open>r\<close>, which is the same or a block that was not in use.\<close>

definition exchanged :: "buffer \<Rightarrow> buffer \<Rightarrow> Memory \<Rightarrow> Memory \<Rightarrow> bool" where
  "exchanged q r m m' \<longleftrightarrow>
     mm_fault m' = mm_fault m \<and> mm_blocks m' = gaining r (without q (mm_blocks m)) \<and>
     (r = q \<or> unused (map_option fst r) m)"

lemmas block_defs = buffer_at_def owned_def without_def gaining_def unused_def exchanged_def

lemma dealloc_None [simp]: "schedulerDeallocate None m = m"
  by (simp add: schedulerDeallocate_def)

lemma granted_None [simp]: "granted n None m = m"
  by (simp add: granted_def)

lemma buffer_at_simps [simp]: "buffer_at n None = None" "map_option fst (buffer_at n d) = d" "buffer_at n (Some b) = Some (b, n)"
  by (auto simp: buffer_at_def option.map_comp comp_def option.map_ident)

lemma exchanged_same: "owned q m \<Longrightarrow> exchanged q q m m"
  by (cases q) (auto simp: block_defs fun_eq_iff)

lemma exchanged_freed: "owned (buffer_at k d) m \<Longrightarrow> exchanged (buffer_at k d) None m (schedulerDeallocate d m)"
  by (cases d) (auto simp: block_defs schedulerDeallocate_def)

lemma exchanged_replaced:
  "owned (buffer_at k d) m \<Longrightarrow> unused (Some c) m \<Longrightarrow>
   exchanged (buffer_at k d) (Some (c, n)) m (schedulerDeallocate d (granted n (Some c) m)) \<and>
   exchanged (buffer_at k d) (Some (c, n)) m (granted n (Some c) (schedulerDeallocate d m))"
  by (cases d) (auto simp: block_defs schedulerDeallocate_def granted_def fun_eq_iff)

lemma granted_undone: "unused p m \<Longrightarrow> schedulerDeallocate p (granted n p m) = m"
  by (cases p) (auto simp: block_defs schedulerDeallocate_def granted_def fun_eq_iff intro!: Memory.equality)

lemma alloc_block_cases:
  assumes "alloc_block n k p m = (d, m')"
  obtains (null) "d = None" "m' = m" | (block) c where "d = Some c" "p = Some c" "m' = granted (n * k) (Some c) m"
      "0 < n" "n \<le> SIZE_MAX div k"
  using assms by (cases p) (auto simp: alloc_block_def split: if_splits)

text \<open>
  \<^verbatim>\<open>schedulerReallocate\<close> on a block of \<open>oldCount\<close> elements: asked for nothing it frees the block, refused it
  keeps the block, and otherwise the block is exchanged for one of the new size; nothing is read past
  its end, in both build configurations.
\<close>

lemma schedulerReallocate_exchanges:
  assumes "schedulerReallocate manager ptr oldCount newCount k p m = (d, m')"
    and "owned (buffer_at (oldCount * k) ptr) m" "unused p m"
  shows "exchanged (buffer_at (oldCount * k) ptr)
      (if newCount = 0 then None else if d = None then buffer_at (oldCount * k) ptr else buffer_at (newCount * k) d) m m'"
proof (cases "newCount = 0 \<or> SIZE_MAX div k < newCount \<or> p = None")
  case True
  then have "d = None" "m' = (if newCount = 0 then schedulerDeallocate ptr m else m)"
    using assms(1) by (auto simp: schedulerReallocate_def reallocate_def std_realloc_def alloc_block_def split: if_splits)
  then show ?thesis using exchanged_freed exchanged_same assms(2) by simp
next
  case False
  then obtain c where c: "p = Some c" by auto
  have copy: "read_block ptr (min oldCount newCount * k) (granted n (Some c) m) = granted n (Some c) m" if "ptr \<noteq> None" for n
    using that assms(2,3) c by (auto simp: read_block_def granted_def block_defs split: option.splits if_splits)
  have "(if oldCount < newCount then oldCount else newCount) = min oldCount newCount" by auto
  then have "d = Some c" "m' = schedulerDeallocate ptr (granted (newCount * k) (Some c) m) \<or>
      m' = granted (newCount * k) (Some c) (schedulerDeallocate ptr m)"
    using assms(1) False c copy
    by (auto simp: schedulerReallocate_def reallocate_def std_realloc_def alloc_block_def Let_def split: if_splits)
  then show ?thesis using exchanged_replaced [OF assms(2), of c "newCount * k"] assms(3) c False by auto
qed

text \<open>
  \<^verbatim>\<open>reallocate\<close> itself does read past the end with the buffer manager when a block grows; in that
  configuration \<^verbatim>\<open>schedulerReallocate\<close> does not call it.
\<close>

lemma reallocate_overreads:
  "mm_blocks m b = Some n \<Longrightarrow> n < bytes \<Longrightarrow> mm_blocks m c = None \<Longrightarrow>
   mm_fault (snd (reallocate True (Some b) bytes (Some c) m))"
  by (auto simp: reallocate_def granted_def read_block_def schedulerDeallocate_def Let_def)

text \<open>The adapter asks for memory exactly as the containers do.\<close>

lemma sa_allocate_eq: "sa_allocate a n k p m = alloc_block n k p m"
  by (auto simp: sa_allocate_def alloc_block_def Let_def)

section \<open>Objects and their buffers\<close>

text \<open>The operations of a class that have to do with its buffer.\<close>

record ('h, 'c) ContainerOps =
  cn_buffer :: "'h \<Rightarrow> buffer"
  cn_new :: "bool \<Rightarrow> 'h"
  cn_destroy :: "'h \<Rightarrow> Memory \<Rightarrow> Memory"
  cn_moveConstruct :: "'h \<Rightarrow> 'h \<times> 'h"
  cn_moveAssign :: "bool \<Rightarrow> 'h \<Rightarrow> 'h \<Rightarrow> Memory \<Rightarrow> 'h \<times> 'h \<times> Memory"
  cn_call :: "'c \<Rightarrow> nat option \<Rightarrow> 'h \<Rightarrow> Memory \<Rightarrow> 'h \<times> Memory"

text \<open>The block an object points to and the size its fields claim for it.\<close>

definition ah_buffer :: "'a ArrayHandle \<Rightarrow> buffer" where
  "ah_buffer a = buffer_at (arr_capacity (ah_array a) * arr_elemSize (ah_array a)) (ah_data a)"

definition sh_buffer :: "StringHandle \<Rightarrow> buffer" where
  "sh_buffer s = buffer_at (str_length (sh_string s) + 1) (sh_data s)"

definition xh_buffer :: "IndexHandle \<Rightarrow> buffer" where
  "xh_buffer x = buffer_at (ix_capacity (xh_index x) * entrySize) (xh_entries x)"

definition array_ops :: "nat \<Rightarrow> ('a ArrayHandle, 'a ArrayCall) ContainerOps" where
  "array_ops elemSize = \<lparr>cn_buffer = ah_buffer, cn_new = ah_new elemSize, cn_destroy = ah_destroy,
     cn_moveConstruct = ah_moveConstruct, cn_moveAssign = ah_moveAssign, cn_call = array_call\<rparr>"

definition string_ops :: "(StringHandle, StringCall) ContainerOps" where
  "string_ops = \<lparr>cn_buffer = sh_buffer, cn_new = sh_new, cn_destroy = sh_destroy,
     cn_moveConstruct = sh_moveConstruct, cn_moveAssign = sh_moveAssign, cn_call = string_call\<rparr>"

definition index_ops :: "(IndexHandle, IndexCall) ContainerOps" where
  "index_ops = \<lparr>cn_buffer = xh_buffer, cn_new = xh_new, cn_destroy = xh_destroy,
     cn_moveConstruct = xh_moveConstruct, cn_moveAssign = xh_moveAssign, cn_call = index_call\<rparr>"

text \<open>
  A program that uses objects of one class in any way: the objects by name, and the memory. The
  allocator returns null or a block that is not in use.
\<close>

inductive container_step ::
  "('h, 'c) ContainerOps \<Rightarrow> (nat \<Rightarrow> 'h option) \<times> Memory \<Rightarrow> (nat \<Rightarrow> 'h option) \<times> Memory \<Rightarrow> bool" for ops where
  construct: "objs x = None \<Longrightarrow> container_step ops (objs, m) (objs(x \<mapsto> cn_new ops psram), m)"
| destruct: "objs x = Some h \<Longrightarrow> container_step ops (objs, m) (objs(x := None), cn_destroy ops h m)"
| move_construct: "objs x = None \<Longrightarrow> objs y = Some h \<Longrightarrow> cn_moveConstruct ops h = (n, h') \<Longrightarrow>
    container_step ops (objs, m) (objs(x \<mapsto> n, y \<mapsto> h'), m)"
| move_assign: "objs x = Some h \<Longrightarrow> objs y = Some g \<Longrightarrow> x \<noteq> y \<Longrightarrow> cn_moveAssign ops False h g m = (h', g', m') \<Longrightarrow>
    container_step ops (objs, m) (objs(x \<mapsto> h', y \<mapsto> g'), m')"
| self_assign: "objs x = Some h \<Longrightarrow> cn_moveAssign ops True h h m = (h', g', m') \<Longrightarrow>
    container_step ops (objs, m) (objs(x \<mapsto> h'), m')"
| call: "objs x = Some h \<Longrightarrow> unused p m \<Longrightarrow> cn_call ops c p h m = (h', m') \<Longrightarrow>
    container_step ops (objs, m) (objs(x \<mapsto> h'), m')"

inductive container_reachable :: "('h, 'c) ContainerOps \<Rightarrow> (nat \<Rightarrow> 'h option) \<times> Memory \<Rightarrow> bool" for ops where
  start: "container_reachable ops (Map.empty, no_memory)"
| step: "container_reachable ops w \<Longrightarrow> container_step ops w w' \<Longrightarrow> container_reachable ops w'"

section \<open>Accounts\<close>

text \<open>The buffer of each object that has one.\<close>

definition buffers :: "('h, 'c) ContainerOps \<Rightarrow> (nat \<Rightarrow> 'h option) \<Rightarrow> nat \<Rightarrow> buffer" where
  "buffers ops objs x = Option.bind (objs x) (cn_buffer ops)"

lemma buffers_simps [simp]: "buffers ops (objs(x \<mapsto> h)) = (buffers ops objs)(x := cn_buffer ops h)"
  "buffers ops (objs(x := None)) = (buffers ops objs)(x := None)" "buffers ops Map.empty = Map.empty"
  "objs x = Some h \<Longrightarrow> buffers ops objs x = cn_buffer ops h" "objs x = None \<Longrightarrow> buffers ops objs x = None"
  by (auto simp: buffers_def)

text \<open>
  \<open>f\<close> assigns buffers to objects. Everything is accounted for: no fault has happened, the live blocks
  are exactly the buffers, with the sizes the objects claim, and no two objects share a block.
\<close>

definition accounted :: "(nat \<Rightarrow> buffer) \<Rightarrow> Memory \<Rightarrow> bool" where
  "accounted f m \<longleftrightarrow> \<not> mm_fault m \<and> (\<forall>b n. mm_blocks m b = Some n \<longleftrightarrow> (\<exists>x. f x = Some (b, n))) \<and>
     (\<forall>x y b n k. f x = Some (b, n) \<longrightarrow> f y = Some (b, k) \<longrightarrow> x = y)"

lemma accounted_owned: "accounted f m \<Longrightarrow> owned (f x) m"
  by (auto simp: accounted_def owned_def)

lemma accounted_exchange:
  assumes a: "accounted f m" and e: "exchanged (f x) r m m'"
  shows "accounted (f(x := r)) m'"
proof -
  have b: "mm_blocks m' = gaining r (without (f x) (mm_blocks m))" and
    u: "r = f x \<or> unused (map_option fst r) m" using e by (auto simp: exchanged_def)
  have s: "mm_blocks m b = Some n \<longleftrightarrow> (\<exists>y. f y = Some (b, n))" for b n using a by (simp add: accounted_def)
  have i: "f y = Some (b, n) \<Longrightarrow> f z = Some (b, k) \<Longrightarrow> y = z" for y z b n k using a unfolding accounted_def by blast
  have w: "without (f x) (mm_blocks m) b = Some n \<longleftrightarrow> (\<exists>y. y \<noteq> x \<and> f y = Some (b, n))" for b n
  proof (cases "f x")
    case None
    then show ?thesis using s [of b n] by (simp add: without_def) (metis option.distinct(1))
  next
    case (Some c)
    then obtain d k where x: "f x = Some (d, k)" by (cases c) simp
    show ?thesis
    proof (cases "b = d")
      case True
      then show ?thesis using x i [of _ b n x k] by (auto simp: without_def)
    next
      case False
      have "f y = Some (b, n) \<Longrightarrow> y \<noteq> x" for y using x False by auto
      then show ?thesis using x s [of b n] False by (auto simp: without_def)
    qed
  qed
  have new: "f y \<noteq> Some (b, n)" if "r = Some (b, k)" "y \<noteq> x" for y b n k
    using u that s [of b n] i [of y b n x k] by (auto simp: unused_def)
  have "mm_blocks m' b = Some n \<longleftrightarrow> (\<exists>y. (f(x := r)) y = Some (b, n))" for b n
  proof -
    have "(\<exists>y. (f(x := r)) y = Some (b, n)) \<longleftrightarrow> r = Some (b, n) \<or> (\<exists>y. y \<noteq> x \<and> f y = Some (b, n))" by auto
    then show ?thesis using w [of b n] new by (cases r) (auto simp: b gaining_def split: if_splits)
  qed
  moreover have "y = z" if "(f(x := r)) y = Some (b, n)" "(f(x := r)) z = Some (b, k)" for y z b n k
    using that i [of y b n z k] new [of b n z k] new [of b k y n] by (cases "y = x"; cases "z = x") simp_all
  ultimately show ?thesis using a e unfolding accounted_def exchanged_def by blast
qed

lemma accounted_hand_over:
  assumes "accounted f m" "f x = None"
  shows "accounted (f(x := f y, y := None)) m"
proof -
  have "(\<exists>z. (f(x := f y, y := None)) z = Some c) \<longleftrightarrow> (\<exists>z. f z = Some c)" for c
  proof
    assume "\<exists>z. f z = Some c"
    then obtain z where "f z = Some c" ..
    then have "(f(x := f y, y := None)) (if z = y then x else z) = Some c" using assms(2) by auto
    then show "\<exists>z. (f(x := f y, y := None)) z = Some c" ..
  qed (auto split: if_splits)
  then show ?thesis using assms unfolding accounted_def by (auto split: if_splits)
qed

section \<open>The contract\<close>

text \<open>
  What a class promises, for objects that satisfy its invariant: construction allocates nothing,
  destruction frees the buffer, a move hands the buffer over and leaves the source without one, and a
  call exchanges the buffer for another one, or for none, whether or not it succeeds.
\<close>

locale owning_container =
  fixes ops :: "('h, 'c) ContainerOps" and invar :: "'h \<Rightarrow> bool"
  assumes new_law: "cn_buffer ops (cn_new ops u) = None \<and> invar (cn_new ops u)"
    and destroy_law: "cn_destroy ops h m = schedulerDeallocate (map_option fst (cn_buffer ops h)) m"
    and moveConstruct_law: "cn_moveConstruct ops h = (n, h') \<Longrightarrow> invar h \<Longrightarrow>
      cn_buffer ops n = cn_buffer ops h \<and> cn_buffer ops h' = None \<and> invar n \<and> invar h'"
    and moveAssign_law: "cn_moveAssign ops False h g m = (h', g', m') \<Longrightarrow> invar h \<Longrightarrow> invar g \<Longrightarrow>
      cn_buffer ops h' = cn_buffer ops g \<and> cn_buffer ops g' = None \<and> invar h' \<and> invar g' \<and>
      m' = schedulerDeallocate (map_option fst (cn_buffer ops h)) m"
    and selfAssign_law: "cn_moveAssign ops True h h m = (h', g', m') \<Longrightarrow> h' = h \<and> m' = m"
    and call_law: "cn_call ops c p h m = (h', m') \<Longrightarrow> invar h \<Longrightarrow> owned (cn_buffer ops h) m \<Longrightarrow> unused p m \<Longrightarrow>
      invar h' \<and> exchanged (cn_buffer ops h) (cn_buffer ops h') m m'"
begin

lemma freed: "owned (cn_buffer ops h) m \<Longrightarrow>
    exchanged (cn_buffer ops h) None m (schedulerDeallocate (map_option fst (cn_buffer ops h)) m)"
  using exchanged_freed [of "snd (the (cn_buffer ops h))" "map_option fst (cn_buffer ops h)" m]
  by (cases "cn_buffer ops h") auto

lemma step_accounted:
  assumes "container_step ops w w'" "accounted (buffers ops (fst w)) (snd w)" "\<And>x h. fst w x = Some h \<Longrightarrow> invar h"
  shows "accounted (buffers ops (fst w')) (snd w') \<and> (\<forall>x h. fst w' x = Some h \<longrightarrow> invar h)"
  using assms(1)
proof (cases rule: container_step.cases)
  case (construct objs x m psram)
  then show ?thesis using assms(2,3) new_law by (simp add: fun_upd_idem)
next
  case (destruct objs x h m)
  have a: "accounted (buffers ops objs) m" using assms(2) destruct by simp
  have "exchanged (buffers ops objs x) None m (cn_destroy ops h m)"
    using freed accounted_owned [OF a, of x] destruct by (simp add: destroy_law)
  from accounted_exchange [OF a this] show ?thesis using assms(3) destruct by simp
next
  case (move_construct objs x y h n h' m)
  then have "invar h" using assms(3) by simp
  from moveConstruct_law [OF move_construct(5) this] show ?thesis
    using assms(2,3) accounted_hand_over [of "buffers ops objs" m x y] move_construct by simp
next
  case (move_assign objs x h y g m h' g' m')
  have a: "accounted (buffers ops objs) m" and i: "invar h" "invar g" using assms(2,3) move_assign by simp_all
  note l = moveAssign_law [OF move_assign(6) i]
  have "exchanged (buffers ops objs x) None m m'"
    using freed accounted_owned [OF a, of x] move_assign l by simp
  from accounted_hand_over [OF accounted_exchange [OF a this], of x y] show ?thesis
    using move_assign l assms(3) by simp
next
  case (self_assign objs x h m h' g' m')
  have "h' = h" "m' = m" using selfAssign_law [OF self_assign(4)] by simp_all
  then show ?thesis using assms(2,3) self_assign by (simp add: fun_upd_idem)
next
  case (call objs x h p m c h' m')
  have a: "accounted (buffers ops objs) m" and i: "invar h" using assms(2,3) call by simp_all
  have "owned (cn_buffer ops h) m" using accounted_owned [OF a, of x] call by simp
  note l = call_law [OF call(5) i this call(4)]
  have "accounted ((buffers ops objs)(x := cn_buffer ops h')) m'" using accounted_exchange [OF a, of x] l call by simp
  then show ?thesis using assms(3) l call by simp
qed

lemma reachable_accounted:
  "container_reachable ops w \<Longrightarrow> accounted (buffers ops (fst w)) (snd w) \<and> (\<forall>x h. fst w x = Some h \<longrightarrow> invar h)"
proof (induction rule: container_reachable.induct)
  case start
  show ?case by (simp add: accounted_def no_memory_def)
next
  case (step w w')
  then show ?case using step_accounted [of w w'] by blast
qed

end

section \<open>The classes\<close>

text \<open>The invariants: the contents are well formed, and the pointer is null exactly when there is no capacity.\<close>

definition ah_wf :: "'a ArrayHandle \<Rightarrow> bool" where
  "ah_wf a \<longleftrightarrow> arr_wf (ah_array a) \<and> (ah_data a = None \<longleftrightarrow> arr_capacity (ah_array a) = 0)"

definition sh_wf :: "StringHandle \<Rightarrow> bool" where
  "sh_wf s \<longleftrightarrow>
     (case str_data (sh_string s) of
        None \<Rightarrow> sh_data s = None \<and> str_length (sh_string s) = 0
      | Some t \<Rightarrow> sh_data s \<noteq> None \<and> t \<noteq> [] \<and> str_length (sh_string s) = length t)"

definition xh_wf :: "IndexHandle \<Rightarrow> bool" where
  "xh_wf x \<longleftrightarrow> ix_wf (xh_index x) \<and> (xh_entries x = None \<longleftrightarrow> ix_capacity (xh_index x) = 0)"

lemma ah_reserve_exchanges:
  assumes "ah_reserve n p a m = (ok, a', m')" "ah_wf a" "owned (ah_buffer a) m" "unused p m"
  shows "ah_wf a' \<and> exchanged (ah_buffer a) (ah_buffer a') m m' \<and> (ok \<longrightarrow> n \<le> arr_capacity (ah_array a')) \<and>
    arr_data (ah_array a') = arr_data (ah_array a)"
proof (cases "n \<le> arr_capacity (ah_array a)")
  case True
  then show ?thesis using assms exchanged_same by (simp add: ah_reserve_def)
next
  case False
  obtain d m1 where d: "alloc_block n (arr_elemSize (ah_array a)) p m = (d, m1)" by fastforce
  then show ?thesis
  proof (cases rule: alloc_block_cases)
    case null
    then show ?thesis using assms d False exchanged_same by (auto simp: ah_reserve_def)
  next
    case (block c)
    have "a' = a\<lparr>ah_data := Some c, ah_array := (ah_array a)\<lparr>arr_capacity := n\<rparr>\<rparr>" "m' = schedulerDeallocate (ah_data a) m1"
      using assms(1) d block False by (auto simp: ah_reserve_def)
    then show ?thesis
      using assms(2-4) block False exchanged_replaced [of _ "ah_data a" m c "n * arr_elemSize (ah_array a)"]
      by (auto simp: ah_wf_def ah_buffer_def arr_wf_def arr_size_def)
  qed
qed

lemma ah_emplaceBack_exchanges:
  assumes "ah_emplaceBack v p a m = (ok, a', m')" "ah_wf a" "owned (ah_buffer a) m" "unused p m"
  shows "ah_wf a' \<and> exchanged (ah_buffer a) (ah_buffer a') m m'"
proof (cases "arr_size (ah_array a) = arr_capacity (ah_array a)")
  case True
  let ?n = "if arr_capacity (ah_array a) = 0 then 4 else arr_capacity (ah_array a) * 2"
  obtain ok1 a1 m1 where r: "ah_reserve ?n p a m = (ok1, a1, m1)" by (metis prod_cases3)
  note e = ah_reserve_exchanges [OF r assms(2-4)]
  have "a' = (if ok1 then a1\<lparr>ah_array := (ah_array a1)\<lparr>arr_data := arr_data (ah_array a1) @ [v]\<rparr>\<rparr> else a1)" "m' = m1"
    using assms(1) r True by (auto simp: ah_emplaceBack_def split: if_splits)
  moreover have "arr_size (ah_array a) < ?n" using True by auto
  ultimately show ?thesis using e by (auto simp: ah_wf_def ah_buffer_def arr_wf_def arr_size_def)
next
  case False
  then have "a' = a\<lparr>ah_array := (ah_array a)\<lparr>arr_data := arr_data (ah_array a) @ [v]\<rparr>\<rparr>" "m' = m"
    using assms(1) by (auto simp: ah_emplaceBack_def)
  then show ?thesis using assms(2,3) False exchanged_same by (auto simp: ah_wf_def ah_buffer_def arr_wf_def arr_size_def)
qed

text \<open>A call that does not replace the buffer.\<close>

lemma array_in_place:
  assumes "ah_wf a" "owned (ah_buffer a) m"
    and "arr_wf b" "arr_capacity b = arr_capacity (ah_array a)" "arr_elemSize b = arr_elemSize (ah_array a)"
  shows "ah_wf (a\<lparr>ah_array := b\<rparr>) \<and> exchanged (ah_buffer a) (ah_buffer (a\<lparr>ah_array := b\<rparr>)) m m"
  using assms exchanged_same by (simp add: ah_wf_def ah_buffer_def)

lemma swapRemove_frame:
  "arr_wf a \<Longrightarrow> arr_wf (snd (swapRemove i a))" "arr_capacity (snd (swapRemove i a)) = arr_capacity a"
  "arr_elemSize (snd (swapRemove i a)) = arr_elemSize a"
  by (auto simp: swapRemove_def Let_def intro: popBack_wf)

lemma array_call_exchanges:
  assumes "array_call c p a m = (a', m')" "ah_wf a" "owned (ah_buffer a) m" "unused p m"
  shows "ah_wf a' \<and> exchanged (ah_buffer a) (ah_buffer a') m m'"
proof -
  have wf: "arr_wf (ah_array a)" using assms(2) by (simp add: ah_wf_def)
  note keep = array_in_place [OF assms(2,3)]
  show ?thesis
  proof (cases c)
    case (Reserve n)
    then show ?thesis using assms ah_reserve_exchanges [of n p a m _ a' m'] by (cases "ah_reserve n p a m") simp
  next
    case (EmplaceBack v)
    then show ?thesis using assms ah_emplaceBack_exchanges [of v p a m _ a' m'] by (cases "ah_emplaceBack v p a m") simp
  next
    case PopBack
    then show ?thesis using keep [of "popBack (ah_array a)"] assms(1) popBack_wf [OF wf] by auto
  next
    case (SwapRemove i)
    then show ?thesis using keep [of "snd (swapRemove i (ah_array a))"] assms(1) wf by (auto simp: swapRemove_frame)
  next
    case (Erase i)
    then show ?thesis using keep [of "erase i (ah_array a)"] assms(1) erase_wf [OF wf] by (auto simp: erase_def)
  next
    case Clear
    then show ?thesis using keep [of "arr_clear (ah_array a)"] assms(1) wf
      by (auto simp: ah_clear_def arr_clear_def arr_wf_def arr_size_def)
  qed
qed

interpretation array_container: owning_container "array_ops elemSize" ah_wf
proof
  fix c p h m h' m'
  assume "cn_call (array_ops elemSize) c p h m = (h', m')" "ah_wf h" "owned (cn_buffer (array_ops elemSize) h) m" "unused p m"
  then show "ah_wf h' \<and> exchanged (cn_buffer (array_ops elemSize) h) (cn_buffer (array_ops elemSize) h') m m'"
    using array_call_exchanges [of c p h m h' m'] by (simp add: array_ops_def)
qed (auto simp: array_ops_def ah_new_def ah_buffer_def ah_wf_def ah_destroy_def ah_clear_def ah_moveConstruct_def ah_emptied_def
    ah_moveAssign_def arr_wf_def arr_size_def newArray_def Let_def)

lemma string_call_exchanges:
  assumes "string_call c p s m = (s', m')" "sh_wf s" "owned (sh_buffer s) m" "unused p m"
  shows "sh_wf s' \<and> exchanged (sh_buffer s) (sh_buffer s') m m'"
proof (cases "\<exists>t. c = Assign (Some t) \<and> t \<noteq> []")
  case True
  then obtain t where c: "c = Assign (Some t)" "t \<noteq> []" by blast
  let ?m = "schedulerDeallocate (sh_data s) m"
  obtain d m1 where d: "alloc_block (length t + 1) 1 p ?m = (d, m1)" by fastforce
  then show ?thesis
  proof (cases rule: alloc_block_cases)
    case null
    then show ?thesis using assms c d exchanged_freed [of _ "sh_data s" m]
      by (auto simp: sh_assign_def sh_wf_def sh_buffer_def Let_def)
  next
    case (block b)
    then show ?thesis using assms c d exchanged_replaced [of _ "sh_data s" m b "length t + 1"]
      by (auto simp: sh_assign_def sh_wf_def sh_buffer_def Let_def)
  qed
next
  case False
  then have "sh_data s' = None \<and> str_data (sh_string s') = None \<and> str_length (sh_string s') = 0 \<and>
      m' = schedulerDeallocate (sh_data s) m"
    using assms(1)
    by (cases c) (auto simp: sh_assign_def sh_clear_def str_clear_def Let_def split: option.splits)
  then show ?thesis using assms(3) exchanged_freed [of _ "sh_data s" m] by (simp add: sh_wf_def sh_buffer_def)
qed

interpretation string_container: owning_container string_ops sh_wf
proof
  fix c p h m h' m'
  assume "cn_call string_ops c p h m = (h', m')" "sh_wf h" "owned (cn_buffer string_ops h) m" "unused p m"
  then show "sh_wf h' \<and> exchanged (cn_buffer string_ops h) (cn_buffer string_ops h') m m'"
    using string_call_exchanges [of c p h m h' m'] by (simp add: string_ops_def)
qed (auto simp: string_ops_def sh_new_def sh_buffer_def sh_wf_def sh_destroy_def sh_moveConstruct_def sh_emptied_def
    sh_moveAssign_def newString_def Let_def split: option.splits)

lemma insert_loop_capacity: "ix_capacity (snd (insert_loop t k i j d n)) = ix_capacity t"
  by (induction t k i j d n rule: insert_loop.induct) (simp_all add: Let_def)

lemma insertOrAssign_capacity: "insertOrAssign k i t = (ok, t') \<Longrightarrow> ix_capacity t' = ix_capacity t"
  using insert_loop_capacity [of t k i] by (metis insertOrAssign_def snd_conv)

lemma rehash_loop_capacity: "rehash_loop es t = (ok, t') \<Longrightarrow> ix_capacity t' = ix_capacity t"
  by (induction es t rule: rehash_loop.induct) (auto split: if_splits prod.splits dest: insertOrAssign_capacity)

definition xh_pointer_ok :: "IndexHandle \<Rightarrow> bool" where
  "xh_pointer_ok x \<longleftrightarrow> (xh_entries x = None \<longleftrightarrow> ix_capacity (xh_index x) = 0)"

lemma xh_rehash_exchanges:
  assumes "xh_rehash n p x m = (ok, x', m')" "xh_pointer_ok x" "owned (xh_buffer x) m" "unused p m"
  shows "xh_pointer_ok x' \<and> exchanged (xh_buffer x) (xh_buffer x') m m'"
proof -
  obtain d m1 where d: "alloc_block n entrySize p m = (d, m1)" by fastforce
  then show ?thesis
  proof (cases rule: alloc_block_cases)
    case null
    then show ?thesis using assms d exchanged_same by (auto simp: xh_rehash_def)
  next
    case (block c)
    define t where "t = (xh_index x)\<lparr>ix_entries := replicate n emptyEntry, ix_capacity := n, ix_size := 0, ix_deletedCount := 0\<rparr>"
    obtain fits t' where l: "rehash_loop (ix_entries (xh_index x)) t = (fits, t')" by fastforce
    have cap: "ix_capacity t' = n" using rehash_loop_capacity [OF l] by (simp add: t_def)
    show ?thesis
    proof (cases fits)
      case True
      then have "x' = x\<lparr>xh_entries := Some c, xh_index := t'\<rparr>" "m' = schedulerDeallocate (xh_entries x) m1"
        using assms(1) d block l by (auto simp: xh_rehash_def Let_def t_def)
      then show ?thesis
        using assms(3,4) block cap exchanged_replaced [of _ "xh_entries x" m c "n * entrySize"]
        by (auto simp: xh_pointer_ok_def xh_buffer_def)
    next
      case False
      then have "xh_entries x' = xh_entries x" "ix_capacity (xh_index x') = ix_capacity (xh_index x)" "m' = schedulerDeallocate p m1"
        using assms(1) d block l by (auto simp: xh_rehash_def Let_def t_def)
      then show ?thesis
        using assms(2-4) block granted_undone [of p m] exchanged_same [of "xh_buffer x" m]
        by (simp add: xh_pointer_ok_def xh_buffer_def)
    qed
  qed
qed

lemma xh_set_exchanges:
  assumes "xh_set k i p x m = (ok, x', m')" "xh_pointer_ok x" "owned (xh_buffer x) m" "unused p m"
  shows "xh_pointer_ok x' \<and> exchanged (xh_buffer x) (xh_buffer x') m m'"
proof -
  obtain ok1 x1 m1 where e: "xh_ensureCapacityForInsert p x m = (ok1, x1, m1)" by (metis prod_cases3)
  have 1: "xh_pointer_ok x1 \<and> exchanged (xh_buffer x) (xh_buffer x1) m m1"
    using e assms(2-4) xh_rehash_exchanges [of _ p x m ok1 x1 m1] exchanged_same [of "xh_buffer x" m]
    by (auto simp: xh_ensureCapacityForInsert_def Let_def split: if_splits)
  obtain ok2 t where t: "insertOrAssign k i (xh_index x1) = (ok2, t)" by fastforce
  have "k = 0 \<and> x' = x \<and> m' = m \<or> m' = m1 \<and> (x' = x1 \<or> x' = x1\<lparr>xh_index := t\<rparr>)"
    using assms(1) e t by (auto simp: xh_set_def split: if_splits)
  then show ?thesis
    using 1 assms(2,3) exchanged_same [of "xh_buffer x" m] insertOrAssign_capacity [OF t]
    by (auto simp: xh_pointer_ok_def xh_buffer_def)
qed

lemma ix_clear_wf: "ix_wf t \<Longrightarrow> ix_wf (ix_clear t)"
  by (auto simp: ix_wf_def ix_clear_def table_ok_def emptyEntry_def occ_def del_def)

lemma index_call_exchanges:
  assumes "index_call c p x m = (x', m')" "xh_wf x" "owned (xh_buffer x) m" "unused p m"
  shows "xh_wf x' \<and> exchanged (xh_buffer x) (xh_buffer x') m m'"
proof (cases c)
  case (SetSlot k i)
  obtain ok where s: "xh_set k i p x m = (ok, x', m')" using assms(1) SetSlot by (cases "xh_set k i p x m") simp
  obtain h' where "ix_set k i (xh_index x) (answering p) = (ok, xh_index x', h')" using xh_set_refines [OF s] by blast
  then have "ix_wf (xh_index x')" using ix_set_spec(1) assms(2) by (auto simp: xh_wf_def)
  then show ?thesis using xh_set_exchanges [OF s _ assms(3,4)] assms(2) by (simp add: xh_wf_def xh_pointer_ok_def)
next
  case (RemoveId k)
  have "ix_capacity (snd (ix_remove k (xh_index x))) = ix_capacity (xh_index x)"
    by (simp add: ix_remove_def split: option.splits)
  moreover have "ix_wf (snd (ix_remove k (xh_index x)))"
    using ix_remove_spec(1) [of "xh_index x" k] assms(2) by (cases "ix_remove k (xh_index x)") (simp add: xh_wf_def)
  ultimately show ?thesis using assms(1-3) RemoveId exchanged_same by (auto simp: xh_wf_def xh_buffer_def)
next
  case ClearIndex
  have "ix_capacity (ix_clear (xh_index x)) = ix_capacity (xh_index x)" by (simp add: ix_clear_def)
  then show ?thesis using assms(1-3) ClearIndex exchanged_same ix_clear_wf by (auto simp: xh_wf_def xh_buffer_def)
qed

lemma xh_new_wf: "xh_wf (xh_new u)"
  by (simp add: xh_wf_def xh_new_def) (simp add: newIndex_def)

lemma xh_emptied_wf: "xh_wf (xh_emptied x)" "xh_entries (xh_emptied x) = None"
  by (simp_all add: xh_wf_def xh_emptied_def ix_wf_def table_ok_def)

lemma xh_wf_handed: "xh_wf (\<lparr>xh_entries = xh_entries g, xh_index = xh_index g\<rparr>) = xh_wf g"
  "xh_wf (h\<lparr>xh_entries := xh_entries g, xh_index := xh_index g\<rparr>) = xh_wf g"
  by (simp_all add: xh_wf_def)

interpretation index_container: owning_container index_ops xh_wf
proof
  fix c p h m h' m'
  assume "cn_call index_ops c p h m = (h', m')" "xh_wf h" "owned (cn_buffer index_ops h) m" "unused p m"
  then show "xh_wf h' \<and> exchanged (cn_buffer index_ops h) (cn_buffer index_ops h') m m'"
    using index_call_exchanges [of c p h m h' m'] by (simp add: index_ops_def)
qed (auto simp: index_ops_def xh_new_wf xh_buffer_def xh_new_def [THEN arg_cong [where f = xh_entries]] xh_destroy_def
    xh_moveConstruct_def xh_emptied_wf xh_wf_handed xh_moveAssign_def Let_def)

section \<open>Memory safety\<close>

text \<open>
  C13: however a program constructs, moves, assigns, fills and destroys arrays, strings and id indexes,
  and whichever allocations fail, no buffer is freed twice, the live blocks are exactly the buffers
  of the objects that exist, each as large as the object takes it to be, so nothing leaks and no
  element lies outside its block, no two objects share a buffer, and every object keeps its invariant.
\<close>

theorem container_buffers_accounted:
  assumes "container_reachable (array_ops elemSize) (arrays, m1)" "container_reachable string_ops (strings, m2)"
    and "container_reachable index_ops (indexes, m3)"
  shows "accounted (buffers (array_ops elemSize) arrays) m1 \<and> (\<forall>a \<in> ran arrays. ah_wf a) \<and>
    accounted (buffers string_ops strings) m2 \<and> (\<forall>s \<in> ran strings. sh_wf s) \<and>
    accounted (buffers index_ops indexes) m3 \<and> (\<forall>x \<in> ran indexes. xh_wf x)"
  using array_container.reachable_accounted [OF assms(1)] string_container.reachable_accounted [OF assms(2)]
    index_container.reachable_accounted [OF assms(3)] by (auto simp: ran_def)

text \<open>An array that grew and was moved, a string that was assigned, and no index.\<close>

definition sample_array :: "nat ArrayHandle" where
  "sample_array = \<lparr>ah_data = Some 3, ah_array = \<lparr>arr_data = [7], arr_capacity = 4, arr_elemSize = 8, arr_usePSRAM = False\<rparr>\<rparr>"

definition sample_string :: StringHandle where
  "sample_string = \<lparr>sh_data = Some 5, sh_string = \<lparr>str_data = Some ''ab'', str_length = 2, str_usePSRAM = False\<rparr>\<rparr>"

lemma sample_array_reachable:
  "container_reachable (array_ops 8) ([0 \<mapsto> ah_new 8 False, 1 \<mapsto> sample_array], \<lparr>mm_blocks = [3 \<mapsto> 32], mm_fault = False\<rparr>)"
proof -
  have 1: "container_reachable (array_ops 8) ([0 \<mapsto> ah_new 8 False :: nat ArrayHandle], no_memory)"
    using container_reachable.step [OF container_reachable.start container_step.construct [of Map.empty 0 "array_ops 8"]]
    by (simp add: array_ops_def)
  have "container_step (array_ops 8) ([0 \<mapsto> ah_new 8 False], no_memory)
      ([0 \<mapsto> ah_new 8 False, 0 \<mapsto> sample_array], \<lparr>mm_blocks = [3 \<mapsto> 32], mm_fault = False\<rparr>)"
    by (rule container_step.call [where p = "Some 3" and c = "EmplaceBack 7" and h = "ah_new 8 False"])
      (simp_all add: array_ops_def ah_emplaceBack_def ah_reserve_def ah_new_def newArray_def sample_array_def granted_def
        alloc_block_def SIZE_MAX_def arr_size_def no_memory_def unused_def)
  then have 2: "container_reachable (array_ops 8) ([0 \<mapsto> sample_array], \<lparr>mm_blocks = [3 \<mapsto> 32], mm_fault = False\<rparr>)"
    using container_reachable.step [OF 1] by simp
  have "container_step (array_ops 8) ([0 \<mapsto> sample_array], \<lparr>mm_blocks = [3 \<mapsto> 32], mm_fault = False\<rparr>)
      ([0 \<mapsto> sample_array, 1 \<mapsto> sample_array, 0 \<mapsto> ah_new 8 False], \<lparr>mm_blocks = [3 \<mapsto> 32], mm_fault = False\<rparr>)"
    by (rule container_step.move_construct [where h = sample_array])
      (simp_all add: array_ops_def ah_moveConstruct_def ah_emptied_def ah_new_def newArray_def sample_array_def)
  moreover have "[0 \<mapsto> sample_array, 1 \<mapsto> sample_array, 0 \<mapsto> ah_new 8 False] = [0 \<mapsto> ah_new 8 False, Suc 0 \<mapsto> sample_array]"
    by (auto simp: fun_eq_iff)
  ultimately show ?thesis using container_reachable.step [OF 2] by simp
qed

lemma sample_string_reachable:
  "container_reachable string_ops ([0 \<mapsto> sample_string], \<lparr>mm_blocks = [5 \<mapsto> 3], mm_fault = False\<rparr>)"
proof -
  have 1: "container_reachable string_ops ([0 \<mapsto> sh_new False], no_memory)"
    using container_reachable.step [OF container_reachable.start container_step.construct [of Map.empty 0 string_ops]]
    by (simp add: string_ops_def)
  have "container_step string_ops ([0 \<mapsto> sh_new False], no_memory)
      ([0 \<mapsto> sh_new False, 0 \<mapsto> sample_string], \<lparr>mm_blocks = [5 \<mapsto> 3], mm_fault = False\<rparr>)"
    by (rule container_step.call [where p = "Some 5" and c = "Assign (Some ''ab'')" and h = "sh_new False"])
      (simp_all add: string_ops_def sh_assign_def sh_new_def newString_def sample_string_def granted_def
        alloc_block_def SIZE_MAX_def no_memory_def unused_def numeral_3_eq_3)
  then show ?thesis using container_reachable.step [OF 1] by simp
qed

theorem container_buffers_accounted_witness:
  "accounted (buffers (array_ops 8) [0 \<mapsto> ah_new 8 False, 1 \<mapsto> sample_array]) \<lparr>mm_blocks = [3 \<mapsto> 32], mm_fault = False\<rparr> \<and>
   accounted (buffers string_ops [0 \<mapsto> sample_string]) \<lparr>mm_blocks = [5 \<mapsto> 3], mm_fault = False\<rparr>"
  using container_buffers_accounted [OF sample_array_reachable sample_string_reachable container_reachable.start] by blast

end
