(* ===== verification/Job_Flights.thy ===== *)
theory Job_Flights
  imports Dispatch_Safety
begin

text \<open>
  How many invocations of each job the core believes to be under way. \<open>flight c s\<close> is the multiset of the
  invocations that the job in slot \<open>s\<close> counts in \<^verbatim>\<open>runningCount\<close>, each as the triple of slot, id and
  generation that a completion event carries. Every operation of the core other than starting and completing
  an invocation leaves it alone, although slots are retired, reused and rolled back.
\<close>

section \<open>Invocations under way\<close>

type_synonym flight_key = "nat \<times> u32 \<times> u32"

definition flight_of :: "nat \<Rightarrow> JobRecord \<Rightarrow> flight_key multiset" where
  "flight_of s r =
     (if jr_occupied r then replicate_mset (unat (jr_runningCount r)) (s, jr_id r, jr_generation r) else {#})"

definition flight :: "SchedulerCore \<Rightarrow> nat \<Rightarrow> flight_key multiset" where
  "flight c s = (if s < job_count c then flight_of s (job_at c s) else {#})"

lemma flight_jobs: "core_jobs c' = core_jobs c \<Longrightarrow> flight c' = flight c"
  by (auto simp: flight_def job_count_def job_at_def)

lemma flight_update [simp]:
  "flight (c\<lparr>core_dueHeap := q\<rparr>) = flight c" "flight (c\<lparr>core_heap := h\<rparr>) = flight c"
  "flight (c\<lparr>core_pendingSchedules := p\<rparr>) = flight c" "flight (c\<lparr>core_freeSlots := f\<rparr>) = flight c"
  "flight (c\<lparr>core_jobIndex := x\<rparr>) = flight c" "flight (c\<lparr>core_nextId := n\<rparr>) = flight c"
  "flight (c\<lparr>core_minValidEpochSeconds := t\<rparr>) = flight c"
  by (rule flight_jobs; simp)+

lemma flight_set_job: "flight (set_job s r c) t = (if t = s \<and> s < job_count c then flight_of s r else flight c t)"
  by (simp add: flight_def job_at_set_job)

lemma flight_set_same: "flight_of s r = flight_of s (job_at c s) \<Longrightarrow> flight (set_job s r c) = flight c"
  by (rule ext) (auto simp: flight_set_job, simp add: flight_def)

lemma flight_of_idle: "jr_runningCount r = 0 \<Longrightarrow> flight_of s r = {#}"
  by (simp add: flight_of_def)

lemma flight_of_computeNextForJob [simp]: "flight_of s (snd (computeNextForJob date r t)) = flight_of s r"
  by (simp add: flight_of_def)

lemma flight_of_update [simp]:
  "flight_of s (r\<lparr>jr_hasNext := b\<rparr>) = flight_of s r" "flight_of s (r\<lparr>jr_nextRunUtc := u\<rparr>) = flight_of s r"
  "flight_of s (r\<lparr>jr_pendingSchedule := b\<rparr>) = flight_of s r" "flight_of s (r\<lparr>jr_refreshPending := b\<rparr>) = flight_of s r"
  "flight_of s (r\<lparr>jr_queuedWhileRunning := b\<rparr>) = flight_of s r" "flight_of s (r\<lparr>jr_paused := b\<rparr>) = flight_of s r"
  "flight_of s (r\<lparr>jr_canceled := b\<rparr>) = flight_of s r" "flight_of s (r\<lparr>jr_scheduleFromUtc := u\<rparr>) = flight_of s r"
  by (simp_all add: flight_of_def)

section \<open>Operations that leave it alone\<close>

lemma flight_pushDue [simp]: "flight (snd (pushDue s r c)) = flight c"
  by (rule flight_jobs) simp

lemma flight_push_or_clear [simp]: "flight (push_or_clear s c) = flight c"
  unfolding push_or_clear_def Let_def case_prod_unfold by (simp add: flight_set_same)

lemma flight_plan_slot [simp]: "flight (plan_slot date s r t c) = flight (set_job s r c)"
  unfolding plan_slot_def Let_def case_prod_unfold by (simp add: fun_eq_iff flight_set_job)

lemma flight_queueScheduling [simp]: "flight (snd (queueScheduling s t c)) = flight c"
  unfolding queueScheduling_def Let_def case_prod_unfold
  by (auto simp: fun_eq_iff flight_set_job) (simp_all add: flight_def)

lemma flight_clearScheduling [simp]: "flight (clearScheduling s c) = flight c"
  by (simp add: clearScheduling_def flight_set_same)

lemma flight_drain_one [simp]: "flight (drain_one date s c) = flight c"
  by (simp add: drain_one_def Let_def flight_set_same)

lemma flight_drain_loop [simp]: "flight (drain_loop date c) = flight c"
proof (induction date c rule: drain_loop.induct)
  case (1 date c)
  then show ?case by (subst drain_loop.simps) (simp add: Let_def)
qed

lemma flight_drainPendingSchedules [simp]: "flight (drainPendingSchedules date t c) = flight c"
  by (simp add: drainPendingSchedules_def)

lemma flight_prune [simp]: "flight (pruneInvalidDueEntries c) = flight c"
proof -
  obtain q where "pruneInvalidDueEntries c = c\<lparr>core_dueHeap := q\<rparr>" using prune_pruned [of c] by blast
  then show ?thesis by simp
qed

text \<open>A slot is only retired when nothing runs in it.\<close>

lemma flight_retireJob: "flight c s = {#} \<Longrightarrow> flight (retireJob s c) = flight c"
  by (rule ext) (simp add: retireJob_def Let_def case_prod_unfold flight_set_job flight_of_def)

lemma flight_finalizeCanceledIfIdle [simp]: "flight (finalizeCanceledIfIdle s c) = flight c"
  by (simp add: finalizeCanceledIfIdle_def Let_def flight_retireJob flight_def flight_of_idle)

lemma flight_complete_idle [simp]: "flight (complete_idle t s c) = flight c"
proof -
  define c1 where "c1 = (if jr_runningCount (job_at c s) = 0 \<and> \<not> jr_paused (job_at c s) \<and> \<not> jr_hasNext (job_at c s) \<and>
      \<not> one_shot (job_at c s) then snd (queueScheduling s t c) else c)"
  have "flight c1 s = {#}" if "jr_runningCount (job_at c1 s) = 0" using that by (simp add: flight_def flight_of_idle)
  then have "flight (complete_idle t s c) = flight c1"
    unfolding complete_idle_def Let_def c1_def [symmetric] by (simp add: flight_retireJob)
  also have "\<dots> = flight c" by (simp add: c1_def)
  finally show ?thesis .
qed

lemma flight_retry_later [simp]: "flight (retry_later date t s c) = flight c"
  by (simp add: retry_later_def flight_set_same)

lemma flight_cancel_slot [simp]: "flight (cancel_slot s c) = flight c"
  by (simp add: cancel_slot_def flight_set_same)

lemma flight_cancel_loop [simp]: "flight (cancel_loop i n c) = flight c"
  by (induction i n c rule: cancel_loop.induct) (simp_all add: Let_def)

lemma flight_refresh_slot [simp]: "flight (refresh_slot date t s c) = flight c"
  by (simp add: refresh_slot_def Let_def flight_set_same)

lemma flight_refresh_loop [simp]: "flight (refresh_loop date t i n c) = flight c"
  by (induction date t i n c rule: refresh_loop.induct) simp_all

lemma flight_operations [simp]:
  "flight (snd (cancelJob k c)) = flight c" "flight (snd (pauseJob k c)) = flight c" "flight (snd (resumeJob k t c)) = flight c"
  "flight (snd (cancelAll c)) = flight c" "flight (snd (refreshAllSchedules date t c)) = flight c"
  "flight (setMinValidUnixSeconds m c) = flight c"
  by (auto simp: cancelJob_def pauseJob_def resumeJob_def cancelAll_def refreshAllSchedules_def setMinValidUnixSeconds_def
      Let_def case_prod_unfold flight_set_same split: sum.splits)

section \<open>Adding a job\<close>

text \<open>The new record is idle, and it takes a slot in which nothing runs.\<close>

lemma place_job_flight:
  assumes "free_inv c" "jr_runningCount r = 0" "place_job r c = (Some (s, reused), c')"
  shows "flight c' = flight c \<and> flight c' s = {#} \<and> s < job_count c' \<and> (reused = None \<longrightarrow> job_count c' = Suc s)"
proof (cases "arr_empty (core_freeSlots c)")
  case False
  let ?f = "arr_data (core_freeSlots c)"
  have ne: "?f \<noteq> []" using False by (simp add: arr_defs)
  then have "arr_at (core_freeSlots c) (arr_size (core_freeSlots c) - 1) \<in> set ?f" by (simp add: arr_defs)
  then have s: "s < job_count c" "\<not> jr_occupied (job_at c s)" and c': "reused \<noteq> None"
    "c' = set_job s (r\<lparr>jr_generation := jr_generation (job_at c s)\<rparr>) (c\<lparr>core_freeSlots := popBack (core_freeSlots c)\<rparr>)"
    using assms(1,3) False by (auto simp: place_job_def free_inv_def Let_def)
  have "flight_of s (r\<lparr>jr_generation := g\<rparr>) = {#}" for g using assms(2) by (simp add: flight_of_idle)
  then show ?thesis using s c' by (auto simp: fun_eq_iff flight_set_job) (simp add: flight_def flight_of_def)
next
  case True
  obtain js h where p: "pushBack r (core_jobs c) (core_heap c) = (True, js, h)" and s: "s = job_count c"
    and c': "c' = c\<lparr>core_jobs := js, core_heap := h\<rparr>" "reused = None"
    using assms(3) True by (auto simp: place_job_def Let_def split: prod.splits if_splits)
  have js: "arr_data js = arr_data (core_jobs c) @ [r]" using p by (cases rule: pushBack_cases) auto
  have "flight c' t = flight c t" for t
    using assms(2) by (auto simp: c' flight_def job_at_def job_count_def arr_defs js nth_append flight_of_idle)
  then have "flight c' = flight c" by (rule ext)
  moreover have "flight c s = {#}" using s by (simp add: flight_def)
  ultimately show ?thesis using s c' js by (simp add: job_count_def arr_defs)
qed

lemma unplace_job_flight:
  assumes "flight c s = {#}" "reused = None \<Longrightarrow> job_count c = Suc s"
  shows "flight (unplace_job s reused c) = flight c"
proof (cases reused)
  case None
  have "flight (unplace_job s reused c) t = flight c t" for t
    using assms by (cases "t = s") (auto simp: None unplace_job_def Let_def flight_def job_count_def job_at_def arr_defs nth_butlast)
  then show ?thesis by auto
next
  case (Some g)
  have "flight_of s ((newJobRecord p)\<lparr>jr_generation := g\<rparr>) = {#}" for p by (simp add: flight_of_def newJobRecord_def)
  then show ?thesis using assms(1) by (auto simp: Some unplace_job_def Let_def case_prod_unfold fun_eq_iff flight_set_job)
qed

lemma schedule_new_flight [simp]: "flight (snd (schedule_new p t s c)) = flight c"
  "job_count (snd (schedule_new p t s c)) = job_count c"
  using queueScheduling_evolves [of epochDate c s t] by (simp_all add: schedule_new_def table_evolves_def)

lemma register_job_flight [simp]: "flight (snd (register_job s c)) = flight c" "job_count (snd (register_job s c)) = job_count c"
  by (simp_all add: register_job_def case_prod_unfold Let_def)

lemma install_job_flight:
  assumes "free_inv c" "jr_runningCount r = 0"
  shows "flight (snd (install_job p t r c)) = flight c"
proof (cases "fst (place_job r c)")
  case None
  then have "core_jobs (snd (place_job r c)) = core_jobs c"
    by (auto simp: place_job_def Let_def split: if_splits prod.splits elim: pushBack_cases)
  then have "flight (snd (place_job r c)) = flight c" by (rule flight_jobs)
  then show ?thesis using None by (simp add: install_job_def case_prod_unfold Let_def)
next
  case (Some sr)
  then obtain s reused c1 where pl: "place_job r c = (Some (s, reused), c1)" by (cases sr; cases "place_job r c") auto
  note f = place_job_flight [OF assms pl]
  define c2 where "c2 = snd (register_job s c1)"
  define c3 where "c3 = snd (schedule_new p t s c2)"
  have 2: "flight c2 = flight c" "flight c2 s = {#}" "reused = None \<Longrightarrow> job_count c2 = Suc s" using f by (auto simp: c2_def)
  then have 3: "flight c3 = flight c" "flight c3 s = {#}" "reused = None \<Longrightarrow> job_count c3 = Suc s" by (auto simp: c3_def)
  have "snd (install_job p t r c) \<in> {unplace_job s reused c2, unplace_job s reused c3, c3}"
    unfolding install_job_def pl c3_def c2_def by (simp add: case_prod_unfold Let_def)
  then show ?thesis using 2 3 unplace_job_flight [of c2 s reused] unplace_job_flight [of c3 s reused] by auto
qed

lemma flight_addJob:
  assumes "core_inv c"
  shows "flight (snd (addJob date sched opts cb t c)) = flight c"
proof -
  have f: "free_inv c" using core_invD(1) [OF assms] by (simp add: frame_inv_def)
  obtain ok nm h where a: "str_assign (opt_name opts) (newString (core_usePSRAMMetadata c)) (core_heap c) = (ok, nm, h)"
    by (metis prod_cases3)
  consider (refused) "\<not> (cb_valid cb \<and> validate sched)" | (full) "cb_valid cb" "validate sched" "\<not> ok"
    | (stored) "cb_valid cb" "validate sched" "ok" by blast
  then show ?thesis
  proof cases
    case refused
    then show ?thesis by (auto simp: addJob_def)
  next
    case full
    then have "snd (addJob date sched opts cb t c) = c\<lparr>core_nextId := core_nextId c + 1, core_heap := h\<rparr>"
      using a by (simp add: addJob_def Let_def job_record_for_def newJobRecord_def)
    then show ?thesis by simp
  next
    case stored
    then have a: "str_assign (opt_name opts) (newString (core_usePSRAMMetadata c)) (core_heap c) = (True, nm, h)" using a by simp
    have "jr_runningCount (added_record sched opts cb c nm) = 0"
      by (simp add: added_record_def job_record_for_def newJobRecord_def Let_def split: option.splits)
    moreover have "free_inv (c\<lparr>core_nextId := core_nextId c + 1, core_heap := h\<rparr>)" using f by (simp add: free_inv_def)
    ultimately show ?thesis unfolding addJob_install [OF stored(1,2) a] by (simp add: install_job_flight)
  qed
qed

end
