(* ===== verification/Invocation_Flow.thy ===== *)
theory Invocation_Flow
  imports Job_Flights
begin

text \<open>
  The account of invocations across the core and the executors. The executors' state determines a
  multiset of unfinished invocations; what the core needs to know of it is a locale, in which dispatching and
  completing are shown to keep the two sides equal.
\<close>

section \<open>The two sides of the account\<close>

definition invocation_key :: "JobInvocation \<Rightarrow> flight_key" where
  "invocation_key i = (inv_slotIndex i, inv_jobId i, inv_generation i)"

definition event_key :: "SchedulerEvent \<Rightarrow> flight_key" where
  "event_key ev = (ev_slotIndex ev, ev_jobId ev, ev_generation ev)"

definition in_slot :: "nat \<Rightarrow> flight_key multiset \<Rightarrow> flight_key multiset" where
  "in_slot s L = filter_mset (\<lambda>k. fst k = s) L"

text \<open>
  The unfinished invocations \<open>L\<close> are exactly those the core counts. \<^verbatim>\<open>runningCount\<close> has 16 bits, so \<open>settled\<close>
  says nothing beyond 65535 unfinished invocations.
\<close>

definition balanced :: "flight_key multiset \<Rightarrow> (nat \<Rightarrow> flight_key multiset) \<Rightarrow> bool" where
  "balanced L F \<longleftrightarrow> (\<forall>s. in_slot s L = F s)"

definition settled :: "flight_key multiset \<Rightarrow> (nat \<Rightarrow> flight_key multiset) \<Rightarrow> bool" where
  "settled L F \<longleftrightarrow> (size L < 2 ^ 16 \<longrightarrow> balanced L F)"

lemma in_slot_add [simp]: "in_slot s (add_mset k L) = (if fst k = s then add_mset k (in_slot s L) else in_slot s L)"
  by (simp add: in_slot_def)

lemma size_in_slot: "size (in_slot s L) \<le> size L"
  by (simp add: in_slot_def size_mset_mono)

lemma unat_less_u16: "unat (w :: u16) < 2 ^ 16"
  using unsigned_less [of w] by simp

lemma unat_Suc_u16: "unat (w :: u16) + 1 < 2 ^ 16 \<Longrightarrow> unat (w + 1) = unat w + 1"
  by (simp add: unat_word_ariths)

text \<open>One more invocation on both sides, as long as the counter does not wrap.\<close>

definition more_running :: "JobRecord \<Rightarrow> JobRecord" where
  "more_running r = r\<lparr>jr_runningCount := jr_runningCount r + 1\<rparr>"

lemma flight_started:
  "s < job_count c \<Longrightarrow> flight (started date f s c) = (flight c)(s := flight_of s (more_running (job_at c s)))"
  by (rule ext) (simp add: started_def more_running_def Let_def flight_set_job)

lemma settled_more:
  assumes "settled L (flight c)" "s < job_count c" "jr_occupied (job_at c s)"
    and "k = (s, jr_id (job_at c s), jr_generation (job_at c s))"
    and "flight c' = (flight c)(s := flight_of s (more_running (job_at c s)))"
  shows "settled (add_mset k L) (flight c')"
  unfolding settled_def
proof
  let ?r = "job_at c s"
  assume b: "size (add_mset k L) < 2 ^ 16"
  then have bal: "in_slot t L = flight c t" for t using assms(1) by (simp add: settled_def balanced_def)
  have fs: "flight c s = replicate_mset (unat (jr_runningCount ?r)) k" using assms(2-4) by (simp add: flight_def flight_of_def)
  have "unat (jr_runningCount ?r) \<le> size L" using size_in_slot [of s L] bal [of s] fs by simp
  then have "unat (jr_runningCount ?r + 1) = unat (jr_runningCount ?r) + 1" using b by (intro unat_Suc_u16) simp
  then have "flight_of s (more_running ?r) = add_mset k (flight c s)"
    using assms(3,4) fs by (simp add: flight_of_def more_running_def)
  then show "balanced (add_mset k L) (flight c')" using bal assms(4,5) by (auto simp: balanced_def)
qed

text \<open>One fewer on both sides.\<close>

lemma flight_of_less_running: "flight_of s (less_running r) = flight_of s r - {#(s, jr_id r, jr_generation r)#}"
proof (cases "jr_runningCount r = 0")
  case True
  then show ?thesis by (simp add: less_running_def flight_of_def)
next
  case False
  then have "0 < unat (jr_runningCount r)" by (simp add: unat_gt_0)
  then obtain n where n: "unat (jr_runningCount r) = Suc n" by (cases "unat (jr_runningCount r)") auto
  have "unat (jr_runningCount r - 1) = n" using False n by (simp add: unat_minus_one)
  then show ?thesis using False n by (simp add: less_running_def flight_of_def word_gt_0)
qed

lemma balanced_less:
  assumes "balanced (add_mset k L) (flight c)" "s < job_count c" "jr_occupied (job_at c s)"
    and "k = (s, jr_id (job_at c s), jr_generation (job_at c s))"
  shows "balanced L (flight (set_job s (less_running (job_at c s)) c))"
proof -
  have b: "in_slot t (add_mset k L) = flight c t" for t using assms(1) by (simp add: balanced_def)
  then have "flight_of s (job_at c s) = add_mset k (in_slot s L)"
    using b [of s] assms(2,4) by (simp add: flight_def)
  then have s: "in_slot s L = flight_of s (less_running (job_at c s))" using assms(4) by (simp add: flight_of_less_running)
  have "in_slot t L = flight (set_job s (less_running (job_at c s)) c) t" for t
    using b [of t] s assms(2,4) by (cases "t = s") (simp_all add: flight_set_job)
  then show ?thesis by (simp add: balanced_def)
qed

section \<open>The interface\<close>

text \<open>
  An accepted asynchronous submission adds its invocation to the unfinished ones; a refused one
  and an inline one, whose callback has returned, add nothing.
\<close>

locale tracked_executors =
  fixes ex :: "'e IExecutorResolver" and load :: "'e \<Rightarrow> flight_key multiset"
  assumes inline_law: "inlineExecutor ex = Some submit \<Longrightarrow> load (snd (submit i e)) = load e"
    and async_law: "executorFor ex k = Some submit2 \<Longrightarrow>
      load (snd (submit2 i e)) = (if fst (submit2 i e) then add_mset (invocation_key i) (load e) else load e)"
begin

lemma dispatchOne_settled:
  assumes "arrays_wf c" "s < job_count c" "ready (job_at c s)" "settled (load e) (flight c)"
  shows "settled (load (snd (dispatchOne date ex now s deferred c e))) (flight (fst (dispatchOne date ex now s deferred c e)))"
proof (cases "jr_dispatch (job_at c s) = Inline")
  case True
  let ?r = "job_at c s" and ?c = "started date False s c"
  note st = started_spec [OF assms(1-3), of date False]
  have idle: "jr_runningCount ?r = 0" using True assms(3) by (auto simp: ready_def slot_flags_def)
  have s: "s < job_count ?c" using st(1) assms(2) by (simp add: local_step_def)
  have 0: "flight c s = {#}" using idle by (simp add: flight_def flight_of_idle)
  have restored: "flight (set_job s r ?c) = flight c" if "jr_runningCount r = 0" for r
    using that s 0 by (auto simp: fun_eq_iff flight_set_job flight_of_idle flight_started [OF assms(2)])
  have one: "jr_runningCount (job_at ?c s) = 1" using st(5) idle by simp
  have finished: "flight (fst (handleCompletion date ex now s ?c e')) = flight c" "snd (handleCompletion date ex now s ?c e') = e'" for e'
    using s st one restored [of "less_running (job_at ?c s)"] by (simp_all add: handleCompletion_quiet) (simp add: less_running_def)
  have refused: "flight (retry_later date now s (stop_running s ?c)) = flight c"
    using one by (simp add: stop_running_def restored)
  show ?thesis
  proof (cases "inlineExecutor ex")
    case None
    then show ?thesis using True assms(2-4) by (subst (1 2) dispatchOne.simps) (simp add: Let_def ready_def)
  next
    case (Some submit)
    let ?x = "submit (invocation_of s ?r) e"
    have "dispatchOne date ex now s deferred c e =
        (if fst ?x then handleCompletion date ex now s ?c (snd ?x)
         else (retry_later date now s (stop_running s ?c), snd ?x))"
      using True Some assms(2,3) started_eqs(1) [OF assms(2), of date]
      by (subst dispatchOne.simps) (simp add: Let_def ready_def case_prod_unfold)
    then show ?thesis
      using assms(4) finished [of "snd ?x"] refused inline_law [OF Some, of "invocation_of s ?r" e] by simp
  qed
next
  case False
  let ?r = "job_at c s"
  have occ: "jr_occupied ?r" using assms(3) by (simp add: ready_def)
  show ?thesis
  proof (cases "executorFor ex (jr_executorId ?r)")
    case None
    then show ?thesis using False assms(2-4) by (subst (1 2) dispatchOne.simps) (simp add: Let_def ready_def)
  next
    case (Some submit)
    let ?x = "submit (invocation_of s ?r) e"
    have "dispatchOne date ex now s deferred c e =
        (if jr_hasDedicatedTaskOptions ?r \<and> jr_executorId ?r \<noteq> 1 then (retry_later date now s c, e)
         else if fst ?x then (started date deferred s c, snd ?x) else (retry_later date now s c, snd ?x))"
      using False Some assms(2,3) started_eqs(2) [OF assms(2), of date deferred]
      by (subst dispatchOne.simps) (simp add: Let_def ready_def case_prod_unfold)
    moreover have "invocation_key (invocation_of s ?r) = (s, jr_id ?r, jr_generation ?r)"
      by (simp add: invocation_key_def invocation_of_def)
    ultimately show ?thesis
      using assms(4) settled_more [OF assms(4,2) occ _ flight_started [OF assms(2)]]
        async_law [OF Some, of "invocation_of s ?r" e] by simp
  qed
qed

lemma turn_settled:
  assumes "core_inv c" "\<not> dueEmpty (core_dueHeap c)" "validateDueEntry c (dueTop (core_dueHeap c))" "settled (load e) (flight c)"
  shows "settled (load (snd (turn date ex now c e))) (flight (fst (turn date ex now c e)))"
proof -
  define s where "s = due_slotIndex (dueTop (core_dueHeap c))"
  define c' where "c' = c\<lparr>core_dueHeap := snd (duePop (core_dueHeap c))\<rparr>"
  note p = popped [OF assms(1-3), folded s_def c'_def]
  have st: "settled (load e) (flight c')" using assms(4) by (simp add: c'_def)
  have run: "settled (load (snd (dispatchOne date ex now s False c' e))) (flight (fst (dispatchOne date ex now s False c' e)))"
    if "\<not> jr_paused (job_at c' s)" "\<not> (jr_runningCount (job_at c' s) > 0 \<and> jr_overlap (job_at c' s) \<noteq> AllowParallel)"
  proof (rule dispatchOne_settled [OF _ p(4) _ st])
    show "arrays_wf c'" using p(1) by (simp add: frame_inv_def)
    show "ready (job_at c' s)" using that p(5-7) by (auto simp: ready_def word_gt_0)
  qed
  show ?thesis
    unfolding turn_def Let_def s_def [symmetric] c'_def [symmetric] using st run
    by (simp add: flight_set_same del: not_gr_zero word_neq_0_conv)
qed

lemma dispatch_loop_settled:
  assumes "dispatch_loop date ex now c e = Some (c', e')" "core_inv c" "settled (load e) (flight c)"
  shows "settled (load e') (flight c')"
proof -
  have "core_inv c \<longrightarrow> settled (load e) (flight c) \<longrightarrow> settled (load (snd res)) (flight (fst res))"
    if "dispatch_loop date ex now c e = Some res" for res
    using that
  proof (induction rule: dispatch_loop_induct)
    case (stop c e)
    then show ?case by simp
  next
    case (turn c e res)
    let ?c = "pruneInvalidDueEntries c"
    have ne: "\<not> dueEmpty (core_dueHeap ?c)" using turn(1) by (simp add: caught_up_def)
    show ?case
    proof (intro impI)
      assume i: "core_inv c" "settled (load e) (flight c)"
      then have c: "core_inv ?c" "settled (load e) (flight ?c)" by (simp_all add: pruneInvalidDueEntries_inv)
      note t = turn_inv [OF c(1) ne prune_valid [OF ne], where date = date and ex = ex and now = now and e = e]
        turn_settled [OF c(1) ne prune_valid [OF ne] c(2), where date = date and now = now]
      show "settled (load (snd res)) (flight (fst res))" using turn(2) t by simp
    qed
  qed
  from this [OF assms(1)] show ?thesis using assms(2,3) by simp
qed

lemma dispatchDue_settled:
  assumes "dispatchDue date ex now c e = Some (c', e')" "core_inv c" "settled (load e) (flight c)"
  shows "settled (load e') (flight c')"
proof -
  let ?c = "pruneInvalidDueEntries (drainPendingSchedules date now c)"
  have "core_inv ?c" using assms(2) by (intro inv_intros)
  moreover have "settled (load e) (flight ?c)" using assms(3) by simp
  ultimately show ?thesis
    using assms(1,3) dispatch_loop_settled [of date now ?c e c' e'] by (auto simp: dispatchDue_def split: if_splits)
qed

text \<open>A completion takes its invocation off both sides and may start the run that was waiting for it.\<close>

lemma handleCompletion_settled:
  assumes "core_inv c" "s < job_count c" "jr_occupied (job_at c s)"
    and "balanced (add_mset (s, jr_id (job_at c s), jr_generation (job_at c s)) (load e)) (flight c)"
  shows "settled (load (snd (handleCompletion date ex now s c e))) (flight (fst (handleCompletion date ex now s c e)))"
proof -
  let ?r = "less_running (job_at c s)"
  define c1 where "c1 = set_job s ?r c"
  have "balanced (load e) (flight c1)" using balanced_less [OF assms(4,2,3)] by (simp add: c1_def)
  then have set: "settled (load e) (flight c1)" by (simp add: settled_def)
  have at: "job_at c1 s = ?r" "s < job_count c1" using assms(2) by (auto simp: c1_def job_at_set_job)
  have un: "handleCompletion date ex now s c e =
    (if jr_canceled ?r then (finalizeCanceledIfIdle s c1, e)
     else if jr_refreshPending ?r \<and> jr_runningCount ?r = 0
     then (snd (queueScheduling s now (set_job s (?r\<lparr>jr_refreshPending := False, jr_queuedWhileRunning := False,
             jr_hasNext := False\<rparr>) c1)), e)
     else if jr_queuedWhileRunning ?r \<and> jr_runningCount ?r = 0
     then dispatchDeferredIfNeeded date ex now s c1 e
     else (complete_idle now s c1, e))"
    using assms(2,3) by (subst handleCompletion.simps) (simp add: Let_def less_running_def c1_def)
  have deferred: "settled (load (snd (dispatchDeferredIfNeeded date ex now s c1 e))) (flight (fst (dispatchDeferredIfNeeded date ex now s c1 e)))"
    if q: "\<not> jr_canceled ?r" "jr_queuedWhileRunning ?r" "jr_runningCount ?r = 0" "\<not> jr_refreshPending ?r"
  proof -
    let ?d = "set_job s (?r\<lparr>jr_queuedWhileRunning := False\<rparr>) c1"
    have fl: "slot_flags (job_at c s)" using core_invD(4) [OF assms(1,2)] .
    have keep: "jr_occupied ?r" "jr_paused ?r = jr_paused (job_at c s)" using assms(3) by (auto simp: less_running_def)
    have p: "\<not> jr_paused ?r" using fl q(2) by (auto simp: slot_flags_def less_running_def split: if_splits)
    have "ready (job_at ?d s)"
      using fl q p keep(1) at by (auto simp: ready_def slot_flags_def less_running_def job_at_set_job)
    moreover have "arrays_wf ?d"
      using core_invD(5) [OF assms(1)] by (simp add: c1_def arrays_wf_def set_job_def)
    moreover have "settled (load e) (flight ?d)" using set at by (simp add: flight_set_same)
    ultimately have "settled (load (snd (dispatchOne date ex now s True ?d e))) (flight (fst (dispatchOne date ex now s True ?d e)))"
      using at(2) by (intro dispatchOne_settled) simp_all
    moreover have "dispatchDeferredIfNeeded date ex now s c1 e = dispatchOne date ex now s True ?d e"
      using q p keep(1) at by (subst dispatchDeferredIfNeeded.simps) (simp add: Let_def)
    ultimately show ?thesis by simp
  qed
  show ?thesis
    unfolding un using set deferred at by (simp add: flight_set_same)
qed

end

end
