(* ===== verification/Rtos.thy ===== *)
theory Rtos
  imports Scheduler_Types
begin

text \<open>
  What the scheduler uses of FreeRTOS, and \<^verbatim>\<open>executors/task_support.h\<close> on top of it. FreeRTOS is not
  part of the repository: its calls are the fields of records that every definition using them
  takes as an argument, and what the code relies on is stated as predicates on these records, from
  the FreeRTOS reference manual. Time outs of zero ticks are built in, because the scheduler uses
  no other on its queues.
\<close>

section \<open>Queues\<close>

text \<open>
  \<^verbatim>\<open>xQueueCreate(depth, size)\<close> may fail for lack of memory; \<^verbatim>\<open>xQueueSend(q, &x, 0)\<close> and
  \<^verbatim>\<open>xQueueReceive(q, &x, 0)\<close> report success. A state \<open>'q\<close> of a queue is opaque.
\<close>

record ('a, 'q) QueueApi =
  xQueueCreate :: "nat \<Rightarrow> heap \<Rightarrow> 'q option \<times> heap"
  xQueueSend :: "'a \<Rightarrow> 'q \<Rightarrow> bool \<times> 'q"
  xQueueReceive :: "'q \<Rightarrow> 'a option \<times> 'q"

text \<open>
  The documented behaviour: a queue of a given depth holds a list of items; a send appends its item
  and is refused on a full queue, a receive takes the oldest item and fails on an empty queue. A
  new queue is empty.
\<close>

definition fifo_queue :: "('a, 'q) QueueApi \<Rightarrow> ('q \<Rightarrow> 'a list) \<Rightarrow> ('q \<Rightarrow> nat) \<Rightarrow> bool" where
  "fifo_queue api items depth \<longleftrightarrow>
     (\<forall>d h q h'. xQueueCreate api d h = (Some q, h') \<longrightarrow> items q = [] \<and> depth q = d) \<and>
     (\<forall>x q. if length (items q) < depth q
            then fst (xQueueSend api x q) \<and> items (snd (xQueueSend api x q)) = items q @ [x]
            else \<not> fst (xQueueSend api x q) \<and> items (snd (xQueueSend api x q)) = items q) \<and>
     (\<forall>x q. depth (snd (xQueueSend api x q)) = depth q) \<and>
     (\<forall>q. case items q of
            [] \<Rightarrow> fst (xQueueReceive api q) = None \<and> items (snd (xQueueReceive api q)) = []
          | x # xs \<Rightarrow> fst (xQueueReceive api q) = Some x \<and> items (snd (xQueueReceive api q)) = xs) \<and>
     (\<forall>q. depth (snd (xQueueReceive api q)) = depth q)"

lemma fifo_send:
  assumes "fifo_queue api items depth"
  shows "fst (xQueueSend api x q) \<longleftrightarrow> length (items q) < depth q"
    "items (snd (xQueueSend api x q)) = (if length (items q) < depth q then items q @ [x] else items q)"
    "depth (snd (xQueueSend api x q)) = depth q"
  using assms unfolding fifo_queue_def by (metis, metis, metis)

lemma fifo_receive:
  assumes "fifo_queue api items depth"
  shows "fst (xQueueReceive api q) = (case items q of [] \<Rightarrow> None | x # xs \<Rightarrow> Some x)"
    "items (snd (xQueueReceive api q)) = tl (items q)"
    "depth (snd (xQueueReceive api q)) = depth q"
proof -
  have r: "case items q of [] \<Rightarrow> fst (xQueueReceive api q) = None \<and> items (snd (xQueueReceive api q)) = []
      | x # xs \<Rightarrow> fst (xQueueReceive api q) = Some x \<and> items (snd (xQueueReceive api q)) = xs"
    using assms unfolding fifo_queue_def by blast
  then show "fst (xQueueReceive api q) = (case items q of [] \<Rightarrow> None | x # xs \<Rightarrow> Some x)"
    "items (snd (xQueueReceive api q)) = tl (items q)"
    by (simp_all split: list.splits)
  show "depth (snd (xQueueReceive api q)) = depth q" using assms unfolding fifo_queue_def by blast
qed

lemma fifo_create:
  "fifo_queue api items depth \<Longrightarrow> xQueueCreate api d h = (Some q, h') \<Longrightarrow> items q = [] \<and> depth q = d"
  unfolding fifo_queue_def by blast

text \<open>A queue with the documented behaviour: its depth and the items it holds.\<close>

definition list_queue :: "('a, nat \<times> 'a list) QueueApi" where
  "list_queue =
     \<lparr>xQueueCreate = (\<lambda>d h. (if h 0 then Some (d, []) else None, \<lambda>n. h (Suc n))),
      xQueueSend = (\<lambda>x (d, xs). if length xs < d then (True, d, xs @ [x]) else (False, d, xs)),
      xQueueReceive = (\<lambda>(d, xs). case xs of [] \<Rightarrow> (None, d, []) | x # ys \<Rightarrow> (Some x, d, ys))\<rparr>"

lemma list_queue_fifo: "fifo_queue list_queue snd fst"
  by (auto simp: fifo_queue_def list_queue_def split: list.splits if_splits)

section \<open>Tasks\<close>

text \<open>
  A task is created from a request; the answer is whether \<^verbatim>\<open>pdPASS\<close> was returned and the handle that
  was written, if any. The memory capabilities of the chip and the compile-time switches of
  \<^verbatim>\<open>task_support.h\<close> are fields too.
\<close>

record TaskRequest =
  tr_name :: string
  tr_stackBytes :: nat
  tr_priority :: nat
  tr_coreId :: int

record 'o TaskApi =
  canUseExternalStacks :: bool
  spiramTotalSize :: nat
  sizeofStackType :: nat
  xTaskCreatePinnedToCore :: "TaskRequest \<Rightarrow> 'o \<Rightarrow> bool \<times> nat option \<times> 'o"
  xTaskCreatePinnedToCoreWithCaps :: "TaskRequest \<Rightarrow> 'o \<Rightarrow> bool \<times> nat option \<times> 'o"
  vTaskDelete :: "nat \<Rightarrow> 'o \<Rightarrow> 'o"
  vTaskDeleteWithCaps :: "nat \<Rightarrow> 'o \<Rightarrow> 'o"

definition kMinStackSizeBytes :: nat where "kMinStackSizeBytes = 1024"

definition hasExternalStackSupport :: "'o TaskApi \<Rightarrow> bool" where
  "hasExternalStackSupport os = (if canUseExternalStacks os then spiramTotalSize os > 0 else False)"

definition isValidStackSize :: "'o TaskApi \<Rightarrow> nat \<Rightarrow> bool" where
  "isValidStackSize os stackBytes \<longleftrightarrow>
     stackBytes \<ge> kMinStackSizeBytes \<and> stackBytes mod sizeofStackType os = 0"

text \<open>The result: \<^verbatim>\<open>created == pdPASS\<close>, the handle, \<^verbatim>\<open>createdWithCaps\<close> and the system.\<close>

definition createTaskPinned ::
  "'o TaskApi \<Rightarrow> TaskRequest \<Rightarrow> bool \<Rightarrow> 'o \<Rightarrow> bool \<times> nat option \<times> bool \<times> 'o" where
  "createTaskPinned os req usePsramStack o1 =
     (if \<not> isValidStackSize os (tr_stackBytes req) then (False, None, False, o1)
      else if usePsramStack then
        (if canUseExternalStacks os then
           (if \<not> hasExternalStackSupport os then (False, None, False, o1)
            else let (created, handle, o2) = xTaskCreatePinnedToCoreWithCaps os req o1
                 in (created, handle, created, o2))
         else (False, None, False, o1))
      else let (created, handle, o2) = xTaskCreatePinnedToCore os req o1
           in (created, handle, False, o2))"

definition deleteTask :: "'o TaskApi \<Rightarrow> nat option \<Rightarrow> bool \<Rightarrow> 'o \<Rightarrow> 'o" where
  "deleteTask os taskHandle withCaps o1 =
     (case taskHandle of
        None \<Rightarrow> o1
      | Some h \<Rightarrow> if canUseExternalStacks os \<and> withCaps then vTaskDeleteWithCaps os h o1
                 else vTaskDelete os h o1)"

text \<open>
  \<open>self\<close> is the handle of the calling task, which \<^verbatim>\<open>xTaskGetCurrentTaskHandle\<close> returns and for which the
  null pointer stands in \<^verbatim>\<open>vTaskDelete\<close>.
\<close>

definition deleteCurrentTask :: "'o TaskApi \<Rightarrow> nat \<Rightarrow> bool \<Rightarrow> 'o \<Rightarrow> 'o" where
  "deleteCurrentTask os self withCaps o1 =
     (if canUseExternalStacks os \<and> withCaps then vTaskDeleteWithCaps os self o1 else vTaskDelete os self o1)"

text \<open>
  A task is only ever requested with a stack of at least 1024 bytes that is a whole number of
  stack cells, and with a stack in external memory only where the chip has such memory; otherwise
  the system is not asked. The flag that decides how the task is deleted later says exactly
  whether it was created in external memory.
\<close>

lemma createTaskPinned_checked:
  "createTaskPinned os req psram o1 = (created, handle, caps, o2) \<Longrightarrow>
   (if \<not> isValidStackSize os (tr_stackBytes req) \<or> (psram \<and> \<not> hasExternalStackSupport os)
    then \<not> created \<and> handle = None \<and> \<not> caps \<and> o2 = o1
    else caps = (psram \<and> created) \<and>
      (created, handle, o2) = (if psram then xTaskCreatePinnedToCoreWithCaps os req o1
                               else xTaskCreatePinnedToCore os req o1))"
  by (auto simp: createTaskPinned_def hasExternalStackSupport_def Let_def split: if_splits prod.splits)

text \<open>A system without external memory that numbers its tasks and never refuses one.\<close>

definition counting_os :: "nat TaskApi" where
  "counting_os =
     \<lparr>canUseExternalStacks = False, spiramTotalSize = 0, sizeofStackType = 1,
      xTaskCreatePinnedToCore = (\<lambda>req n. (True, Some n, n + 1)),
      xTaskCreatePinnedToCoreWithCaps = (\<lambda>req n. (False, None, n)),
      vTaskDelete = (\<lambda>h n. n), vTaskDeleteWithCaps = (\<lambda>h n. n)\<rparr>"

end
