(* ===== verification/Executors.thy ===== *)
theory Executors
  imports Rtos
begin

text \<open>
  The executors of \<^verbatim>\<open>executors/\<close>: inline, worker pool, dedicated task and the ESPWorker adapter. Their
  common promise is the locale \<open>executor_contract\<close>: an accepted invocation is run exactly once and
  a refused one never. A task of an executor is a step of its own; which task runs next is not
  determined.
\<close>

section \<open>Completions\<close>

text \<open>
  \<^verbatim>\<open>SchedulerExecutorRuntime\<close> is shared by everything that may post an event; \<open>rt_eventQueue\<close> says
  whether its pointer to the event queue is set. An executor or a task holds a shared pointer to
  it, of which only being null matters.
\<close>

record SchedulerExecutorRuntime =
  rt_accepting :: bool
  rt_eventQueue :: bool

text \<open>
  What running callbacks acts on: the shared runtime, the event queue and the sequence of
  invocations whose callback was called.
\<close>

record 'q Completions =
  cp_runtime :: SchedulerExecutorRuntime
  cp_events :: 'q
  cp_ran :: "JobInvocation list"

definition finished_event :: "u32 \<Rightarrow> u32 \<Rightarrow> nat \<Rightarrow> SchedulerEvent" where
  "finished_event jobId generation slotIndex =
     \<lparr>ev_kind = JobFinished, ev_jobId = jobId, ev_generation = generation, ev_slotIndex = slotIndex\<rparr>"

definition postCompletion ::
  "(SchedulerEvent, 'q) QueueApi \<Rightarrow> bool \<Rightarrow> u32 \<Rightarrow> u32 \<Rightarrow> nat \<Rightarrow> 'q Completions \<Rightarrow> bool \<times> 'q Completions" where
  "postCompletion api runtime jobId generation slotIndex cp =
     (if \<not> runtime \<or> \<not> rt_accepting (cp_runtime cp) \<or> \<not> rt_eventQueue (cp_runtime cp) then (False, cp)
      else let (sent, q) = xQueueSend api (finished_event jobId generation slotIndex) (cp_events cp)
           in (sent, cp\<lparr>cp_events := q\<rparr>))"

text \<open>\<^verbatim>\<open>invocation.callback.invoke()\<close> followed by \<^verbatim>\<open>postCompletion\<close>, whose result is ignored.\<close>

definition run_and_post ::
  "(SchedulerEvent, 'q) QueueApi \<Rightarrow> bool \<Rightarrow> JobInvocation \<Rightarrow> 'q Completions \<Rightarrow> 'q Completions" where
  "run_and_post api runtime invocation cp =
     snd (postCompletion api runtime (inv_jobId invocation) (inv_generation invocation)
       (inv_slotIndex invocation) (cp\<lparr>cp_ran := cp_ran cp @ [invocation]\<rparr>))"

text \<open>\<^verbatim>\<open>new (std::nothrow)\<close> of a small object.\<close>

definition new_object :: "heap \<Rightarrow> bool \<times> heap" where
  "new_object h = (h 0, \<lambda>n. h (Suc n))"

section \<open>InlineExecutor\<close>

record InlineExecutor =
  in_runtime :: bool

definition inline_begin :: "bool \<Rightarrow> InlineExecutor \<Rightarrow> bool \<times> InlineExecutor" where
  "inline_begin runtime x = (True, x\<lparr>in_runtime := runtime\<rparr>)"

definition inline_end :: "bool \<Rightarrow> InlineExecutor \<Rightarrow> InlineExecutor" where
  "inline_end drainRunningJobs x = x\<lparr>in_runtime := False\<rparr>"

definition inline_submit :: "JobInvocation \<Rightarrow> 'q Completions \<Rightarrow> bool \<times> 'q Completions" where
  "inline_submit invocation cp = (True, cp\<lparr>cp_ran := cp_ran cp @ [invocation]\<rparr>)"

section \<open>WorkerPoolExecutor\<close>

text \<open>
  The queue holds pointers to heap-allocated copies of invocations, or a null pointer, here \<open>None\<close>,
  which tells a worker to leave.
\<close>

record WorkerHandle =
  wh_task :: "nat option"
  wh_createdWithCaps :: bool

record ('t, 'o) WorkerPoolExecutor =
  wpe_config :: WorkerPoolConfig
  wpe_runtime :: bool
  wpe_queue :: "'t option"
  wpe_workers :: "WorkerHandle SchedulerArray"
  wpe_started :: bool
  wpe_workersRunning :: int
  wpe_heap :: heap
  wpe_os :: 'o

definition newWorkerPool :: "WorkerPoolConfig \<Rightarrow> heap \<Rightarrow> 'o \<Rightarrow> ('t, 'o) WorkerPoolExecutor" where
  "newWorkerPool config h os =
     \<lparr>wpe_config = config, wpe_runtime = False, wpe_queue = None, wpe_workers = newArray 8 False,
      wpe_started = False, wpe_workersRunning = 0, wpe_heap = h, wpe_os = os\<rparr>"

definition wp_submit ::
  "(JobInvocation option, 't) QueueApi \<Rightarrow> JobInvocation \<Rightarrow> ('t, 'o) WorkerPoolExecutor
     \<Rightarrow> bool \<times> ('t, 'o) WorkerPoolExecutor" where
  "wp_submit tq invocation p =
     (case wpe_queue p of
        None \<Rightarrow> (False, p)
      | Some q \<Rightarrow>
          if \<not> wpe_started p then (False, p)
          else let (ok, h) = new_object (wpe_heap p);
                   p = p\<lparr>wpe_heap := h\<rparr>
               in if \<not> ok then (False, p)
                  else let (sent, q') = xQueueSend tq (Some invocation) q
                       in (sent, p\<lparr>wpe_queue := Some q'\<rparr>))"

text \<open>
  One round of the loop of \<^verbatim>\<open>workerTaskEntry\<close>: a worker waits for an item, runs it, or leaves on a
  null pointer. On an empty queue the worker keeps waiting.
\<close>

definition worker_turn ::
  "(JobInvocation option, 't) QueueApi \<Rightarrow> (SchedulerEvent, 'q) QueueApi
     \<Rightarrow> ('t, 'o) WorkerPoolExecutor \<times> 'q Completions \<Rightarrow> ('t, 'o) WorkerPoolExecutor \<times> 'q Completions" where
  "worker_turn tq eq pc =
     (let (p, cp) = pc in
      case wpe_queue p of
        None \<Rightarrow> (p, cp)
      | Some q \<Rightarrow>
          let (received, q') = xQueueReceive tq q;
              p = p\<lparr>wpe_queue := Some q'\<rparr>
          in case received of
               None \<Rightarrow> (p, cp)
             | Some None \<Rightarrow> (p\<lparr>wpe_workersRunning := wpe_workersRunning p - 1\<rparr>, cp)
             | Some (Some invocation) \<Rightarrow> (p, run_and_post eq (wpe_runtime p) invocation cp))"

text \<open>
  The loop that empties the queue on \<^verbatim>\<open>end(false)\<close>. It ends because nobody else sends; that is a
  lemma below.
\<close>

partial_function (option) discard_loop :: "('a, 'q) QueueApi \<Rightarrow> 'q \<Rightarrow> 'q option" where
  "discard_loop api q =
     (case xQueueReceive api q of
        (None, q') \<Rightarrow> Some q'
      | (Some x, q') \<Rightarrow> discard_loop api q')"

declare discard_loop.simps [code]

fun send_sentinels :: "('a option, 'q) QueueApi \<Rightarrow> nat \<Rightarrow> 'q \<Rightarrow> 'q" where
  "send_sentinels api 0 q = q"
| "send_sentinels api (Suc n) q = send_sentinels api n (snd (xQueueSend api None q))"

text \<open>
  Waiting for the workers: until they have all left or the deadline has passed. \<open>turns\<close> is the
  number of rounds the workers get to do before the deadline.
\<close>

fun await_workers ::
  "(JobInvocation option, 't) QueueApi \<Rightarrow> (SchedulerEvent, 'q) QueueApi \<Rightarrow> nat
     \<Rightarrow> ('t, 'o) WorkerPoolExecutor \<times> 'q Completions \<Rightarrow> ('t, 'o) WorkerPoolExecutor \<times> 'q Completions" where
  "await_workers tq eq 0 pc = pc"
| "await_workers tq eq (Suc n) pc =
     (if wpe_workersRunning (fst pc) > 0 then await_workers tq eq n (worker_turn tq eq pc) else pc)"

definition delete_workers :: "'o TaskApi \<Rightarrow> WorkerHandle list \<Rightarrow> 'o \<Rightarrow> 'o" where
  "delete_workers os ws o1 = fold (\<lambda>w. deleteTask os (wh_task w) (wh_createdWithCaps w)) ws o1"

definition wp_end ::
  "(JobInvocation option, 't) QueueApi \<Rightarrow> (SchedulerEvent, 'q) QueueApi \<Rightarrow> 'o TaskApi \<Rightarrow> nat \<Rightarrow> bool
     \<Rightarrow> ('t, 'o) WorkerPoolExecutor \<times> 'q Completions
     \<Rightarrow> (('t, 'o) WorkerPoolExecutor \<times> 'q Completions) option" where
  "wp_end tq eq os turns drainRunningJobs pc =
     (let (p, cp) = pc in
      case wpe_queue p of
        None \<Rightarrow> Some (p\<lparr>wpe_started := False, wpe_runtime := False\<rparr>, cp)
      | Some q \<Rightarrow>
          Option.bind (if \<not> drainRunningJobs then discard_loop tq q else Some q) (\<lambda>q.
            let q = send_sentinels tq (arr_size (wpe_workers p)) q;
                (p, cp) = await_workers tq eq turns (p\<lparr>wpe_queue := Some q\<rparr>, cp);
                p = (if wpe_workersRunning p > 0
                     then p\<lparr>wpe_os := delete_workers os (arr_data (wpe_workers p)) (wpe_os p)\<rparr> else p)
            in Some (p\<lparr>wpe_queue := None, wpe_workers := arr_clear (wpe_workers p),
                       wpe_started := False, wpe_runtime := False\<rparr>, cp)))"

definition worker_request :: "WorkerPoolConfig \<Rightarrow> TaskRequest" where
  "worker_request config =
     \<lparr>tr_name = ''sched-pool'', tr_stackBytes = wp_stackSize config, tr_priority = wp_priority config,
      tr_coreId = wp_coreId config\<rparr>"

text \<open>The loop of \<^verbatim>\<open>begin\<close> over the workers; \<open>False\<close> where the source calls \<^verbatim>\<open>end(false)\<close>.\<close>

fun begin_workers ::
  "'o TaskApi \<Rightarrow> nat \<Rightarrow> ('t, 'o) WorkerPoolExecutor \<Rightarrow> bool \<times> ('t, 'o) WorkerPoolExecutor" where
  "begin_workers os 0 p = (True, p)"
| "begin_workers os (Suc n) p =
     (let (ok, h) = new_object (wpe_heap p);
          p = p\<lparr>wpe_heap := h\<rparr>
      in if \<not> ok then (False, p)
         else let (created, handle, caps, o1) =
                    createTaskPinned os (worker_request (wpe_config p)) (wp_usePsramStack (wpe_config p)) (wpe_os p);
                  p = p\<lparr>wpe_os := o1\<rparr>
              in if \<not> created \<or> handle = None then (False, p)
                 else let (ok, ws, h) = pushBack \<lparr>wh_task = handle, wh_createdWithCaps = caps\<rparr>
                                          (wpe_workers p) (wpe_heap p);
                          p = p\<lparr>wpe_workers := ws, wpe_heap := h\<rparr>
                      in if \<not> ok then (False, p\<lparr>wpe_os := deleteTask os handle caps (wpe_os p)\<rparr>)
                         else begin_workers os n
                                (p\<lparr>wpe_workersRunning := wpe_workersRunning p + 1\<rparr>))"

definition wp_begin ::
  "(JobInvocation option, 't) QueueApi \<Rightarrow> (SchedulerEvent, 'q) QueueApi \<Rightarrow> 'o TaskApi \<Rightarrow> nat \<Rightarrow> bool
     \<Rightarrow> ('t, 'o) WorkerPoolExecutor \<times> 'q Completions
     \<Rightarrow> (bool \<times> ('t, 'o) WorkerPoolExecutor \<times> 'q Completions) option" where
  "wp_begin tq eq os turns runtime pc =
     (let (p, cp) = pc in
      if wpe_started p then Some (True, p, cp)
      else let p = p\<lparr>wpe_runtime := runtime\<rparr>;
               (queue, h) = xQueueCreate tq (wp_queueDepth (wpe_config p)) (wpe_heap p);
               p = p\<lparr>wpe_queue := queue, wpe_heap := h\<rparr>
           in if queue = None then Some (False, p, cp)
              else let p = p\<lparr>wpe_workers := arr_clear (wpe_workers p), wpe_workersRunning := 0\<rparr>;
                       (ok, p) = begin_workers os (wp_workerCount (wpe_config p)) p
                   in if \<not> ok
                      then map_option (\<lambda>pc. (False, pc)) (wp_end tq eq os turns False (p, cp))
                      else Some (True, p\<lparr>wpe_started := True\<rparr>, cp))"

section \<open>DedicatedTaskExecutor\<close>

text \<open>
  Each invocation gets a task of its own. \<open>de_tasks\<close> are the contexts of the tasks that were created
  and have not finished; the system holds them, the executor forgets them.
\<close>

record TaskContext =
  tc_invocation :: JobInvocation
  tc_runtime :: bool
  tc_createdWithCaps :: bool

record 'o DedicatedTaskExecutor =
  de_runtime :: bool
  de_tasks :: "TaskContext list"
  de_heap :: heap
  de_os :: 'o

definition de_begin :: "bool \<Rightarrow> 'o DedicatedTaskExecutor \<Rightarrow> bool \<times> 'o DedicatedTaskExecutor" where
  "de_begin runtime d = (True, d\<lparr>de_runtime := runtime\<rparr>)"

definition de_end :: "bool \<Rightarrow> 'o DedicatedTaskExecutor \<Rightarrow> 'o DedicatedTaskExecutor" where
  "de_end drainRunningJobs d = d\<lparr>de_runtime := False\<rparr>"

definition dedicated_request :: "DedicatedTaskOptions \<Rightarrow> TaskRequest" where
  "dedicated_request task =
     \<lparr>tr_name = (case dt_name task of Some n \<Rightarrow> n | None \<Rightarrow> ''sched-task''),
      tr_stackBytes = dt_stackSize task, tr_priority = dt_priority task, tr_coreId = dt_coreId task\<rparr>"

definition de_submit ::
  "'o TaskApi \<Rightarrow> JobInvocation \<Rightarrow> 'o DedicatedTaskExecutor \<Rightarrow> bool \<times> 'o DedicatedTaskExecutor" where
  "de_submit os invocation d =
     (let (ok, h) = new_object (de_heap d);
          d = d\<lparr>de_heap := h\<rparr>
      in if \<not> ok then (False, d)
         else let task = inv_dedicatedTask invocation;
                  (created, handle, caps, o1) =
                    createTaskPinned os (dedicated_request task) (dt_usePsramStack task) (de_os d);
                  d = d\<lparr>de_os := o1\<rparr>
              in if \<not> created \<or> handle = None then (False, d)
                 else (True, d\<lparr>de_tasks := de_tasks d @
                   [\<lparr>tc_invocation = invocation, tc_runtime = de_runtime d, tc_createdWithCaps = caps\<rparr>]\<rparr>))"

text \<open>\<^verbatim>\<open>taskEntry\<close> of the \<open>i\<close>-th unfinished task, from its start to its end.\<close>

definition dedicated_task ::
  "(SchedulerEvent, 'q) QueueApi \<Rightarrow> nat \<Rightarrow> 'o DedicatedTaskExecutor \<times> 'q Completions
     \<Rightarrow> 'o DedicatedTaskExecutor \<times> 'q Completions" where
  "dedicated_task eq i dc =
     (let (d, cp) = dc in
      if i < length (de_tasks d)
      then let context = de_tasks d ! i
           in (d\<lparr>de_tasks := take i (de_tasks d) @ drop (Suc i) (de_tasks d)\<rparr>,
               run_and_post eq (tc_runtime context) (tc_invocation context) cp)
      else (d, cp))"

section \<open>ESPWorkerExecutorAdapter\<close>

text \<open>
  ESPWorker is a library of its own: \<open>spawn\<close>, which takes the optional name of the worker, is a
  parameter. The closure it is given holds the invocation and the runtime of that moment.
\<close>

record 'o ESPWorkerExecutorAdapter =
  ew_runtime :: bool
  ew_jobs :: "(JobInvocation \<times> bool) list"
  ew_worker :: 'o

definition ew_begin :: "bool \<Rightarrow> 'o ESPWorkerExecutorAdapter \<Rightarrow> bool \<times> 'o ESPWorkerExecutorAdapter" where
  "ew_begin runtime a = (True, a\<lparr>ew_runtime := runtime\<rparr>)"

definition ew_end :: "bool \<Rightarrow> 'o ESPWorkerExecutorAdapter \<Rightarrow> 'o ESPWorkerExecutorAdapter" where
  "ew_end drainRunningJobs a = a\<lparr>ew_runtime := False\<rparr>"

definition ew_submit ::
  "(string option \<Rightarrow> 'o \<Rightarrow> bool \<times> 'o) \<Rightarrow> JobInvocation \<Rightarrow> 'o ESPWorkerExecutorAdapter
     \<Rightarrow> bool \<times> 'o ESPWorkerExecutorAdapter" where
  "ew_submit spawn invocation a =
     (let (ok, w) = spawn (inv_name invocation) (ew_worker a);
          a = a\<lparr>ew_worker := w\<rparr>
      in (ok, if ok then a\<lparr>ew_jobs := ew_jobs a @ [(invocation, ew_runtime a)]\<rparr> else a))"

definition ew_task ::
  "(SchedulerEvent, 'q) QueueApi \<Rightarrow> nat \<Rightarrow> 'o ESPWorkerExecutorAdapter \<times> 'q Completions
     \<Rightarrow> 'o ESPWorkerExecutorAdapter \<times> 'q Completions" where
  "ew_task eq i ac =
     (let (a, cp) = ac in
      if i < length (ew_jobs a)
      then (a\<lparr>ew_jobs := take i (ew_jobs a) @ drop (Suc i) (ew_jobs a)\<rparr>,
            run_and_post eq (snd (ew_jobs a ! i)) (fst (ew_jobs a ! i)) cp)
      else (a, cp))"

end
