(* ===== verification/Executor_Contract.thy ===== *)
theory Executor_Contract
  imports Executors
begin

text \<open>
  What the scheduler relies on of an executor, as a locale, and its interpretation on the four
  executors of the repository.
\<close>

section \<open>The contract\<close>

text \<open>
  \<open>submit\<close> accepts or refuses; \<open>run\<close> is a step of the executor's own tasks; \<open>outstanding\<close> are the
  invocations that were accepted and whose callback has not been called; \<open>ran\<close> is the sequence of
  calls.
\<close>

locale executor_contract =
  fixes submit :: "JobInvocation \<Rightarrow> 's \<Rightarrow> bool \<times> 's"
    and run :: "'s \<Rightarrow> 's \<Rightarrow> bool"
    and outstanding :: "'s \<Rightarrow> JobInvocation multiset"
    and ran :: "'s \<Rightarrow> JobInvocation list"
    and invar :: "'s \<Rightarrow> bool"
  assumes submit_invar: "invar s \<Longrightarrow> invar (snd (submit i s))"
    and run_invar: "invar s \<Longrightarrow> run s s' \<Longrightarrow> invar s'"
    and refused: "invar s \<Longrightarrow> submit i s = (False, s') \<Longrightarrow>
      outstanding s' = outstanding s \<and> ran s' = ran s"
    and accepted: "invar s \<Longrightarrow> submit i s = (True, s') \<Longrightarrow>
      outstanding s' + mset (ran s') = add_mset i (outstanding s + mset (ran s))"
    and run_moves: "invar s \<Longrightarrow> run s s' \<Longrightarrow>
      outstanding s' + mset (ran s') = outstanding s + mset (ran s)"
begin

text \<open>A history of submissions and task steps, with the invocations that were accepted.\<close>

inductive history :: "'s \<Rightarrow> JobInvocation list \<Rightarrow> 's \<Rightarrow> bool" for s where
  start: "history s [] s"
| submitted: "history s xs t \<Longrightarrow> history s (if fst (submit i t) then xs @ [i] else xs) (snd (submit i t))"
| progressed: "history s xs t \<Longrightarrow> run t t' \<Longrightarrow> history s xs t'"

lemma history_accounts:
  assumes "history s xs t" "invar s"
  shows "invar t \<and> outstanding t + mset (ran t) = outstanding s + mset (ran s) + mset xs"
  using assms(1)
proof induction
  case (submitted xs t i)
  obtain ok t' where sub: "submit i t = (ok, t')" by (cases "submit i t")
  have "invar t'" using submit_invar [of t i] submitted.IH sub by simp
  moreover have "outstanding t' + mset (ran t') =
      outstanding s + mset (ran s) + mset (if ok then xs @ [i] else xs)"
    using submitted.IH sub refused [of t i t'] accepted [of t i t'] by (cases ok) auto
  ultimately show ?case by (simp add: sub)
qed (use assms(2) run_invar run_moves in auto)

text \<open>Nothing is run twice, nothing is run that was not accepted, and nothing accepted gets lost.\<close>

lemma exactly_once:
  assumes "history s xs t" "invar s" "outstanding s = {#}" "ran s = []"
  shows "mset (ran t) \<subseteq># mset xs" "outstanding t = {#} \<Longrightarrow> mset (ran t) = mset xs"
    "outstanding t = mset xs - mset (ran t)"
proof -
  have "outstanding t + mset (ran t) = mset xs" using history_accounts [OF assms(1,2)] assms(3,4) by simp
  then show "mset (ran t) \<subseteq># mset xs" "outstanding t = {#} \<Longrightarrow> mset (ran t) = mset xs"
    "outstanding t = mset xs - mset (ran t)"
    by (metis mset_subset_eq_add_right, simp, metis add_diff_cancel_right')
qed

end

section \<open>The executors keep it\<close>

lemma run_and_post_ran [simp]: "cp_ran (run_and_post api rt i cp) = cp_ran cp @ [i]"
  by (simp add: run_and_post_def postCompletion_def Let_def split: prod.splits)

lemma run_and_post_runtime [simp]: "cp_runtime (run_and_post api rt i cp) = cp_runtime cp"
  by (simp add: run_and_post_def postCompletion_def Let_def split: prod.splits)

text \<open>Inline: the callback is called at once and nothing is ever outstanding.\<close>

interpretation inline_ex: executor_contract inline_submit "\<lambda>cp cp'. cp' = cp" "\<lambda>cp. {#}" cp_ran "\<lambda>cp. True"
  by unfold_locales (auto simp: inline_submit_def)

text \<open>Worker pool: outstanding are the invocations in the queue.\<close>

definition pool_items :: "('t \<Rightarrow> JobInvocation option list) \<Rightarrow> ('t, 'o) WorkerPoolExecutor \<Rightarrow> JobInvocation option list" where
  "pool_items items p = (case wpe_queue p of None \<Rightarrow> [] | Some q \<Rightarrow> items q)"

definition invocations :: "JobInvocation option list \<Rightarrow> JobInvocation list" where
  "invocations xs = List.map_filter (\<lambda>x. x) xs"

lemma invocations_simps [simp]: "invocations [] = []" "invocations (None # xs) = invocations xs"
  "invocations (Some i # xs) = i # invocations xs" "invocations (xs @ ys) = invocations xs @ invocations ys"
  by (simp_all add: invocations_def map_filter_def)

definition pool_submit ::
  "(JobInvocation option, 't) QueueApi \<Rightarrow> JobInvocation \<Rightarrow> ('t, 'o) WorkerPoolExecutor \<times> 'q Completions
     \<Rightarrow> bool \<times> ('t, 'o) WorkerPoolExecutor \<times> 'q Completions" where
  "pool_submit tq i pc = (fst (wp_submit tq i (fst pc)), snd (wp_submit tq i (fst pc)), snd pc)"

lemma wp_submit_items:
  assumes "fifo_queue tq items depth"
  shows "pool_items items (snd (wp_submit tq i p)) =
    (if fst (wp_submit tq i p) then pool_items items p @ [Some i] else pool_items items p)"
  using fifo_send [OF assms]
  by (auto simp: wp_submit_def pool_items_def new_object_def Let_def case_prod_unfold split: option.splits)

lemma worker_turn_cases:
  assumes "fifo_queue tq items depth"
  shows "case pool_items items p of
      [] \<Rightarrow> pool_items items (fst (worker_turn tq eq (p, cp))) = [] \<and> snd (worker_turn tq eq (p, cp)) = cp \<and>
        wpe_workersRunning (fst (worker_turn tq eq (p, cp))) = wpe_workersRunning p
    | None # xs \<Rightarrow> pool_items items (fst (worker_turn tq eq (p, cp))) = xs \<and> snd (worker_turn tq eq (p, cp)) = cp \<and>
        wpe_workersRunning (fst (worker_turn tq eq (p, cp))) = wpe_workersRunning p - 1
    | Some i # xs \<Rightarrow> pool_items items (fst (worker_turn tq eq (p, cp))) = xs \<and>
        snd (worker_turn tq eq (p, cp)) = run_and_post eq (wpe_runtime p) i cp \<and>
        wpe_workersRunning (fst (worker_turn tq eq (p, cp))) = wpe_workersRunning p"
proof (cases "wpe_queue p")
  case (Some q)
  note r = fifo_receive [OF assms, of q]
  obtain x q' where x: "xQueueReceive tq q = (x, q')" by (cases "xQueueReceive tq q")
  show ?thesis
    using r Some x by (auto simp: worker_turn_def pool_items_def Let_def split: list.splits option.splits)
qed (simp add: worker_turn_def pool_items_def)

interpretation pool_ex: executor_contract "pool_submit tq" "\<lambda>pc pc'. pc' = worker_turn tq eq pc"
    "\<lambda>pc. mset (invocations (pool_items items (fst pc)))" "\<lambda>pc. cp_ran (snd pc)"
    "\<lambda>pc. fifo_queue tq items depth"
  for tq :: "(JobInvocation option, 't) QueueApi" and eq :: "(SchedulerEvent, 'q) QueueApi" and items depth
proof (unfold_locales, goal_cases)
  case (3 s i s')
  then show ?case using wp_submit_items [OF 3(1), of i "fst s"] by (auto simp: pool_submit_def)
next
  case (4 s i s')
  then show ?case using wp_submit_items [OF 4(1), of i "fst s"] by (auto simp: pool_submit_def)
next
  case (5 s s')
  obtain p cp where s: "s = (p, cp)" by (cases s)
  show ?case
    using worker_turn_cases [OF 5(1), where p = p and eq = eq and cp = cp] 5(2) by (auto simp: s split: list.splits option.splits)
qed auto

text \<open>Dedicated tasks: outstanding are the tasks that have not finished.\<close>

lemma image_mset_nth:
  assumes "i < length xs"
  shows "image_mset f (mset xs) =
    add_mset (f (xs ! i)) (image_mset f (mset (take i xs)) + image_mset f (mset (drop (Suc i) xs)))"
proof -
  have "mset xs = mset (take i xs @ xs ! i # drop (Suc i) xs)" using assms by (simp flip: id_take_nth_drop)
  then show ?thesis by simp
qed

definition dedicated_submit ::
  "'o TaskApi \<Rightarrow> JobInvocation \<Rightarrow> 'o DedicatedTaskExecutor \<times> 'q Completions
     \<Rightarrow> bool \<times> 'o DedicatedTaskExecutor \<times> 'q Completions" where
  "dedicated_submit os i dc = (fst (de_submit os i (fst dc)), snd (de_submit os i (fst dc)), snd dc)"

lemma de_submit_tasks:
  "map tc_invocation (de_tasks (snd (de_submit os i d))) =
     map tc_invocation (de_tasks d) @ (if fst (de_submit os i d) then [i] else [])"
  by (simp add: de_submit_def Let_def new_object_def split: prod.splits)

lemma dedicated_task_accounts:
  "mset (map tc_invocation (de_tasks (fst (dedicated_task eq i dc)))) + mset (cp_ran (snd (dedicated_task eq i dc))) =
   mset (map tc_invocation (de_tasks (fst dc))) + mset (cp_ran (snd dc))"
  by (cases dc) (simp add: dedicated_task_def Let_def image_mset_nth)

interpretation dedicated_ex: executor_contract "dedicated_submit os" "\<lambda>dc dc'. \<exists>i. dc' = dedicated_task eq i dc"
    "\<lambda>dc. mset (map tc_invocation (de_tasks (fst dc)))" "\<lambda>dc. cp_ran (snd dc)" "\<lambda>dc. True"
  for os :: "'o TaskApi" and eq :: "(SchedulerEvent, 'q) QueueApi"
proof (unfold_locales, goal_cases)
  case (3 s i s')
  then show ?case using de_submit_tasks [of os i "fst s"] by (auto simp: dedicated_submit_def simp flip: mset_map)
next
  case (4 s i s')
  then show ?case using de_submit_tasks [of os i "fst s"] by (auto simp: dedicated_submit_def simp flip: mset_map)
next
  case (5 s s')
  then show ?case using dedicated_task_accounts by blast
qed auto

text \<open>ESPWorker: outstanding are the closures that were spawned and have not finished.\<close>

definition espworker_submit ::
  "(string option \<Rightarrow> 'o \<Rightarrow> bool \<times> 'o) \<Rightarrow> JobInvocation \<Rightarrow> 'o ESPWorkerExecutorAdapter \<times> 'q Completions
     \<Rightarrow> bool \<times> 'o ESPWorkerExecutorAdapter \<times> 'q Completions" where
  "espworker_submit spawn i ac = (fst (ew_submit spawn i (fst ac)), snd (ew_submit spawn i (fst ac)), snd ac)"

lemma ew_submit_jobs:
  "map fst (ew_jobs (snd (ew_submit spawn i a))) =
     map fst (ew_jobs a) @ (if fst (ew_submit spawn i a) then [i] else [])"
  by (simp add: ew_submit_def Let_def split: prod.splits)

lemma ew_task_accounts:
  "mset (map fst (ew_jobs (fst (ew_task eq i ac)))) + mset (cp_ran (snd (ew_task eq i ac))) =
   mset (map fst (ew_jobs (fst ac))) + mset (cp_ran (snd ac))"
  by (cases ac) (simp add: ew_task_def Let_def image_mset_nth)

interpretation espworker_ex: executor_contract "espworker_submit spawn" "\<lambda>ac ac'. \<exists>i. ac' = ew_task eq i ac"
    "\<lambda>ac. mset (map fst (ew_jobs (fst ac)))" "\<lambda>ac. cp_ran (snd ac)" "\<lambda>ac. True"
  for spawn :: "string option \<Rightarrow> 'o \<Rightarrow> bool \<times> 'o" and eq :: "(SchedulerEvent, 'q) QueueApi"
proof (unfold_locales, goal_cases)
  case (3 s i s')
  then show ?case using ew_submit_jobs [of spawn i "fst s"] by (auto simp: espworker_submit_def simp flip: mset_map)
next
  case (4 s i s')
  then show ?case using ew_submit_jobs [of spawn i "fst s"] by (auto simp: espworker_submit_def simp flip: mset_map)
next
  case (5 s s')
  then show ?case using ew_task_accounts by blast
qed auto


section \<open>Draining the pool\<close>

text \<open>The fields a worker does not touch.\<close>

lemma worker_turn_frame [simp]:
  "wpe_os (fst (worker_turn tq eq pc)) = wpe_os (fst pc)"
  "wpe_workers (fst (worker_turn tq eq pc)) = wpe_workers (fst pc)"
  "wpe_runtime (fst (worker_turn tq eq pc)) = wpe_runtime (fst pc)"
  "wpe_started (fst (worker_turn tq eq pc)) = wpe_started (fst pc)"
  "wpe_config (fst (worker_turn tq eq pc)) = wpe_config (fst pc)"
  "cp_runtime (snd (worker_turn tq eq pc)) = cp_runtime (snd pc)"
  by (cases pc; simp add: worker_turn_def Let_def split: option.splits prod.splits)+

lemma await_workers_frame [simp]:
  "wpe_os (fst (await_workers tq eq n pc)) = wpe_os (fst pc)"
  "wpe_workers (fst (await_workers tq eq n pc)) = wpe_workers (fst pc)"
  by (induction n arbitrary: pc) auto

text \<open>Waiting long enough for a queue of work followed by one farewell for every worker.\<close>

lemma await_workers_drains:
  assumes "fifo_queue tq items depth"
    and "pool_items items p = map Some is @ replicate n None" "wpe_workersRunning p = int n"
    and "length is + n \<le> turns" "0 < n"
  shows "wpe_workersRunning (fst (await_workers tq eq turns (p, cp))) = 0 \<and>
    cp_ran (snd (await_workers tq eq turns (p, cp))) = cp_ran cp @ is"
  using assms(2-5)
proof (induction turns arbitrary: p cp "is" n)
  case (Suc turns)
  let ?t = "worker_turn tq eq (p, cp)"
  obtain p' cp' where t: "?t = (p', cp')" by (cases ?t)
  note turn = worker_turn_cases [OF assms(1), where p = p and eq = eq and cp = cp]
  have unf: "await_workers tq eq (Suc turns) (p, cp) = await_workers tq eq turns (p', cp')"
    using Suc.prems t by simp
  show ?case
  proof (cases "is")
    case (Cons i is')
    then have "pool_items items p' = map Some is' @ replicate n None" "cp' = run_and_post eq (wpe_runtime p) i cp"
      "wpe_workersRunning p' = int n"
      using turn t Suc.prems(1,2) by auto
    then show ?thesis using Suc.IH [of p' is' n cp'] Suc.prems(3,4) Cons unf by simp
  next
    case Nil
    then obtain m where n: "n = Suc m" using Suc.prems(4) by (cases n) auto
    then have p': "pool_items items p' = map Some [] @ replicate m None" "cp' = cp" "wpe_workersRunning p' = int m"
      using turn t Suc.prems(1,2) Nil by auto
    show ?thesis
    proof (cases m)
      case 0
      then show ?thesis using p' unf Nil by (cases turns) simp_all
    next
      case (Suc k)
      then show ?thesis using Suc.IH [of p' "[]" m cp'] p' Suc.prems(3) n Nil unf by simp
    qed
  qed
qed simp

lemma send_sentinels_items:
  assumes "fifo_queue tq items depth" "length (items q) + n \<le> depth q"
  shows "items (send_sentinels tq n q) = items q @ replicate n None"
  using assms(2)
proof (induction n arbitrary: q)
  case (Suc n)
  then show ?case using fifo_send [OF assms(1)] by (simp flip: replicate_append_same)
qed simp

lemma discard_loop_total:
  assumes "fifo_queue tq items depth"
  shows "\<exists>q'. discard_loop tq q = Some q' \<and> items q' = [] \<and> depth q' = depth q"
proof (induction "length (items q)" arbitrary: q)
  case 0
  then have "xQueueReceive tq q = (None, snd (xQueueReceive tq q))"
    using fifo_receive(1) [OF assms, of q] by (simp add: prod_eq_iff)
  then show ?case
    using 0 fifo_receive(2,3) [OF assms, of q] by (subst discard_loop.simps) (auto split: prod.splits)
next
  case (Suc n)
  then obtain x xs where xs: "items q = x # xs" by (cases "items q") auto
  let ?q = "snd (xQueueReceive tq q)"
  have r: "xQueueReceive tq q = (Some x, ?q)" "items ?q = xs" "depth ?q = depth q"
    using fifo_receive [OF assms, of q] xs by (auto simp: prod_eq_iff)
  then have "n = length (items ?q)" using Suc(2) xs by simp
  from Suc(1) [OF this] show ?case using r by (subst discard_loop.simps) (metis (no_types, lifting) option.simps(5) prod.simps(2))
qed

text \<open>Workers that only find farewells run nothing, whether or not all farewells fit into the queue.\<close>

lemma send_sentinels_idle:
  assumes "fifo_queue tq items depth"
  shows "items q = replicate j None \<Longrightarrow> \<exists>k. items (send_sentinels tq n q) = replicate k None"
proof (induction n arbitrary: q j)
  case (Suc n)
  have "items (snd (xQueueSend tq None q)) = replicate (Suc j) None \<or> items (snd (xQueueSend tq None q)) = replicate j None"
    using fifo_send [OF assms, of None q] Suc.prems by (auto simp: replicate_append_same)
  then show ?case using Suc.IH [of "snd (xQueueSend tq None q)"] unfolding send_sentinels.simps by blast
qed auto

lemma await_workers_idle:
  assumes "fifo_queue tq items depth"
  shows "pool_items items p = replicate n None \<Longrightarrow> snd (await_workers tq eq turns (p, cp)) = cp"
proof (induction turns arbitrary: p n)
  case (Suc turns)
  obtain p' cp' where w: "worker_turn tq eq (p, cp) = (p', cp')" by fastforce
  have "cp' = cp" "pool_items items p' = replicate (n - 1) None"
    using worker_turn_cases [OF assms, where p = p and eq = eq and cp = cp] Suc.prems w by (cases n; auto)+
  then show ?case using Suc.IH w by simp
qed simp

text \<open>
  What \<^verbatim>\<open>end(false)\<close> does: whatever waits in the queue is dropped without being run, and every worker has
  left, or the tasks of all of them are deleted.
\<close>

lemma wp_end_discards:
  assumes "fifo_queue tq items depth" "wpe_queue p = Some q"
  shows "\<exists>p'. wp_end tq eq os turns False (p, cp) = Some (p', cp) \<and> \<not> wpe_started p' \<and> wpe_queue p' = None \<and>
    arr_size (wpe_workers p') = 0 \<and>
    (wpe_workersRunning p' \<le> 0 \<and> wpe_os p' = wpe_os p \<or>
     wpe_os p' = delete_workers os (arr_data (wpe_workers p)) (wpe_os p))"
proof -
  obtain q' where q': "discard_loop tq q = Some q'" "items q' = []"
    using discard_loop_total [OF assms(1), of q] by blast
  define p1 where "p1 = p\<lparr>wpe_queue := Some (send_sentinels tq (arr_size (wpe_workers p)) q')\<rparr>"
  obtain k where "pool_items items p1 = replicate k None"
    using send_sentinels_idle [OF assms(1), of q' 0] q'(2) by (auto simp: pool_items_def p1_def)
  from await_workers_idle [OF assms(1) this, of eq turns cp]
  obtain p2 where p2: "await_workers tq eq turns (p1, cp) = (p2, cp)" by (metis prod.collapse)
  have "wpe_os p2 = wpe_os p" "wpe_workers p2 = wpe_workers p"
    using await_workers_frame [of tq eq turns "(p1, cp)"] unfolding p2 by (simp_all add: p1_def)
  moreover have "wp_end tq eq os turns False (p, cp) = Some ((if wpe_workersRunning p2 > 0
        then p2\<lparr>wpe_os := delete_workers os (arr_data (wpe_workers p2)) (wpe_os p2)\<rparr> else p2)
      \<lparr>wpe_queue := None, wpe_workers := arr_clear (wpe_workers p2), wpe_started := False, wpe_runtime := False\<rparr>, cp)"
    using assms(2) q'(1) p2 by (simp add: wp_end_def Let_def p1_def)
  ultimately show ?thesis by (auto simp: arr_clear_def arr_size_def not_less)
qed

section \<open>Exactly once\<close>

text \<open>Each turn of a worker runs the invocation that waits longest.\<close>

lemma worker_turns_run:
  assumes "fifo_queue tq items depth" "pool_items items (fst t) = map Some waiting"
  shows "pool_items items (fst ((worker_turn tq eq ^^ n) t)) = map Some (drop n waiting) \<and>
    cp_ran (snd ((worker_turn tq eq ^^ n) t)) = cp_ran (snd t) @ take n waiting"
proof (induction n)
  case (Suc n)
  obtain p cp where t': "(worker_turn tq eq ^^ n) t = (p, cp)" by fastforce
  show ?case
  proof (cases "drop n waiting")
    case Nil
    then show ?thesis
      using Suc t' worker_turn_cases [OF assms(1), where p = p and eq = eq and cp = cp] by (simp add: drop_Suc tl_drop)
  next
    case (Cons i rest)
    then have "n < length waiting" "waiting ! n = i" "drop (Suc n) waiting = rest"
      by (metis drop_eq_Nil leI list.discI, metis nth_via_drop, metis drop_Suc tl_drop list.sel(3))
    then show ?thesis
      using Suc t' Cons worker_turn_cases [OF assms(1), where p = p and eq = eq and cp = cp] by (simp add: take_Suc_conv_app_nth)
  qed
qed (simp add: assms(2))

lemma pool_history_order:
  assumes "fifo_queue tq items depth"
    and "executor_contract.history (pool_submit tq) (\<lambda>pc pc'. pc' = worker_turn tq eq pc) s accepted t"
    and "pool_items items (fst s) = []" "cp_ran (snd s) = []"
  shows "\<exists>waiting. accepted = cp_ran (snd t) @ waiting \<and> pool_items items (fst t) = map Some waiting"
  using assms(2)
proof (induction rule: pool_ex.history.induct)
  case (submitted xs t i)
  then obtain waiting where w: "xs = cp_ran (snd t) @ waiting" "pool_items items (fst t) = map Some waiting" by blast
  show ?case
    using w wp_submit_items [OF assms(1), of i "fst t"]
    by (intro exI [of _ "if fst (pool_submit tq i t) then waiting @ [i] else waiting"]) (simp add: pool_submit_def)
next
  case (progressed xs t t')
  then obtain waiting where w: "xs = cp_ran (snd t) @ waiting" "pool_items items (fst t) = map Some waiting" by blast
  show ?case
    using worker_turns_run [OF assms(1) w(2), where eq = eq and n = 1] w(1) progressed(2)
    by (intro exI [of _ "drop 1 waiting"]) simp
qed (simp add: assms(3,4))

text \<open>
  C12: the worker pool runs the invocations it accepted in the order in which it accepted them, each once
  and no other, whatever the order in which submissions and workers take turns: what has run is a prefix of
  what was accepted and the rest waits in the queue. Every further turn of a worker runs the next one, so as many
  turns as invocations wait run them all. Only \<^verbatim>\<open>end(false)\<close> drops accepted invocations: exactly those that wait.
\<close>

theorem workerPool_exactly_once:
  assumes "fifo_queue tq items depth"
    and "executor_contract.history (pool_submit tq) (\<lambda>pc pc'. pc' = worker_turn tq eq pc) s accepted t"
    and "pool_items items (fst s) = []" "cp_ran (snd s) = []"
  shows "\<exists>waiting. accepted = cp_ran (snd t) @ waiting \<and> pool_items items (fst t) = map Some waiting \<and>
    (\<forall>n. cp_ran (snd ((worker_turn tq eq ^^ n) t)) = cp_ran (snd t) @ take n waiting) \<and>
    cp_ran (snd ((worker_turn tq eq ^^ length waiting) t)) = accepted \<and>
    (wpe_queue (fst t) \<noteq> None \<longrightarrow>
      (\<exists>p'. wp_end tq eq os turns False t = Some (p', snd t) \<and> wpe_queue p' = None))"
proof -
  obtain waiting where w: "accepted = cp_ran (snd t) @ waiting" "pool_items items (fst t) = map Some waiting"
    using pool_history_order [OF assms] by blast
  have "wpe_queue (fst t) \<noteq> None \<longrightarrow>
      (\<exists>p'. wp_end tq eq os turns False t = Some (p', snd t) \<and> wpe_queue p' = None)"
    using wp_end_discards [OF assms(1), of "fst t" _ eq os turns "snd t"] by (cases "wpe_queue (fst t)") auto
  then show ?thesis using w worker_turns_run [OF assms(1) w(2), where eq = eq] by auto
qed

section \<open>The end of a pool that drains\<close>

text \<open>
  C25: \<^verbatim>\<open>end(true)\<close> of a pool whose queue has room for the farewells runs everything that was queued,
  in order, before it stops, and deletes no task by force, provided the workers get enough rounds
  before the two seconds are over.
\<close>

theorem workerPool_end_drains:
  assumes "fifo_queue tq items depth" "wpe_queue p = Some q" "items q = map Some queued"
    and "arr_size (wpe_workers p) = n" "wpe_workersRunning p = int n" "0 < n"
    and "length queued + n \<le> depth q" "length queued + n \<le> turns"
  shows "\<exists>p' cp'. wp_end tq eq os turns True (p, cp) = Some (p', cp') \<and>
    cp_ran cp' = cp_ran cp @ queued \<and> wpe_os p' = wpe_os p \<and> wpe_workersRunning p' = 0 \<and>
    wpe_queue p' = None \<and> \<not> wpe_started p'"
proof -
  let ?p = "p\<lparr>wpe_queue := Some (send_sentinels tq n q)\<rparr>"
  have "pool_items items ?p = map Some queued @ replicate n None"
    using send_sentinels_items [OF assms(1)] assms(3,7) by (simp add: pool_items_def)
  from await_workers_drains [OF assms(1) this, where eq = eq and cp = cp and turns = turns]
  have a: "wpe_workersRunning (fst (await_workers tq eq turns (?p, cp))) = 0"
    "cp_ran (snd (await_workers tq eq turns (?p, cp))) = cp_ran cp @ queued"
    using assms(5,6,8) by auto
  show ?thesis
    using a assms(2,4) by (simp add: wp_end_def Let_def case_prod_unfold)
qed

section \<open>Starting the pool\<close>

lemma begin_workers_count:
  "begin_workers os n p = (ok, p') \<Longrightarrow>
     int (arr_size (wpe_workers p')) - int (arr_size (wpe_workers p)) = wpe_workersRunning p' - wpe_workersRunning p \<and>
     (ok \<longrightarrow> arr_size (wpe_workers p') = arr_size (wpe_workers p) + n) \<and>
     wpe_queue p' = wpe_queue p \<and> wpe_runtime p' = wpe_runtime p"
proof (induction n arbitrary: p)
  case (Suc n)
  obtain mem h where h: "new_object (wpe_heap p) = (mem, h)" by fastforce
  obtain created handle caps o1 where t: "createTaskPinned os (worker_request (wpe_config p))
      (wp_usePsramStack (wpe_config p)) (wpe_os p) = (created, handle, caps, o1)" by (metis prod_cases4)
  obtain ok' ws h' where w: "pushBack \<lparr>wh_task = handle, wh_createdWithCaps = caps\<rparr> (wpe_workers p) h = (ok', ws, h')"
    by (metis prod_cases3)
  have step: "begin_workers os (Suc n) p = (if \<not> mem then (False, p\<lparr>wpe_heap := h\<rparr>)
      else if \<not> created \<or> handle = None then (False, p\<lparr>wpe_heap := h, wpe_os := o1\<rparr>)
      else if \<not> ok' then (False, p\<lparr>wpe_os := deleteTask os handle caps o1, wpe_workers := ws, wpe_heap := h'\<rparr>)
      else begin_workers os n (p\<lparr>wpe_os := o1, wpe_workers := ws, wpe_heap := h',
             wpe_workersRunning := wpe_workersRunning p + 1\<rparr>))"
    using h t w by (auto simp: Let_def)
  have size: "arr_size ws = arr_size (wpe_workers p) + (if ok' then 1 else 0)"
    using w by (rule pushBack_cases) (auto simp: arr_size_def)
  show ?case
  proof (cases "mem \<and> created \<and> handle \<noteq> None \<and> ok'")
    case True
    then have "begin_workers os n (p\<lparr>wpe_os := o1, wpe_workers := ws, wpe_heap := h',
        wpe_workersRunning := wpe_workersRunning p + 1\<rparr>) = (ok, p')"
      using Suc.prems unfolding step by (auto split: if_splits)
    from Suc.IH [OF this] show ?thesis using size True by auto
  next
    case False
    then show ?thesis using Suc.prems size unfolding step by (auto split: if_splits)
  qed
qed auto

lemma wp_end_total:
  assumes "fifo_queue tq items depth"
  shows "\<exists>p' cp'. wp_end tq eq os turns drain (p, cp) = Some (p', cp') \<and> \<not> wpe_started p' \<and> wpe_queue p' = None"
proof (cases "wpe_queue p")
  case (Some q)
  obtain q' where "(if \<not> drain then discard_loop tq q else Some q) = Some q'"
    using discard_loop_total [OF assms, of q] by (cases drain) auto
  then show ?thesis using Some by (simp add: wp_end_def Let_def case_prod_unfold)
qed (simp add: wp_end_def)


section \<open>Witnesses\<close>

text \<open>One worker, a queue of depth four, memory for everything.\<close>

definition sample_config :: WorkerPoolConfig where
  "sample_config = \<lparr>wp_workerCount = 1, wp_queueDepth = 4, wp_stackSize = 4096, wp_priority = 1, wp_coreId = 0,
     wp_usePsramStack = False\<rparr>"

definition sample_invocation :: JobInvocation where
  "sample_invocation = \<lparr>inv_jobId = 1, inv_generation = 1, inv_slotIndex = 0, inv_name = None,
     inv_callback = makeEmptyCallback, inv_dedicatedTask = defaultDedicatedTask\<rparr>"

definition sample_pool :: "(nat \<times> JobInvocation option list, nat) WorkerPoolExecutor" where
  "sample_pool = \<lparr>wpe_config = sample_config, wpe_runtime = True, wpe_queue = Some (4, []),
     wpe_workers = \<lparr>arr_data = [\<lparr>wh_task = Some 0, wh_createdWithCaps = False\<rparr>], arr_capacity = 4, arr_elemSize = 8,
       arr_usePSRAM = False\<rparr>,
     wpe_started = True, wpe_workersRunning = 1, wpe_heap = plenty, wpe_os = 1\<rparr>"

definition sample_completions :: "(nat \<times> SchedulerEvent list) Completions" where
  "sample_completions = \<lparr>cp_runtime = \<lparr>rt_accepting = True, rt_eventQueue = True\<rparr>, cp_events = (8, []), cp_ran = []\<rparr>"

theorem workerPool_exactly_once_witness:
  "\<exists>t. executor_contract.history (pool_submit list_queue) (\<lambda>pc pc'. pc' = worker_turn list_queue list_queue pc)
     (sample_pool, sample_completions) [sample_invocation] t \<and>
   (\<exists>n. cp_ran (snd ((worker_turn list_queue list_queue ^^ n) t)) = [sample_invocation])"
proof -
  let ?s = "(sample_pool, sample_completions)"
  let ?t = "snd (pool_submit list_queue sample_invocation ?s)"
  have ok: "fst (pool_submit list_queue sample_invocation ?s)"
    by (simp add: pool_submit_def wp_submit_def sample_pool_def new_object_def list_queue_def)
  have h: "executor_contract.history (pool_submit list_queue) (\<lambda>pc pc'. pc' = worker_turn list_queue list_queue pc)
      ?s [sample_invocation] ?t"
    using pool_ex.submitted [OF pool_ex.start, where tq = list_queue and i = sample_invocation and s = ?s] ok by simp
  have "pool_items snd (fst ?s) = []" "cp_ran (snd ?s) = []"
    by (simp_all add: pool_items_def sample_pool_def sample_completions_def)
  from workerPool_exactly_once [OF list_queue_fifo h this, of counting_os 0] h show ?thesis by blast
qed

theorem workerPool_end_drains_witness:
  "\<exists>p' cp'. wp_end list_queue list_queue counting_os 2 True
     (sample_pool\<lparr>wpe_queue := Some (4, [Some sample_invocation])\<rparr>, sample_completions) = Some (p', cp') \<and>
     cp_ran cp' = [sample_invocation] \<and> wpe_workersRunning p' = 0"
  using workerPool_end_drains [OF list_queue_fifo, where p = "sample_pool\<lparr>wpe_queue := Some (4, [Some sample_invocation])\<rparr>"
      and q = "(4, [Some sample_invocation])" and queued = "[sample_invocation]" and n = 1 and turns = 2
      and eq = list_queue and os = counting_os and cp = sample_completions]
  by (auto simp: sample_pool_def sample_completions_def arr_size_def)


section \<open>Workers that do not leave in time\<close>

text \<open>
  When the deadline passes with a worker still busy, \<^verbatim>\<open>end\<close> deletes the handles of all workers, also of
  those that have left and deleted themselves.
\<close>

lemma late_end_deletes_every_handle:
  assumes "wpe_queue p = Some q" "0 < wpe_workersRunning (fst (await_workers tq eq turns
      (p\<lparr>wpe_queue := Some (send_sentinels tq (arr_size (wpe_workers p)) q)\<rparr>, cp)))"
  shows "\<exists>p' cp'. wp_end tq eq os turns True (p, cp) = Some (p', cp') \<and>
    wpe_os p' = delete_workers os (arr_data (wpe_workers p)) (wpe_os p)"
  using assms by (simp add: wp_end_def Let_def case_prod_unfold)

end
