(* ===== verification/Service.thy ===== *)
theory Service
  imports Scheduler_Dispatch Rtos
begin

text \<open>
  The background service: \<^verbatim>\<open>service/scheduler_commands.h\<close>, \<^verbatim>\<open>service/scheduler_commands.cpp\<close> and
  \<^verbatim>\<open>service/scheduler_service.cpp\<close>. A caller hands a heap-allocated command to the service's queue and
  waits for it; the service's task executes commands and completion events on its core, plans and
  dispatches, and sleeps until the next deadline.
\<close>

section \<open>The clock\<close>

text \<open>\<^verbatim>\<open>date.now()\<close>: the successive readings of the wall clock, an input.\<close>

type_synonym clock = "nat \<Rightarrow> DateTime"

definition date_now :: "clock \<Rightarrow> DateTime \<times> clock" where
  "date_now k = (k 0, \<lambda>n. k (Suc n))"

section \<open>Commands\<close>

text \<open>
  One constructor per subclass, with the fields the caller fills in. The boolean of
  \<open>GetJobInfoCommand\<close> says whether \<^verbatim>\<open>info\<close> is set.
\<close>

datatype SchedulerServiceCommand =
  AddJobCommand ScheduleSpec JobOptions CallbackRef
  | CancelJobCommand u32
  | PauseJobCommand u32
  | ResumeJobCommand u32
  | CancelAllCommand
  | RefreshAllSchedulesCommand
  | JobCountCommand
  | GetJobInfoCommand u32 bool
  | SetMinValidCommand int

datatype CommandResult =
  JobIdResult "u32 SchedulerResult"
  | VoidResult "unit SchedulerResult"
  | SizeResult "nat SchedulerResult"
  | InfoResult "unit SchedulerResult" "JobInfo option"

text \<open>The value \<^verbatim>\<open>result\<close> has before the command was executed.\<close>

fun initial_result :: "SchedulerServiceCommand \<Rightarrow> CommandResult" where
  "initial_result (AddJobCommand s opts cb) = JobIdResult (Inl NotInitialized)"
| "initial_result JobCountCommand = SizeResult (Inl NotInitialized)"
| "initial_result (GetJobInfoCommand k info) = InfoResult (Inl NotInitialized) None"
| "initial_result c = VoidResult (Inl NotInitialized)"

fun execute ::
  "ESPDate \<Rightarrow> SchedulerServiceCommand \<Rightarrow> clock \<Rightarrow> SchedulerCore \<Rightarrow> CommandResult \<times> SchedulerCore \<times> clock" where
  "execute date (AddJobCommand schedule options callback) k core =
     (let (now, k) = date_now k; (r, core) = addJob date schedule options callback now core
      in (JobIdResult r, core, k))"
| "execute date (CancelJobCommand jobId) k core =
     (let (r, core) = cancelJob jobId core in (VoidResult r, core, k))"
| "execute date (PauseJobCommand jobId) k core =
     (let (r, core) = pauseJob jobId core in (VoidResult r, core, k))"
| "execute date (ResumeJobCommand jobId) k core =
     (let (now, k) = date_now k; (r, core) = resumeJob jobId now core in (VoidResult r, core, k))"
| "execute date CancelAllCommand k core =
     (let (r, core) = cancelAll core in (VoidResult r, core, k))"
| "execute date RefreshAllSchedulesCommand k core =
     (let (now, k) = date_now k; (r, core) = refreshAllSchedules date now core in (VoidResult r, core, k))"
| "execute date JobCountCommand k core = (SizeResult (jobCount core), core, k)"
| "execute date (GetJobInfoCommand jobId info) k core =
     (if \<not> info then (InfoResult (Inl NotFound) None, core, k)
      else let (r, out) = getJobInfo core jobId in (InfoResult r (Some out), core, k))"
| "execute date (SetMinValidCommand minEpochSeconds) k core =
     (VoidResult (Inr ()), setMinValidUnixSeconds minEpochSeconds core, k)"

text \<open>
  A command object on the heap. \<open>co_signaled\<close> is the completion semaphore, \<open>co_abandoned\<close> the atomic
  flag of \<^verbatim>\<open>abandon\<close>. Objects live in a store; an address without an object has been freed.
\<close>

record CommandObject =
  co_command :: SchedulerServiceCommand
  co_result :: CommandResult
  co_signaled :: bool
  co_abandoned :: bool

type_synonym store = "nat \<Rightarrow> CommandObject option"

definition newCommand :: "SchedulerServiceCommand \<Rightarrow> CommandObject" where
  "newCommand cmd = \<lparr>co_command = cmd, co_result = initial_result cmd, co_signaled = False, co_abandoned = False\<rparr>"

definition co_signal :: "CommandObject \<Rightarrow> CommandObject" where
  "co_signal c = c\<lparr>co_signaled := True\<rparr>"

definition co_abandon :: "CommandObject \<Rightarrow> CommandObject" where
  "co_abandon c = c\<lparr>co_abandoned := True\<rparr>"

section \<open>When to wake up\<close>

type_synonym ticks = u32

definition kIdlePollMs :: u32 where "kIdlePollMs = 1000"

text \<open>\<^verbatim>\<open>pdMS_TO_TICKS\<close> depends on the tick rate of the build and is a parameter.\<close>

definition nextWakeTicks ::
  "ESPDate \<Rightarrow> (u32 \<Rightarrow> ticks) \<Rightarrow> DateTime \<Rightarrow> bool \<Rightarrow> int \<Rightarrow> ticks \<Rightarrow> ticks" where
  "nextWakeTicks date pdMS_TO_TICKS nowUtc hasNextDue nextDueEpochSeconds idlePollTicks =
     (let nextWakeEpoch = 0; hasWake = False;
          (nextWakeEpoch, hasWake) = (if hasNextDue then (nextDueEpochSeconds, True) else (nextWakeEpoch, hasWake));
          nextLocalMidnightUtc = startOfDayLocal date (addDays date nowUtc 1);
          (nextWakeEpoch, hasWake) =
            (if \<not> hasWake \<or> epochSeconds nextLocalMidnightUtc < nextWakeEpoch
             then (epochSeconds nextLocalMidnightUtc, True) else (nextWakeEpoch, hasWake))
      in if \<not> hasWake then idlePollTicks
         else if nextWakeEpoch \<le> epochSeconds nowUtc then 0
         else pdMS_TO_TICKS (word_of_int ((nextWakeEpoch - epochSeconds nowUtc) * 1000)))"

section \<open>The service\<close>

text \<open>
  \<open>ss_refreshRequested\<close> is the atomic flag shared with the facade. \<open>ss_queueSet\<close> says whether the
  queue set exists; the two queues are \<open>None\<close> while their handles are null.
\<close>

record ('c, 'q, 'o) SchedulerService =
  ss_config :: SchedulerServiceConfig
  ss_core :: SchedulerCore
  ss_refreshRequested :: bool
  ss_lastObservedLocalDayStartUtc :: DateTime
  ss_hasLastObservedLocalDayStartUtc :: bool
  ss_commandQueue :: "'c option"
  ss_eventQueue :: "'q option"
  ss_queueSet :: bool
  ss_task :: "nat option"
  ss_taskCreatedWithCaps :: bool
  ss_started :: bool
  ss_stopRequested :: bool
  ss_taskExited :: bool
  ss_activeInvocationCount :: nat
  ss_heap :: heap
  ss_os :: 'o

definition newService ::
  "SchedulerServiceConfig \<Rightarrow> SchedulerCore \<Rightarrow> bool \<Rightarrow> heap \<Rightarrow> 'o \<Rightarrow> ('c, 'q, 'o) SchedulerService" where
  "newService config core refreshRequested h o1 =
     \<lparr>ss_config = config, ss_core = core, ss_refreshRequested = refreshRequested,
      ss_lastObservedLocalDayStartUtc = epochDate, ss_hasLastObservedLocalDayStartUtc = False,
      ss_commandQueue = None, ss_eventQueue = None, ss_queueSet = False, ss_task = None,
      ss_taskCreatedWithCaps = False, ss_started = False, ss_stopRequested = False, ss_taskExited = False,
      ss_activeInvocationCount = 0, ss_heap = h, ss_os = o1\<rparr>"

definition send ::
  "(nat option, 'c) QueueApi \<Rightarrow> nat option \<Rightarrow> ('c, 'q, 'o) SchedulerService \<Rightarrow> bool \<times> ('c, 'q, 'o) SchedulerService" where
  "send cq command s =
     (case ss_commandQueue s of
        None \<Rightarrow> (False, s)
      | Some q \<Rightarrow> let (sent, q') = xQueueSend cq command q in (sent, s\<lparr>ss_commandQueue := Some q'\<rparr>))"

text \<open>
  What becomes of a command the service takes from the queue: executed, then signaled, then freed if
  the caller has given up on it. The decision to free precedes the signal.
\<close>

definition process_command ::
  "ESPDate \<Rightarrow> nat \<Rightarrow> SchedulerCore \<times> clock \<times> store \<Rightarrow> SchedulerCore \<times> clock \<times> store" where
  "process_command date a ckm =
     (let (core, k, m) = ckm in
      case m a of
        None \<Rightarrow> (core, k, m)
      | Some command \<Rightarrow>
          let (r, core, k) = execute date (co_command command) k core;
              command = command\<lparr>co_result := r\<rparr>;
              shouldDelete = co_abandoned command;
              m = m(a \<mapsto> co_signal command)
          in (core, k, if shouldDelete then m(a := None) else m))"

text \<open>The loop of \<^verbatim>\<open>drainCommands\<close>; null pointers only wake the task up.\<close>

partial_function (option) command_loop ::
  "(nat option, 'c) QueueApi \<Rightarrow> ESPDate \<Rightarrow> 'c \<Rightarrow> SchedulerCore \<times> clock \<times> store
     \<Rightarrow> ('c \<times> SchedulerCore \<times> clock \<times> store) option" where
  "command_loop cq date q ckm =
     (case xQueueReceive cq q of
        (None, q') \<Rightarrow> Some (q', ckm)
      | (Some None, q') \<Rightarrow> command_loop cq date q' ckm
      | (Some (Some a), q') \<Rightarrow> command_loop cq date q' (process_command date a ckm))"

declare command_loop.simps [code]

definition drainCommands ::
  "(nat option, 'c) QueueApi \<Rightarrow> ESPDate \<Rightarrow> clock \<Rightarrow> store \<Rightarrow> ('c, 'q, 'o) SchedulerService
     \<Rightarrow> (('c, 'q, 'o) SchedulerService \<times> clock \<times> store) option" where
  "drainCommands cq date k m s =
     (case ss_commandQueue s of
        None \<Rightarrow> Some (s, k, m)
      | Some q \<Rightarrow>
          map_option (\<lambda>(q, core, k, m). (s\<lparr>ss_commandQueue := Some q, ss_core := core\<rparr>, k, m))
            (command_loop cq date q (ss_core s, k, m)))"

partial_function (option) event_loop ::
  "(SchedulerEvent, 'q) QueueApi \<Rightarrow> ESPDate \<Rightarrow> 'e IExecutorResolver \<Rightarrow> 'q \<Rightarrow> SchedulerCore \<times> 'e \<times> clock
     \<Rightarrow> ('q \<times> SchedulerCore \<times> 'e \<times> clock) option" where
  "event_loop eq date ex q cek =
     (case xQueueReceive eq q of
        (None, q') \<Rightarrow> Some (q', cek)
      | (Some event, q') \<Rightarrow>
          event_loop eq date ex q'
            (let (core, e, k) = cek; (now, k) = date_now k; (core, e) = handleEvent date ex event now core e
             in (core, e, k)))"

declare event_loop.simps [code]

definition drainEvents ::
  "(SchedulerEvent, 'q) QueueApi \<Rightarrow> ESPDate \<Rightarrow> 'e IExecutorResolver \<Rightarrow> 'e \<Rightarrow> clock \<Rightarrow> ('c, 'q, 'o) SchedulerService
     \<Rightarrow> (('c, 'q, 'o) SchedulerService \<times> 'e \<times> clock) option" where
  "drainEvents eq date ex e k s =
     (case ss_eventQueue s of
        None \<Rightarrow> Some (s, e, k)
      | Some q \<Rightarrow>
          map_option (\<lambda>(q, core, e, k). (s\<lparr>ss_eventQueue := Some q, ss_core := core\<rparr>, e, k))
            (event_loop eq date ex q (ss_core s, e, k)))"

text \<open>
  The same bookkeeping is in the facade: a refresh is due when it was requested or when the local
  day has changed since the last look. The result is the decision, the day start to remember and
  that there is one.
\<close>

definition time_context :: "ESPDate \<Rightarrow> DateTime \<Rightarrow> bool \<Rightarrow> DateTime \<Rightarrow> bool \<Rightarrow> bool \<times> DateTime" where
  "time_context date nowUtc refreshRequested lastDayStart hasLast =
     (let current = startOfDayLocal date nowUtc
      in if \<not> hasLast then (refreshRequested, current)
         else if \<not> isEqual date current lastDayStart then (True, current)
         else (refreshRequested, lastDayStart))"

definition refreshTimeContextIfNeeded ::
  "ESPDate \<Rightarrow> DateTime \<Rightarrow> ('c, 'q, 'o) SchedulerService \<Rightarrow> ('c, 'q, 'o) SchedulerService" where
  "refreshTimeContextIfNeeded date nowUtc s =
     (let (refresh, dayStart) =
            time_context date nowUtc (ss_refreshRequested s) (ss_lastObservedLocalDayStartUtc s)
              (ss_hasLastObservedLocalDayStartUtc s);
          s = s\<lparr>ss_refreshRequested := False, ss_lastObservedLocalDayStartUtc := dayStart,
                ss_hasLastObservedLocalDayStartUtc := True\<rparr>
      in if refresh then s\<lparr>ss_core := snd (refreshAllSchedules date nowUtc (ss_core s))\<rparr> else s)"

text \<open>One round of \<^verbatim>\<open>run\<close> up to the wait on the queue set; the result includes the ticks to wait.\<close>

definition service_round ::
  "(nat option, 'c) QueueApi \<Rightarrow> (SchedulerEvent, 'q) QueueApi \<Rightarrow> ESPDate \<Rightarrow> (u32 \<Rightarrow> ticks) \<Rightarrow> 'e IExecutorResolver
     \<Rightarrow> 'e \<Rightarrow> clock \<Rightarrow> store \<Rightarrow> ('c, 'q, 'o) SchedulerService
     \<Rightarrow> (('c, 'q, 'o) SchedulerService \<times> 'e \<times> clock \<times> store \<times> ticks) option" where
  "service_round cq eq date pdMS_TO_TICKS ex e k m s =
     Option.bind (drainCommands cq date k m s) (\<lambda>(s, k, m).
     Option.bind (drainEvents eq date ex e k s) (\<lambda>(s, e, k).
       let (nowUtc, k) = date_now k;
           s = refreshTimeContextIfNeeded date nowUtc s
       in Option.bind (dispatchDue date ex nowUtc (ss_core s) e) (\<lambda>(core, e).
         let s = s\<lparr>ss_core := core, ss_activeInvocationCount := activeInvocationCount core\<rparr>;
             waitTicks = pdMS_TO_TICKS kIdlePollMs
         in if clockValid core nowUtc
            then let (next, core) = nextDueEpoch core;
                     waitTicks = nextWakeTicks date pdMS_TO_TICKS nowUtc (next \<noteq> None)
                       (case next of Some t \<Rightarrow> t | None \<Rightarrow> 0) waitTicks
                 in Some (s\<lparr>ss_core := core\<rparr>, e, k, m, waitTicks)
            else Some (s, e, k, m, waitTicks))))"

text \<open>
  The loop of \<^verbatim>\<open>run\<close>. The task gives way to others while it waits on the queue set;
  \<open>others n ticks\<close> is what they do to the service, the executors and the commands during the wait of
  round \<open>n\<close>, which lasts at most so many ticks. Without a queue set there is no wait. Which queue
  became ready makes no difference: the next round looks at both.
\<close>

type_synonym ('c, 'q, 'o, 'e) surroundings =
  "nat \<Rightarrow> ticks \<Rightarrow> ('c, 'q, 'o) SchedulerService \<times> 'e \<times> store \<Rightarrow> ('c, 'q, 'o) SchedulerService \<times> 'e \<times> store"

partial_function (option) service_run ::
  "(nat option, 'c) QueueApi \<Rightarrow> (SchedulerEvent, 'q) QueueApi \<Rightarrow> ESPDate \<Rightarrow> (u32 \<Rightarrow> ticks) \<Rightarrow> 'e IExecutorResolver
     \<Rightarrow> ('c, 'q, 'o, 'e) surroundings \<Rightarrow> 'e \<Rightarrow> clock \<Rightarrow> store \<Rightarrow> ('c, 'q, 'o) SchedulerService
     \<Rightarrow> (('c, 'q, 'o) SchedulerService \<times> 'e \<times> clock \<times> store) option" where
  "service_run cq eq date pdMS_TO_TICKS ex others e k m s =
     (if ss_stopRequested s then Some (s, e, k, m)
      else Option.bind (service_round cq eq date pdMS_TO_TICKS ex e k m s) (\<lambda>(s, e, k, m, waitTicks).
             let (s, e, m) = others 0 (if ss_queueSet s then waitTicks else 0) (s, e, m)
             in service_run cq eq date pdMS_TO_TICKS ex (\<lambda>n. others (Suc n)) e k m s))"

declare service_run.simps [code]

text \<open>
  \<^verbatim>\<open>taskEntry\<close>, which \<^verbatim>\<open>begin\<close> always gives a service. The flag that \<^verbatim>\<open>stop\<close> polls is set first; the task
  uses the service twice more before it deletes itself.
\<close>

definition announce_exit :: "('c, 'q, 'o) SchedulerService \<Rightarrow> ('c, 'q, 'o) SchedulerService" where
  "announce_exit s = s\<lparr>ss_taskExited := True\<rparr>"

definition leave_service :: "'o TaskApi \<Rightarrow> nat \<Rightarrow> ('c, 'q, 'o) SchedulerService \<Rightarrow> ('c, 'q, 'o) SchedulerService" where
  "leave_service os self s =
     (let s = s\<lparr>ss_task := None\<rparr>
      in s\<lparr>ss_os := deleteCurrentTask os self (ss_taskCreatedWithCaps s) (ss_os s)\<rparr>)"

definition taskEntry ::
  "(nat option, 'c) QueueApi \<Rightarrow> (SchedulerEvent, 'q) QueueApi \<Rightarrow> ESPDate \<Rightarrow> (u32 \<Rightarrow> ticks) \<Rightarrow> 'o TaskApi \<Rightarrow> nat
     \<Rightarrow> 'e IExecutorResolver \<Rightarrow> ('c, 'q, 'o, 'e) surroundings \<Rightarrow> 'e \<Rightarrow> clock \<Rightarrow> store \<Rightarrow> ('c, 'q, 'o) SchedulerService
     \<Rightarrow> (('c, 'q, 'o) SchedulerService \<times> 'e \<times> clock \<times> store) option" where
  "taskEntry cq eq date pdMS_TO_TICKS os self ex others e k m s =
     map_option (\<lambda>(s, r). (leave_service os self (announce_exit s), r))
       (service_run cq eq date pdMS_TO_TICKS ex others e k m s)"

text \<open>
  \<^verbatim>\<open>stop\<close>: \<open>exited\<close> is whether the task has left its loop within three seconds; if not it is deleted.
  Commands that are still queued are signaled without being executed.
\<close>

definition release_command :: "nat \<Rightarrow> store \<Rightarrow> store" where
  "release_command a m =
     (case m a of
        None \<Rightarrow> m
      | Some command \<Rightarrow>
          let shouldDelete = co_abandoned command;
              m = m(a \<mapsto> co_signal command)
          in if shouldDelete then m(a := None) else m)"

partial_function (option) release_loop :: "(nat option, 'c) QueueApi \<Rightarrow> 'c \<Rightarrow> store \<Rightarrow> store option" where
  "release_loop cq q m =
     (case xQueueReceive cq q of
        (None, q') \<Rightarrow> Some m
      | (Some None, q') \<Rightarrow> release_loop cq q' m
      | (Some (Some a), q') \<Rightarrow> release_loop cq q' (release_command a m))"

declare release_loop.simps [code]

definition stop ::
  "(nat option, 'c) QueueApi \<Rightarrow> 'o TaskApi \<Rightarrow> bool \<Rightarrow> store \<Rightarrow> ('c, 'q, 'o) SchedulerService
     \<Rightarrow> (('c, 'q, 'o) SchedulerService \<times> store) option" where
  "stop cq os exited m s =
     (if ss_commandQueue s = None \<and> ss_eventQueue s = None \<and> \<not> ss_queueSet s \<and> ss_task s = None
      then Some (s\<lparr>ss_started := False\<rparr>, m)
      else
        let s = s\<lparr>ss_stopRequested := True\<rparr>;
            s = snd (send cq None s);
            s = s\<lparr>ss_taskExited := exited\<rparr>;
            s = (if ss_task s \<noteq> None \<and> \<not> ss_taskExited s
                 then s\<lparr>ss_os := deleteTask os (ss_task s) (ss_taskCreatedWithCaps s) (ss_os s)\<rparr> else s);
            s = s\<lparr>ss_task := None, ss_taskCreatedWithCaps := False, ss_queueSet := False\<rparr>
        in map_option (\<lambda>m. (s\<lparr>ss_commandQueue := None, ss_eventQueue := None, ss_taskExited := False,
                               ss_stopRequested := False, ss_started := False\<rparr>, m))
             (case ss_commandQueue s of None \<Rightarrow> Some m | Some q \<Rightarrow> release_loop cq q m))"

text \<open>\<^verbatim>\<open>~SchedulerService\<close>: the store is what remains.\<close>

definition destroyService ::
  "(nat option, 'c) QueueApi \<Rightarrow> 'o TaskApi \<Rightarrow> bool \<Rightarrow> store \<Rightarrow> ('c, 'q, 'o) SchedulerService \<Rightarrow> store option" where
  "destroyService cq os exited m s = map_option snd (stop cq os exited m s)"

definition service_request :: "SchedulerServiceConfig \<Rightarrow> TaskRequest" where
  "service_request config =
     \<lparr>tr_name = ''sched-svc'', tr_stackBytes = svc_taskStackSize config, tr_priority = svc_taskPriority config,
      tr_coreId = svc_coreId config\<rparr>"

text \<open>\<^verbatim>\<open>xQueueCreateSet\<close> answers from the heap; \<open>exited\<close> is as in \<^verbatim>\<open>stop\<close>.\<close>

definition service_begin ::
  "(nat option, 'c) QueueApi \<Rightarrow> (SchedulerEvent, 'q) QueueApi \<Rightarrow> 'o TaskApi \<Rightarrow> bool \<Rightarrow> store
     \<Rightarrow> ('c, 'q, 'o) SchedulerService \<Rightarrow> (bool \<times> ('c, 'q, 'o) SchedulerService \<times> store) option" where
  "service_begin cq eq os exited m s =
     (if ss_started s then Some (True, s, m)
      else let (c, h) = xQueueCreate cq (svc_commandQueueDepth (ss_config s)) (ss_heap s);
               (q, h) = xQueueCreate eq (svc_eventQueueDepth (ss_config s)) h;
               s = s\<lparr>ss_commandQueue := c, ss_eventQueue := q, ss_heap := h\<rparr>;
               fail = (\<lambda>s. map_option (\<lambda>sm. (False, sm)) (stop cq os exited m s))
           in if c = None \<or> q = None then fail s
              else let s = s\<lparr>ss_queueSet := ss_heap s 0, ss_heap := (\<lambda>n. ss_heap s (Suc n))\<rparr>
                   in if \<not> ss_queueSet s then fail s
                      else let (created, handle, caps, o1) =
                                 createTaskPinned os (service_request (ss_config s))
                                   (svc_usePsramStack (ss_config s)) (ss_os s);
                               s = s\<lparr>ss_task := handle, ss_os := o1\<rparr>
                           in if \<not> created \<or> handle = None then fail s
                              else Some (True, s\<lparr>ss_taskCreatedWithCaps := caps, ss_started := True\<rparr>, m))"

end
