(* ===== verification/Facade.thy ===== *)
theory Facade
  imports Executors Service
begin

text \<open>
  The public class \<^verbatim>\<open>ESPScheduler\<close> of \<^verbatim>\<open>scheduler.cpp\<close>: its life cycle, the registry of executors, and
  the job operations, which go to the core directly in manual mode and through the service in
  background mode. \<^verbatim>\<open>impl_\<close> is never null here: a scheduler whose allocation failed refuses
  everything.
\<close>

section \<open>Configuration and state\<close>

record SchedulerConfig =
  cfg_mode :: SchedulerMode
  cfg_minValidEpochSeconds :: int
  cfg_usePSRAMMetadata :: bool
  cfg_service :: SchedulerServiceConfig
  cfg_defaultAsyncBackend :: AsyncExecutorBackend
  cfg_defaultWorkerPool :: WorkerPoolConfig
  cfg_defaultDedicatedTask :: DedicatedTaskOptions
  cfg_espWorker :: bool

text \<open>
  Pointers to executors. \<^verbatim>\<open>ISchedulerExecutor\<close> is an interface, and an application may register
  executors of its own: the virtual functions are a parameter, on the state \<open>'x\<close> of all executors.
\<close>

datatype ExecutorRef = InlineRef | WorkerPoolRef | ESPWorkerRef | DedicatedRef | ExternalRef nat

record 'x ExecutorOps =
  ex_begin :: "ExecutorRef \<Rightarrow> 'x \<Rightarrow> bool \<times> 'x"
  ex_end :: "ExecutorRef \<Rightarrow> bool \<Rightarrow> 'x \<Rightarrow> 'x"
  ex_submit :: "ExecutorRef \<Rightarrow> JobInvocation \<Rightarrow> 'x \<Rightarrow> bool \<times> 'x"

record ('c, 'q, 'x, 'o) Impl =
  im_config :: SchedulerConfig
  im_manualCore :: SchedulerCore
  im_service :: "('c, 'q, 'o) SchedulerService option"
  im_inlineDispatch :: bool
  im_externalExecutors :: "ExecutorRef SchedulerArray"
  im_executors :: "ExecutorRef SchedulerArray"
  im_runtime :: "SchedulerExecutorRuntime option"
  im_eventQueue :: "'q option"
  im_refreshRequested :: bool
  im_lastObservedLocalDayStartUtc :: DateTime
  im_hasLastObservedLocalDayStartUtc :: bool
  im_ntpSyncListenerId :: nat
  im_started :: bool
  im_draining :: bool
  im_heap :: heap
  im_x :: 'x

definition newScheduler :: "nat \<Rightarrow> SchedulerConfig \<Rightarrow> heap \<Rightarrow> 'x \<Rightarrow> ('c, 'q, 'x, 'o) Impl" where
  "newScheduler recordSize config h x =
     \<lparr>im_config = config,
      im_manualCore = newCore recordSize (cfg_minValidEpochSeconds config) (cfg_usePSRAMMetadata config) h,
      im_service = None, im_inlineDispatch = False,
      im_externalExecutors = newArray 4 (cfg_usePSRAMMetadata config),
      im_executors = newArray 4 (cfg_usePSRAMMetadata config), im_runtime = None, im_eventQueue = None,
      im_refreshRequested = False, im_lastObservedLocalDayStartUtc = epochDate,
      im_hasLastObservedLocalDayStartUtc = False, im_ntpSyncListenerId = 0, im_started = False,
      im_draining = False, im_heap = h, im_x = x\<rparr>"

section \<open>Executors\<close>

definition impl_executorFor :: "('c, 'q, 'x, 'o) Impl \<Rightarrow> u8 \<Rightarrow> ExecutorRef option" where
  "impl_executorFor i executorId =
     (if unat executorId \<ge> arr_size (im_executors i) then None
      else Some (arr_at (im_executors i) (unat executorId)))"

text \<open>\<^verbatim>\<open>*impl_\<close> as the \<^verbatim>\<open>IExecutorResolver\<close> that the core is given.\<close>

definition resolver :: "'x ExecutorOps \<Rightarrow> ('c, 'q, 'x, 'o) Impl \<Rightarrow> 'x IExecutorResolver" where
  "resolver ops i =
     \<lparr>inlineExecutor = (if im_inlineDispatch i then Some (ex_submit ops InlineRef) else None),
      executorFor = (\<lambda>k. map_option (ex_submit ops) (impl_executorFor i k))\<rparr>"

text \<open>Appending a list of executors; \<open>False\<close> at the first that does not fit.\<close>

fun push_executors ::
  "ExecutorRef list \<Rightarrow> ExecutorRef SchedulerArray \<Rightarrow> heap \<Rightarrow> bool \<times> ExecutorRef SchedulerArray \<times> heap" where
  "push_executors [] a h = (True, a, h)"
| "push_executors (r # rs) a h =
     (let (ok, a, h) = pushBack r a h in if \<not> ok then (False, a, h) else push_executors rs a h)"

fun begin_executors :: "'x ExecutorOps \<Rightarrow> ExecutorRef list \<Rightarrow> 'x \<Rightarrow> bool \<times> 'x" where
  "begin_executors ops [] x = (True, x)"
| "begin_executors ops (r # rs) x =
     (let (ok, x) = ex_begin ops r x in if \<not> ok then (False, x) else begin_executors ops rs x)"

definition async_ref :: "SchedulerConfig \<Rightarrow> ExecutorRef" where
  "async_ref config = (if cfg_defaultAsyncBackend config = ESPWorker then ESPWorkerRef else WorkerPoolRef)"

definition startExecutors ::
  "'x ExecutorOps \<Rightarrow> ('c, 'q, 'x, 'o) Impl \<Rightarrow> bool \<times> ('c, 'q, 'x, 'o) Impl" where
  "startExecutors ops i =
     (let (ok1, h) = new_object (im_heap i);
          (ok2, h) = new_object h;
          i = i\<lparr>im_inlineDispatch := ok1, im_heap := h\<rparr>
      in if \<not> ok1 \<or> \<not> ok2 then (False, i)
         else if cfg_defaultAsyncBackend (im_config i) \<noteq> WorkerPool \<and> \<not> cfg_espWorker (im_config i)
         then (False, i)
         else let (ok3, h) = new_object (im_heap i); i = i\<lparr>im_heap := h\<rparr>
              in if \<not> ok3 then (False, i)
                 else let (ok, x) = ex_begin ops InlineRef (im_x i); i = i\<lparr>im_x := x\<rparr>
                      in if \<not> ok then (False, i)
                         else let (ok, a, h) = push_executors
                                    (async_ref (im_config i) # DedicatedRef # arr_data (im_externalExecutors i))
                                    (arr_clear (im_executors i)) (im_heap i);
                                  i = i\<lparr>im_executors := a, im_heap := h\<rparr>
                              in if \<not> ok then (False, i)
                                 else let (ok, x) = begin_executors ops (arr_data (im_executors i)) (im_x i)
                                      in (ok, i\<lparr>im_x := x\<rparr>))"

definition stopExecutors :: "'x ExecutorOps \<Rightarrow> bool \<Rightarrow> ('c, 'q, 'x, 'o) Impl \<Rightarrow> ('c, 'q, 'x, 'o) Impl" where
  "stopExecutors ops drainRunningJobs i =
     (let x = fold (\<lambda>r. ex_end ops r drainRunningJobs) (arr_data (im_executors i)) (im_x i);
          x = (if im_inlineDispatch i then ex_end ops InlineRef drainRunningJobs x else x)
      in i\<lparr>im_executors := arr_clear (im_executors i), im_inlineDispatch := False, im_x := x\<rparr>)"

definition registerExecutor ::
  "ExecutorRef option \<Rightarrow> ('c, 'q, 'x, 'o) Impl \<Rightarrow> u8 SchedulerResult \<times> ('c, 'q, 'x, 'o) Impl" where
  "registerExecutor executor i =
     (case executor of
        None \<Rightarrow> (Inl ExecutorUnavailable, i)
      | Some r \<Rightarrow>
          if im_started i then (Inl Busy, i)
          else let executorId = of_nat (2 + arr_size (im_externalExecutors i));
                   (ok, a, h) = pushBack r (im_externalExecutors i) (im_heap i);
                   i = i\<lparr>im_externalExecutors := a, im_heap := h\<rparr>
               in if \<not> ok then (Inl NoMemory, i) else (Inr executorId, i))"

definition kInvalidExecutorId :: u8 where "kInvalidExecutorId = 255"

definition defaultWorkerExecutor :: "('c, 'q, 'x, 'o) Impl \<Rightarrow> u8" where
  "defaultWorkerExecutor i = (if cfg_defaultAsyncBackend (im_config i) \<noteq> WorkerPool then kInvalidExecutorId else 0)"

definition defaultESPWorkerExecutor :: "('c, 'q, 'x, 'o) Impl \<Rightarrow> u8" where
  "defaultESPWorkerExecutor i =
     (if cfg_defaultAsyncBackend (im_config i) \<noteq> ESPWorker \<or> \<not> cfg_espWorker (im_config i)
      then kInvalidExecutorId else 0)"

definition defaultDedicatedExecutor :: u8 where "defaultDedicatedExecutor = 1"

section \<open>The time context\<close>

text \<open>
  The flag \<^verbatim>\<open>timeContextRefreshRequested\<close> is shared with the service by reference; both copies of the
  model are written together.
\<close>

definition store_refresh_flag :: "bool \<Rightarrow> ('c, 'q, 'x, 'o) Impl \<Rightarrow> ('c, 'q, 'x, 'o) Impl" where
  "store_refresh_flag b i =
     i\<lparr>im_refreshRequested := b, im_service := map_option (\<lambda>s. s\<lparr>ss_refreshRequested := b\<rparr>) (im_service i)\<rparr>"

definition resetTimeContextTracking :: "('c, 'q, 'x, 'o) Impl \<Rightarrow> ('c, 'q, 'x, 'o) Impl" where
  "resetTimeContextTracking i =
     (store_refresh_flag False i)\<lparr>im_lastObservedLocalDayStartUtc := epochDate,
       im_hasLastObservedLocalDayStartUtc := False\<rparr>"

definition requestTimeContextRefresh :: "('c, 'q, 'x, 'o) Impl \<Rightarrow> ('c, 'q, 'x, 'o) Impl" where
  "requestTimeContextRefresh i = store_refresh_flag True i"

definition impl_refreshTimeContextIfNeeded ::
  "ESPDate \<Rightarrow> DateTime \<Rightarrow> ('c, 'q, 'x, 'o) Impl \<Rightarrow> bool \<times> ('c, 'q, 'x, 'o) Impl" where
  "impl_refreshTimeContextIfNeeded date nowUtc i =
     (let (refresh, dayStart) =
            time_context date nowUtc (im_refreshRequested i) (im_lastObservedLocalDayStartUtc i)
              (im_hasLastObservedLocalDayStartUtc i)
      in (refresh, i\<lparr>im_refreshRequested := False, im_lastObservedLocalDayStartUtc := dayStart,
                     im_hasLastObservedLocalDayStartUtc := True\<rparr>))"

text \<open>The listener id the date library returns is an input; zero is a failure.\<close>

definition registerTimeSyncListener :: "nat \<Rightarrow> ('c, 'q, 'x, 'o) Impl \<Rightarrow> bool \<times> ('c, 'q, 'x, 'o) Impl" where
  "registerTimeSyncListener listenerId i = (listenerId \<noteq> 0, i\<lparr>im_ntpSyncListenerId := listenerId\<rparr>)"

text \<open>What the listener does when the clock was synchronised.\<close>

definition on_time_sync ::
  "(nat option, 'c) QueueApi \<Rightarrow> ('c, 'q, 'x, 'o) Impl \<Rightarrow> ('c, 'q, 'x, 'o) Impl" where
  "on_time_sync cq i =
     (let i = requestTimeContextRefresh i in
      case im_service i of
        Some s \<Rightarrow> if cfg_mode (im_config i) = Background
                  then i\<lparr>im_service := Some (snd (send cq None s))\<rparr> else i
      | None \<Rightarrow> i)"

definition unregisterTimeSyncListener :: "('c, 'q, 'x, 'o) Impl \<Rightarrow> ('c, 'q, 'x, 'o) Impl" where
  "unregisterTimeSyncListener i = resetTimeContextTracking (i\<lparr>im_ntpSyncListenerId := 0\<rparr>)"


section \<open>Background commands\<close>

text \<open>
  \<^verbatim>\<open>executeBackgroundCommand\<close>. \<open>a\<close> is the address \<^verbatim>\<open>new\<close> returns; \<open>responds\<close> is whether the service gets
  to the command before the time out, in which case its \<^verbatim>\<open>drainCommands\<close> runs while the caller
  waits. The result is the command's result or the error of the facade.
\<close>

definition executeBackgroundCommand ::
  "(nat option, 'c) QueueApi \<Rightarrow> ESPDate \<Rightarrow> SchedulerServiceCommand \<Rightarrow> nat \<Rightarrow> bool
     \<Rightarrow> ('c, 'q, 'o) SchedulerService \<Rightarrow> clock \<Rightarrow> store \<Rightarrow> heap
     \<Rightarrow> ((SchedulerError + CommandResult) \<times> ('c, 'q, 'o) SchedulerService \<times> clock \<times> store \<times> heap) option" where
  "executeBackgroundCommand cq date cmd a responds s k m h =
     (let (ok, h) = new_object h in
      if \<not> ok then Some (Inl NoMemory, s, k, m, h)
      else let m = m(a \<mapsto> newCommand cmd);
               (sent, s) = send cq (Some a) s
           in if \<not> sent then Some (Inl QueueFull, s, k, m(a := None), h)
              else Option.bind (if responds then drainCommands cq date k m s else Some (s, k, m)) (\<lambda>(s, k, m).
                case m a of
                  Some c \<Rightarrow>
                    if co_signaled c then Some (Inr (co_result c), s, k, m(a := None), h)
                    else Some (Inl Timeout, s, k, m(a \<mapsto> co_abandon c), h)
                | None \<Rightarrow> Some (Inl Timeout, s, k, m, h)))"

section \<open>Life cycle\<close>

text \<open>
  The event loop of manual mode. All events are handled with the time of the call.
\<close>

partial_function (option) manual_event_loop ::
  "(SchedulerEvent, 'q) QueueApi \<Rightarrow> ESPDate \<Rightarrow> 'e IExecutorResolver \<Rightarrow> DateTime \<Rightarrow> 'q \<Rightarrow> SchedulerCore \<times> 'e
     \<Rightarrow> ('q \<times> SchedulerCore \<times> 'e) option" where
  "manual_event_loop eq date ex nowUtc q ce =
     (case xQueueReceive eq q of
        (None, q') \<Rightarrow> Some (q', ce)
      | (Some event, q') \<Rightarrow> manual_event_loop eq date ex nowUtc q' (handleEvent date ex event nowUtc (fst ce) (snd ce)))"

declare manual_event_loop.simps [code]

definition drainManualEvents ::
  "(SchedulerEvent, 'q) QueueApi \<Rightarrow> ESPDate \<Rightarrow> 'x ExecutorOps \<Rightarrow> DateTime \<Rightarrow> ('c, 'q, 'x, 'o) Impl
     \<Rightarrow> ('c, 'q, 'x, 'o) Impl option" where
  "drainManualEvents eq date ops nowUtc i =
     (case im_eventQueue i of
        None \<Rightarrow> Some i
      | Some q \<Rightarrow>
          map_option (\<lambda>(q, core, x). i\<lparr>im_eventQueue := Some q, im_manualCore := core, im_x := x\<rparr>)
            (manual_event_loop eq date (resolver ops i) nowUtc q (im_manualCore i, im_x i)))"

text \<open>
  The wait of \<^verbatim>\<open>end(true)\<close> in manual mode: until no invocation is active or the deadline has passed;
  \<open>rounds\<close> is the number of rounds that fit before the deadline.
\<close>

fun await_manual ::
  "(SchedulerEvent, 'q) QueueApi \<Rightarrow> ESPDate \<Rightarrow> 'x ExecutorOps \<Rightarrow> nat \<Rightarrow> clock \<Rightarrow> ('c, 'q, 'x, 'o) Impl
     \<Rightarrow> ('c, 'q, 'x, 'o) Impl option" where
  "await_manual eq date ops 0 k i = Some i"
| "await_manual eq date ops (Suc rounds) k i =
     (if activeInvocationCount (im_manualCore i) > 0
      then Option.bind (drainManualEvents eq date ops (fst (date_now k)) i)
             (await_manual eq date ops rounds (snd (date_now k)))
      else Some i)"

text \<open>The last statements of \<^verbatim>\<open>end\<close>.\<close>

definition end_finish :: "('c, 'q, 'x, 'o) Impl \<Rightarrow> ('c, 'q, 'x, 'o) Impl" where
  "end_finish i = i\<lparr>im_runtime := None, im_started := False, im_draining := False\<rparr>"

definition close_runtime :: "bool \<Rightarrow> ('c, 'q, 'x, 'o) Impl \<Rightarrow> ('c, 'q, 'x, 'o) Impl" where
  "close_runtime waitForRunningJobs i =
     (if \<not> waitForRunningJobs
      then i\<lparr>im_runtime := map_option (\<lambda>r. r\<lparr>rt_accepting := False, rt_eventQueue := False\<rparr>) (im_runtime i)\<rparr>
      else i)"

text \<open>
  \<^verbatim>\<open>end\<close> in background mode: the jobs are canceled by a command, the service is given time to see its
  active invocations complete, then the executors and the service are stopped. \<open>env\<close> stands for
  what the service's task does during the wait.
\<close>

definition end_background ::
  "(nat option, 'c) QueueApi \<Rightarrow> ESPDate \<Rightarrow> 'o TaskApi \<Rightarrow> 'x ExecutorOps \<Rightarrow> bool \<Rightarrow> nat \<Rightarrow> bool \<Rightarrow> bool
     \<Rightarrow> (('c, 'q, 'o) SchedulerService \<Rightarrow> ('c, 'q, 'o) SchedulerService)
     \<Rightarrow> ('c, 'q, 'o) SchedulerService \<Rightarrow> clock \<Rightarrow> store \<Rightarrow> ('c, 'q, 'x, 'o) Impl
     \<Rightarrow> (('c, 'q, 'x, 'o) Impl \<times> clock \<times> store) option" where
  "end_background cq date os ops waitForRunningJobs a responds exited env s k m i =
     Option.bind (executeBackgroundCommand cq date CancelAllCommand a responds s k m (im_heap i))
       (\<lambda>(r, s, k, m, h).
         let s = (if waitForRunningJobs then env s else s);
             i = i\<lparr>im_service := Some s, im_heap := h,
                   im_runtime := map_option (\<lambda>r. r\<lparr>rt_accepting := waitForRunningJobs\<rparr>) (im_runtime i)\<rparr>;
             i = stopExecutors ops waitForRunningJobs (close_runtime waitForRunningJobs i)
         in map_option (\<lambda>(s, m). (i\<lparr>im_service := None\<rparr>, k, m)) (stop cq os exited m s))"

definition end_manual ::
  "(SchedulerEvent, 'q) QueueApi \<Rightarrow> ESPDate \<Rightarrow> 'x ExecutorOps \<Rightarrow> bool \<Rightarrow> nat \<Rightarrow> clock \<Rightarrow> ('c, 'q, 'x, 'o) Impl
     \<Rightarrow> ('c, 'q, 'x, 'o) Impl option" where
  "end_manual eq date ops waitForRunningJobs rounds k i =
     (let i = i\<lparr>im_manualCore := snd (cancelAll (im_manualCore i))\<rparr> in
      map_option (\<lambda>i. (stopExecutors ops waitForRunningJobs (close_runtime waitForRunningJobs i))\<lparr>im_eventQueue := None\<rparr>)
        (if waitForRunningJobs then await_manual eq date ops rounds k i else Some i))"

text \<open>
  The inputs of the environment to \<^verbatim>\<open>begin\<close> and \<^verbatim>\<open>end\<close>: the address of the command, whether the
  service answers it and leaves its loop in time, the rounds a wait lasts, what the service does
  during it, and the id of the listener.
\<close>

record ('c, 'q, 'o) Surroundings =
  su_address :: nat
  su_responds :: bool
  su_exited :: bool
  su_rounds :: nat
  su_env :: "('c, 'q, 'o) SchedulerService \<Rightarrow> ('c, 'q, 'o) SchedulerService"
  su_listener :: nat

definition scheduler_end ::
  "(nat option, 'c) QueueApi \<Rightarrow> (SchedulerEvent, 'q) QueueApi \<Rightarrow> ESPDate \<Rightarrow> 'o TaskApi \<Rightarrow> 'x ExecutorOps
     \<Rightarrow> ('c, 'q, 'o) Surroundings \<Rightarrow> bool \<Rightarrow> clock \<Rightarrow> store \<Rightarrow> ('c, 'q, 'x, 'o) Impl
     \<Rightarrow> (('c, 'q, 'x, 'o) Impl \<times> clock \<times> store) option" where
  "scheduler_end cq eq date os ops su waitForRunningJobs k m i =
     (if \<not> im_started i then Some (i, k, m)
      else let i = unregisterTimeSyncListener (i\<lparr>im_draining := True\<rparr>) in
        map_option (\<lambda>(i, k, m). (end_finish i, k, m))
          (case im_service i of
             Some s \<Rightarrow>
               if cfg_mode (im_config i) = Background
               then end_background cq date os ops waitForRunningJobs (su_address su) (su_responds su) (su_exited su)
                      (su_env su) s k m i
               else map_option (\<lambda>i. (i, k, m)) (end_manual eq date ops waitForRunningJobs (su_rounds su) k i)
           | None \<Rightarrow> map_option (\<lambda>i. (i, k, m)) (end_manual eq date ops waitForRunningJobs (su_rounds su) k i)))"

text \<open>
  \<^verbatim>\<open>~Impl\<close> deletes the event queue, then the members are destroyed, the service among them;
  \<^verbatim>\<open>~ESPScheduler\<close> runs \<^verbatim>\<open>end(true)\<close> first. A scheduler whose \<^verbatim>\<open>Impl\<close> could not be allocated has nothing
  to destroy. The result is the memory that is about to be freed, and the store.
\<close>

definition destroyImpl ::
  "(nat option, 'c) QueueApi \<Rightarrow> 'o TaskApi \<Rightarrow> bool \<Rightarrow> store \<Rightarrow> ('c, 'q, 'x, 'o) Impl
     \<Rightarrow> (('c, 'q, 'x, 'o) Impl \<times> store) option" where
  "destroyImpl cq os exited m i =
     (let i = i\<lparr>im_eventQueue := None\<rparr> in
      case im_service i of
        None \<Rightarrow> Some (i, m)
      | Some s \<Rightarrow> map_option (\<lambda>m. (i\<lparr>im_service := None\<rparr>, m)) (destroyService cq os exited m s))"

definition destroyScheduler ::
  "(nat option, 'c) QueueApi \<Rightarrow> (SchedulerEvent, 'q) QueueApi \<Rightarrow> ESPDate \<Rightarrow> 'o TaskApi \<Rightarrow> 'x ExecutorOps
     \<Rightarrow> ('c, 'q, 'o) Surroundings \<Rightarrow> clock \<Rightarrow> store \<Rightarrow> ('c, 'q, 'x, 'o) Impl option
     \<Rightarrow> (('c, 'q, 'x, 'o) Impl option \<times> store) option" where
  "destroyScheduler cq eq date os ops su k m impl =
     (case impl of
        None \<Rightarrow> Some (None, m)
      | Some i \<Rightarrow>
          Option.bind (scheduler_end cq eq date os ops su True k m i) (\<lambda>(i, k, m).
            map_option (\<lambda>(i, m). (Some i, m)) (destroyImpl cq os (su_exited su) m i)))"

text \<open>
  Acquiring the queue or the service that completion events go to; \<open>False\<close> where \<^verbatim>\<open>begin\<close> gives up
  before anything is started.
\<close>

definition open_events ::
  "nat \<Rightarrow> (nat option, 'c) QueueApi \<Rightarrow> (SchedulerEvent, 'q) QueueApi \<Rightarrow> 'o TaskApi \<Rightarrow> bool \<Rightarrow> 'o \<Rightarrow> store
     \<Rightarrow> ('c, 'q, 'x, 'o) Impl \<Rightarrow> (bool \<times> ('c, 'q, 'x, 'o) Impl \<times> store) option" where
  "open_events recordSize cq eq os exited o1 m i =
     (if cfg_mode (im_config i) = Background
      then let (ok, h) = new_object (im_heap i);
               i = i\<lparr>im_heap := h\<rparr>;
               s = newService (cfg_service (im_config i))
                     (newCore recordSize (cfg_minValidEpochSeconds (im_config i)) (cfg_usePSRAMMetadata (im_config i)) h)
                     (im_refreshRequested i) h o1
           in if \<not> ok then Some (False, i\<lparr>im_service := None, im_runtime := None\<rparr>, m)
              else map_option (\<lambda>(begun, s, m).
                     if \<not> begun then (False, i\<lparr>im_service := None, im_runtime := None\<rparr>, m)
                     else (True, i\<lparr>im_service := Some s,
                                   im_runtime := map_option (\<lambda>r. r\<lparr>rt_eventQueue := True\<rparr>) (im_runtime i)\<rparr>, m))
                     (service_begin cq eq os exited m s)
      else let (q, h) = xQueueCreate eq (svc_eventQueueDepth (cfg_service (im_config i))) (im_heap i);
               i = i\<lparr>im_eventQueue := q, im_heap := h\<rparr>
           in if q = None then Some (False, i\<lparr>im_runtime := None\<rparr>, m)
              else Some (True, i\<lparr>im_runtime := map_option (\<lambda>r. r\<lparr>rt_eventQueue := True\<rparr>) (im_runtime i)\<rparr>, m))"

definition scheduler_begin ::
  "nat \<Rightarrow> (nat option, 'c) QueueApi \<Rightarrow> (SchedulerEvent, 'q) QueueApi \<Rightarrow> ESPDate \<Rightarrow> 'o TaskApi \<Rightarrow> 'x ExecutorOps
     \<Rightarrow> ('c, 'q, 'o) Surroundings \<Rightarrow> 'o \<Rightarrow> clock \<Rightarrow> store \<Rightarrow> ('c, 'q, 'x, 'o) Impl
     \<Rightarrow> (bool \<times> ('c, 'q, 'x, 'o) Impl \<times> clock \<times> store) option" where
  "scheduler_begin recordSize cq eq date os ops su o1 k m i =
     (if im_started i then Some (True, i, k, m)
      else let i = i\<lparr>im_runtime := Some \<lparr>rt_accepting = True, rt_eventQueue = False\<rparr>\<rparr> in
        Option.bind (open_events recordSize cq eq os (su_exited su) o1 m i) (\<lambda>(ok, i, m).
          if \<not> ok then Some (False, i, k, m)
          else let (ok, i) = startExecutors ops (i\<lparr>im_started := True\<rparr>);
                   (ok, i) = (if \<not> ok then (False, i) else registerTimeSyncListener (su_listener su) i)
               in if \<not> ok
                  then map_option (\<lambda>r. (False, r)) (scheduler_end cq eq date os ops su False k m i)
                  else Some (True, i\<lparr>im_draining := False\<rparr>, k, m)))"

definition running :: "('c, 'q, 'x, 'o) Impl \<Rightarrow> bool" where
  "running i \<longleftrightarrow> im_started i \<and> \<not> im_draining i"

definition draining :: "('c, 'q, 'x, 'o) Impl \<Rightarrow> bool" where
  "draining i \<longleftrightarrow> im_draining i"

end
