(* ===== verification/Facade_Jobs.thy ===== *)
theory Facade_Jobs
  imports Facade
begin

text \<open>
  The job operations of \<^verbatim>\<open>ESPScheduler\<close>. Each refuses unless the scheduler is running, and then goes to
  the manual core or, in background mode, sends a command to the service and waits for it.
\<close>

section \<open>Through the service or directly\<close>

text \<open>The test \<^verbatim>\<open>config.mode == SchedulerMode::Background && service\<close>.\<close>

definition background :: "('c, 'q, 'x, 'o) Impl \<Rightarrow> ('c, 'q, 'o) SchedulerService option" where
  "background i = (if cfg_mode (im_config i) = Background then im_service i else None)"

type_synonym ('r, 'c, 'q, 'x, 'o) outcome =
  "('r SchedulerResult \<times> ('c, 'q, 'x, 'o) Impl \<times> clock \<times> store) option"

definition run_command ::
  "(nat option, 'c) QueueApi \<Rightarrow> ESPDate \<Rightarrow> ('c, 'q, 'o) Surroundings \<Rightarrow> SchedulerServiceCommand
     \<Rightarrow> (SchedulerError + CommandResult \<Rightarrow> 'r SchedulerResult) \<Rightarrow> ('c, 'q, 'o) SchedulerService \<Rightarrow> clock \<Rightarrow> store
     \<Rightarrow> ('c, 'q, 'x, 'o) Impl \<Rightarrow> ('r, 'c, 'q, 'x, 'o) outcome" where
  "run_command cq date su cmd get s k m i =
     map_option (\<lambda>(r, s, k, m, h). (get r, i\<lparr>im_service := Some s, im_heap := h\<rparr>, k, m))
       (executeBackgroundCommand cq date cmd (su_address su) (su_responds su) s k m (im_heap i))"

text \<open>Reading the typed result of a command; a command only ever has a result of its own type.\<close>

fun get_id :: "SchedulerError + CommandResult \<Rightarrow> u32 SchedulerResult" where
  "get_id (Inr (JobIdResult r)) = r" | "get_id (Inl e) = Inl e" | "get_id r = Inl NotInitialized"

fun get_void :: "SchedulerError + CommandResult \<Rightarrow> unit SchedulerResult" where
  "get_void (Inr (VoidResult r)) = r" | "get_void (Inl e) = Inl e" | "get_void r = Inl NotInitialized"

fun get_size :: "SchedulerError + CommandResult \<Rightarrow> nat SchedulerResult" where
  "get_size (Inr (SizeResult r)) = r" | "get_size (Inl e) = Inl e" | "get_size r = Inl NotInitialized"

section \<open>Adding jobs\<close>

definition addJobImpl ::
  "(nat option, 'c) QueueApi \<Rightarrow> ESPDate \<Rightarrow> ('c, 'q, 'o) Surroundings \<Rightarrow> ScheduleSpec \<Rightarrow> JobOptions \<Rightarrow> CallbackRef
     \<Rightarrow> clock \<Rightarrow> store \<Rightarrow> ('c, 'q, 'x, 'o) Impl \<Rightarrow> (u32, 'c, 'q, 'x, 'o) outcome" where
  "addJobImpl cq date su schedule options callback k m i =
     (if \<not> im_started i \<or> im_draining i then Some (Inl NotInitialized, i, k, m)
      else if opt_dispatch options = Async \<and> impl_executorFor i (opt_executorId options) = None
      then Some (Inl ExecutorUnavailable, i, k, m)
      else case background i of
             Some s \<Rightarrow> run_command cq date su (AddJobCommand schedule options callback) get_id s k m i
           | None \<Rightarrow>
               let (now, k) = date_now k; (r, core) = addJob date schedule options callback now (im_manualCore i)
               in Some (r, i\<lparr>im_manualCore := core\<rparr>, k, m))"

text \<open>
  The three overloads for a function pointer, a function object and a function object without
  argument. Function objects are numbers, null is \<open>None\<close>; the closure that calls a function without
  its argument is represented by that function with a null argument.
\<close>

definition raw_callback :: "nat \<Rightarrow> nat \<Rightarrow> CallbackRef" where
  "raw_callback fn userData = \<lparr>cb_kind = RawFunction, cb_rawFn = Some fn, cb_userData = userData, cb_owningFn = None\<rparr>"

definition owning_callback :: "nat \<Rightarrow> nat \<Rightarrow> CallbackRef" where
  "owning_callback fn userData = \<lparr>cb_kind = OwningFunction, cb_rawFn = None, cb_userData = userData, cb_owningFn = Some fn\<rparr>"

definition addJob_raw ::
  "(nat option, 'c) QueueApi \<Rightarrow> ESPDate \<Rightarrow> ('c, 'q, 'o) Surroundings \<Rightarrow> ScheduleSpec \<Rightarrow> JobOptions \<Rightarrow> nat option \<Rightarrow> nat
     \<Rightarrow> clock \<Rightarrow> store \<Rightarrow> ('c, 'q, 'x, 'o) Impl \<Rightarrow> (u32, 'c, 'q, 'x, 'o) outcome" where
  "addJob_raw cq date su schedule options callback userData k m i =
     (case callback of
        None \<Rightarrow> Some (Inl InvalidSchedule, i, k, m)
      | Some fn \<Rightarrow> addJobImpl cq date su schedule options (raw_callback fn userData) k m i)"

definition addJob_owning ::
  "(nat option, 'c) QueueApi \<Rightarrow> ESPDate \<Rightarrow> ('c, 'q, 'o) Surroundings \<Rightarrow> ScheduleSpec \<Rightarrow> JobOptions \<Rightarrow> nat option \<Rightarrow> nat
     \<Rightarrow> clock \<Rightarrow> store \<Rightarrow> ('c, 'q, 'x, 'o) Impl \<Rightarrow> (u32, 'c, 'q, 'x, 'o) outcome" where
  "addJob_owning cq date su schedule options callback userData k m i =
     (case callback of
        None \<Rightarrow> Some (Inl InvalidSchedule, i, k, m)
      | Some fn \<Rightarrow> addJobImpl cq date su schedule options (owning_callback fn userData) k m i)"

definition addJob_noData ::
  "(nat option, 'c) QueueApi \<Rightarrow> ESPDate \<Rightarrow> ('c, 'q, 'o) Surroundings \<Rightarrow> ScheduleSpec \<Rightarrow> JobOptions \<Rightarrow> nat option
     \<Rightarrow> clock \<Rightarrow> store \<Rightarrow> ('c, 'q, 'x, 'o) Impl \<Rightarrow> (u32, 'c, 'q, 'x, 'o) outcome" where
  "addJob_noData cq date su schedule options callback k m i =
     (case callback of
        None \<Rightarrow> Some (Inl InvalidSchedule, i, k, m)
      | Some fn \<Rightarrow> addJobImpl cq date su schedule options (owning_callback fn 0) k m i)"

definition addJobOnceUtc_raw ::
  "(nat option, 'c) QueueApi \<Rightarrow> ESPDate \<Rightarrow> ('c, 'q, 'o) Surroundings \<Rightarrow> DateTime \<Rightarrow> JobOptions \<Rightarrow> nat option \<Rightarrow> nat
     \<Rightarrow> clock \<Rightarrow> store \<Rightarrow> ('c, 'q, 'x, 'o) Impl \<Rightarrow> (u32, 'c, 'q, 'x, 'o) outcome" where
  "addJobOnceUtc_raw cq date su whenUtc options callback userData =
     addJob_raw cq date su (onceUtc whenUtc) options callback userData"

definition addJobOnceUtc_owning ::
  "(nat option, 'c) QueueApi \<Rightarrow> ESPDate \<Rightarrow> ('c, 'q, 'o) Surroundings \<Rightarrow> DateTime \<Rightarrow> JobOptions \<Rightarrow> nat option \<Rightarrow> nat
     \<Rightarrow> clock \<Rightarrow> store \<Rightarrow> ('c, 'q, 'x, 'o) Impl \<Rightarrow> (u32, 'c, 'q, 'x, 'o) outcome" where
  "addJobOnceUtc_owning cq date su whenUtc options callback userData =
     addJob_owning cq date su (onceUtc whenUtc) options callback userData"

definition addJobOnceUtc_noData ::
  "(nat option, 'c) QueueApi \<Rightarrow> ESPDate \<Rightarrow> ('c, 'q, 'o) Surroundings \<Rightarrow> DateTime \<Rightarrow> JobOptions \<Rightarrow> nat option
     \<Rightarrow> clock \<Rightarrow> store \<Rightarrow> ('c, 'q, 'x, 'o) Impl \<Rightarrow> (u32, 'c, 'q, 'x, 'o) outcome" where
  "addJobOnceUtc_noData cq date su whenUtc options callback =
     addJob_noData cq date su (onceUtc whenUtc) options callback"

section \<open>Managing jobs\<close>

definition fac_cancelJob ::
  "(nat option, 'c) QueueApi \<Rightarrow> ESPDate \<Rightarrow> ('c, 'q, 'o) Surroundings \<Rightarrow> u32 \<Rightarrow> clock \<Rightarrow> store
     \<Rightarrow> ('c, 'q, 'x, 'o) Impl \<Rightarrow> (unit, 'c, 'q, 'x, 'o) outcome" where
  "fac_cancelJob cq date su jobId k m i =
     (if \<not> im_started i \<or> im_draining i then Some (Inl NotInitialized, i, k, m)
      else case background i of
             Some s \<Rightarrow> run_command cq date su (CancelJobCommand jobId) get_void s k m i
           | None \<Rightarrow> let (r, core) = cancelJob jobId (im_manualCore i)
                     in Some (r, i\<lparr>im_manualCore := core\<rparr>, k, m))"

definition fac_pauseJob ::
  "(nat option, 'c) QueueApi \<Rightarrow> ESPDate \<Rightarrow> ('c, 'q, 'o) Surroundings \<Rightarrow> u32 \<Rightarrow> clock \<Rightarrow> store
     \<Rightarrow> ('c, 'q, 'x, 'o) Impl \<Rightarrow> (unit, 'c, 'q, 'x, 'o) outcome" where
  "fac_pauseJob cq date su jobId k m i =
     (if \<not> im_started i \<or> im_draining i then Some (Inl NotInitialized, i, k, m)
      else case background i of
             Some s \<Rightarrow> run_command cq date su (PauseJobCommand jobId) get_void s k m i
           | None \<Rightarrow> let (r, core) = pauseJob jobId (im_manualCore i)
                     in Some (r, i\<lparr>im_manualCore := core\<rparr>, k, m))"

definition fac_resumeJob ::
  "(nat option, 'c) QueueApi \<Rightarrow> ESPDate \<Rightarrow> ('c, 'q, 'o) Surroundings \<Rightarrow> u32 \<Rightarrow> clock \<Rightarrow> store
     \<Rightarrow> ('c, 'q, 'x, 'o) Impl \<Rightarrow> (unit, 'c, 'q, 'x, 'o) outcome" where
  "fac_resumeJob cq date su jobId k m i =
     (if \<not> im_started i \<or> im_draining i then Some (Inl NotInitialized, i, k, m)
      else case background i of
             Some s \<Rightarrow> run_command cq date su (ResumeJobCommand jobId) get_void s k m i
           | None \<Rightarrow> let (now, k) = date_now k; (r, core) = resumeJob jobId now (im_manualCore i)
                     in Some (r, i\<lparr>im_manualCore := core\<rparr>, k, m))"

definition fac_cancelAll ::
  "(nat option, 'c) QueueApi \<Rightarrow> ESPDate \<Rightarrow> ('c, 'q, 'o) Surroundings \<Rightarrow> clock \<Rightarrow> store
     \<Rightarrow> ('c, 'q, 'x, 'o) Impl \<Rightarrow> (unit, 'c, 'q, 'x, 'o) outcome" where
  "fac_cancelAll cq date su k m i =
     (if \<not> im_started i \<or> im_draining i then Some (Inl NotInitialized, i, k, m)
      else case background i of
             Some s \<Rightarrow> run_command cq date su CancelAllCommand get_void s k m i
           | None \<Rightarrow> let (r, core) = cancelAll (im_manualCore i)
                     in Some (r, i\<lparr>im_manualCore := core\<rparr>, k, m))"

text \<open>In manual mode the completions that have arrived are handled before the schedules are refreshed.\<close>

definition fac_refreshAllSchedules ::
  "(nat option, 'c) QueueApi \<Rightarrow> (SchedulerEvent, 'q) QueueApi \<Rightarrow> ESPDate \<Rightarrow> 'x ExecutorOps \<Rightarrow> ('c, 'q, 'o) Surroundings
     \<Rightarrow> clock \<Rightarrow> store \<Rightarrow> ('c, 'q, 'x, 'o) Impl \<Rightarrow> (unit, 'c, 'q, 'x, 'o) outcome" where
  "fac_refreshAllSchedules cq eq date ops su k m i =
     (if \<not> im_started i \<or> im_draining i then Some (Inl NotInitialized, i, k, m)
      else case background i of
             Some s \<Rightarrow> run_command cq date su RefreshAllSchedulesCommand get_void s k m i
           | None \<Rightarrow>
               let (now, k) = date_now k
               in map_option (\<lambda>i. let (r, core) = refreshAllSchedules date now (im_manualCore i)
                                  in (r, i\<lparr>im_manualCore := core\<rparr>, k, m))
                    (drainManualEvents eq date ops now i))"

definition tick ::
  "(SchedulerEvent, 'q) QueueApi \<Rightarrow> ESPDate \<Rightarrow> 'x ExecutorOps \<Rightarrow> DateTime \<Rightarrow> ('c, 'q, 'x, 'o) Impl
     \<Rightarrow> ('c, 'q, 'x, 'o) Impl option" where
  "tick eq date ops nowUtc i =
     (if \<not> im_started i \<or> cfg_mode (im_config i) = Background then Some i
      else Option.bind (drainManualEvents eq date ops nowUtc i) (\<lambda>i.
        let (refresh, i) = impl_refreshTimeContextIfNeeded date nowUtc i;
            i = (if refresh then i\<lparr>im_manualCore := snd (refreshAllSchedules date nowUtc (im_manualCore i))\<rparr> else i)
        in Option.bind (dispatchDue date (resolver ops i) nowUtc (im_manualCore i) (im_x i)) (\<lambda>(core, x).
             drainManualEvents eq date ops nowUtc (i\<lparr>im_manualCore := core, im_x := x\<rparr>))))"

text \<open>\<^verbatim>\<open>tick()\<close> with the time of the call.\<close>

definition tick_now ::
  "(SchedulerEvent, 'q) QueueApi \<Rightarrow> ESPDate \<Rightarrow> 'x ExecutorOps \<Rightarrow> clock \<Rightarrow> ('c, 'q, 'x, 'o) Impl
     \<Rightarrow> (('c, 'q, 'x, 'o) Impl \<times> clock) option" where
  "tick_now eq date ops k i =
     (let (now, k) = date_now k in map_option (\<lambda>i. (i, k)) (tick eq date ops now i))"

section \<open>Queries and settings\<close>

definition fac_jobCount ::
  "(nat option, 'c) QueueApi \<Rightarrow> ESPDate \<Rightarrow> ('c, 'q, 'o) Surroundings \<Rightarrow> clock \<Rightarrow> store
     \<Rightarrow> ('c, 'q, 'x, 'o) Impl \<Rightarrow> (nat, 'c, 'q, 'x, 'o) outcome" where
  "fac_jobCount cq date su k m i =
     (if \<not> im_started i then Some (Inl NotInitialized, i, k, m)
      else case background i of
             Some s \<Rightarrow> run_command cq date su JobCountCommand get_size s k m i
           | None \<Rightarrow> Some (jobCount (im_manualCore i), i, k, m))"

text \<open>
  \<^verbatim>\<open>getJobInfo\<close> writes through a reference: the result is paired with what the caller's variable holds
  afterwards, \<open>None\<close> when it was not written.
\<close>

fun get_info :: "SchedulerError + CommandResult \<Rightarrow> JobInfo option \<times> unit SchedulerResult" where
  "get_info (Inr (InfoResult r out)) = (out, r)" | "get_info (Inl e) = (None, Inl e)"
| "get_info r = (None, Inl NotInitialized)"

definition fac_getJobInfo ::
  "(nat option, 'c) QueueApi \<Rightarrow> ESPDate \<Rightarrow> ('c, 'q, 'o) Surroundings \<Rightarrow> u32 \<Rightarrow> clock \<Rightarrow> store
     \<Rightarrow> ('c, 'q, 'x, 'o) Impl \<Rightarrow> (JobInfo option \<times> unit SchedulerResult \<times> ('c, 'q, 'x, 'o) Impl \<times> clock \<times> store) option" where
  "fac_getJobInfo cq date su jobId k m i =
     (if \<not> im_started i then Some (Some emptyJobInfo, Inl NotInitialized, i, k, m)
      else case background i of
             Some s \<Rightarrow>
               map_option (\<lambda>(r, s, k, m, h).
                   (fst (get_info r), snd (get_info r), i\<lparr>im_service := Some s, im_heap := h\<rparr>, k, m))
                 (executeBackgroundCommand cq date (GetJobInfoCommand jobId True) (su_address su) (su_responds su)
                    s k m (im_heap i))
           | None \<Rightarrow> Some (Some (snd (getJobInfo (im_manualCore i) jobId)), fst (getJobInfo (im_manualCore i) jobId), i, k, m))"

definition fac_setMinValidUnixSeconds ::
  "(nat option, 'c) QueueApi \<Rightarrow> ESPDate \<Rightarrow> ('c, 'q, 'o) Surroundings \<Rightarrow> int \<Rightarrow> clock \<Rightarrow> store
     \<Rightarrow> ('c, 'q, 'x, 'o) Impl \<Rightarrow> (('c, 'q, 'x, 'o) Impl \<times> clock \<times> store) option" where
  "fac_setMinValidUnixSeconds cq date su minEpochSeconds k m i =
     (let i = i\<lparr>im_config := (im_config i)\<lparr>cfg_minValidEpochSeconds := minEpochSeconds\<rparr>\<rparr> in
      if \<not> im_started i
      then Some (i\<lparr>im_manualCore := setMinValidUnixSeconds minEpochSeconds (im_manualCore i)\<rparr>, k, m)
      else case background i of
             Some s \<Rightarrow> map_option snd (run_command cq date su (SetMinValidCommand minEpochSeconds) get_void s k m i)
           | None \<Rightarrow> Some (i\<lparr>im_manualCore := setMinValidUnixSeconds minEpochSeconds (im_manualCore i)\<rparr>, k, m))"

definition fac_setMinValidUtc ::
  "(nat option, 'c) QueueApi \<Rightarrow> ESPDate \<Rightarrow> ('c, 'q, 'o) Surroundings \<Rightarrow> DateTime \<Rightarrow> clock \<Rightarrow> store
     \<Rightarrow> ('c, 'q, 'x, 'o) Impl \<Rightarrow> (('c, 'q, 'x, 'o) Impl \<times> clock \<times> store) option" where
  "fac_setMinValidUtc cq date su minUtc = fac_setMinValidUnixSeconds cq date su (epochSeconds minUtc)"

definition fac_minValidUnixSeconds :: "('c, 'q, 'x, 'o) Impl \<Rightarrow> int" where
  "fac_minValidUnixSeconds i = cfg_minValidEpochSeconds (im_config i)"

definition computeNextOccurrence :: "ESPDate \<Rightarrow> ScheduleSpec \<Rightarrow> DateTime \<Rightarrow> DateTime option" where
  "computeNextOccurrence date schedule fromUtc = computeNext date schedule fromUtc"

end
