(* ===== verification/Service_Spec.thy ===== *)
theory Service_Spec
  imports Service Dispatch_Safety
begin

text \<open>
  The background service against its specification: commands are served in order and answered, a
  round of the service keeps the core's invariant and ends, and the time it sleeps is bounded by
  the next deadline.
\<close>

section \<open>Serving the command queue\<close>

text \<open>The addresses in a queue of commands, without the null pointers.\<close>

definition addresses :: "nat option list \<Rightarrow> nat list" where
  "addresses xs = List.map_filter (\<lambda>x. x) xs"

lemma addresses_simps [simp]: "addresses [] = []" "addresses (None # xs) = addresses xs"
  "addresses (Some a # xs) = a # addresses xs" "addresses (xs @ ys) = addresses xs @ addresses ys"
  by (simp_all add: addresses_def map_filter_def)

lemma receive_split:
  assumes "fifo_queue api items depth"
  obtains (none) q' where "items q = []" "xQueueReceive api q = (None, q')" "items q' = []" "depth q' = depth q"
  | (item) x xs q' where "items q = x # xs" "xQueueReceive api q = (Some x, q')" "items q' = xs" "depth q' = depth q"
  using fifo_receive [OF assms, of q] that by (cases "items q"; cases "xQueueReceive api q") auto

lemma command_loop_fold:
  assumes "fifo_queue cq items depth"
  shows "\<exists>q'. command_loop cq date q ckm = Some (q', fold (process_command date) (addresses (items q)) ckm) \<and>
    items q' = [] \<and> depth q' = depth q"
proof (induction "length (items q)" arbitrary: q ckm rule: less_induct)
  case less
  show ?case
    using assms
  proof (cases rule: receive_split [where q = q])
    case (none q')
    then show ?thesis by (subst command_loop.simps) simp
  next
    case (item x xs q1)
    let ?ckm = "case x of None \<Rightarrow> ckm | Some a \<Rightarrow> process_command date a ckm"
    have "command_loop cq date q ckm = command_loop cq date q1 ?ckm"
      using item(2) by (subst command_loop.simps) (simp split: option.splits)
    moreover obtain q' where "command_loop cq date q1 ?ckm =
        Some (q', fold (process_command date) (addresses (items q1)) ?ckm)" "items q' = []" "depth q' = depth q1"
      using less [of q1 ?ckm] item by auto
    ultimately show ?thesis using item by (cases x) auto
  qed
qed

text \<open>Executing a list of commands one after the other.\<close>

fun execute_all ::
  "ESPDate \<Rightarrow> SchedulerServiceCommand list \<Rightarrow> SchedulerCore \<Rightarrow> clock \<Rightarrow> CommandResult list \<times> SchedulerCore \<times> clock" where
  "execute_all date [] core k = ([], core, k)"
| "execute_all date (c # cs) core k =
     (let (r, core, k) = execute date c k core; (rs, core, k) = execute_all date cs core k
      in (r # rs, core, k))"

lemma execute_all_length: "execute_all date cs core k = (rs, core', k') \<Longrightarrow> length rs = length cs"
  by (induction cs arbitrary: core k rs) (auto split: prod.splits)

definition answered :: "CommandResult \<Rightarrow> CommandObject \<Rightarrow> CommandObject option" where
  "answered r c = (if co_abandoned c then None else Some (c\<lparr>co_result := r, co_signaled := True\<rparr>))"

lemma process_commands:
  assumes "distinct as" "map m as = map Some cs" "execute_all date (map co_command cs) core k = (rs, core', k')"
  shows "\<exists>m'. fold (process_command date) as (core, k, m) = (core', k', m') \<and>
    map m' as = map2 answered rs cs \<and> (\<forall>a. a \<notin> set as \<longrightarrow> m' a = m a)"
  using assms
proof (induction as arbitrary: cs core k rs m)
  case (Cons a as)
  then obtain c cs' where cs: "cs = c # cs'" "m a = Some c" "map m as = map Some cs'" by (cases cs) auto
  obtain r core1 k1 where x: "execute date (co_command c) k core = (r, core1, k1)" by (metis prod_cases3)
  obtain rs' where rest: "execute_all date (map co_command cs') core1 k1 = (rs', core', k')" and rs: "rs = r # rs'"
    using Cons.prems(3) cs x by (auto split: prod.splits)
  define m1 where "m1 = m(a := answered r c)"
  have p: "process_command date a (core, k, m) = (core1, k1, m1)"
    using cs(2) x by (auto simp: process_command_def answered_def m1_def co_signal_def Let_def)
  have "map m1 as = map Some cs'" using Cons.prems(1) cs(3) by (auto simp: m1_def)
  from Cons.IH [OF _ this rest] Cons.prems(1) obtain m' where
    m': "fold (process_command date) as (core1, k1, m1) = (core', k', m')" "map m' as = map2 answered rs' cs'"
      "\<forall>b. b \<notin> set as \<longrightarrow> m' b = m1 b" by auto
  then have "m' a = answered r c" using Cons.prems(1) by (simp add: m1_def)
  then show ?case using m' p cs(1) rs Cons.prems(1) by (auto simp: m1_def)
qed auto

text \<open>
  C10: \<^verbatim>\<open>drainCommands\<close> ends with an empty queue. It executes the queued commands on the core in the
  order they were sent, each exactly once; every command whose caller is still waiting is signaled
  with its own result, every command whose caller has given up is freed, and no other object is
  touched.
\<close>

theorem drainCommands_in_order:
  assumes "fifo_queue cq items depth" "ss_commandQueue s = Some q" "distinct (addresses (items q))"
    and "map m (addresses (items q)) = map Some cs"
    and "execute_all date (map co_command cs) (ss_core s) k = (rs, core', k')"
  shows "\<exists>q' m'. drainCommands cq date k m s = Some (s\<lparr>ss_commandQueue := Some q', ss_core := core'\<rparr>, k', m') \<and>
    items q' = [] \<and> map m' (addresses (items q)) = map2 answered rs cs \<and>
    (\<forall>a. a \<notin> set (addresses (items q)) \<longrightarrow> m' a = m a)"
proof -
  obtain q' where "command_loop cq date q (ss_core s, k, m) =
      Some (q', fold (process_command date) (addresses (items q)) (ss_core s, k, m))" "items q' = []"
    using command_loop_fold [OF assms(1)] by blast
  then show ?thesis
    using process_commands [OF assms(3-5)] assms(2) by (auto simp: drainCommands_def)
qed


section \<open>A round of the service\<close>

text \<open>Ids are handed out by \<^verbatim>\<open>addJob\<close> only, one per call.\<close>

lemma core_nextId_retireJob [simp]: "core_nextId (retireJob s c) = core_nextId c"
  by (simp add: retireJob_def Let_def split: prod.splits)

lemma core_nextId_clearScheduling [simp]: "core_nextId (clearScheduling s c) = core_nextId c"
  by (simp add: clearScheduling_def)

lemma core_nextId_queueScheduling [simp]: "core_nextId (snd (queueScheduling s t c)) = core_nextId c"
  by (simp add: queueScheduling_def Let_def split: prod.splits)

lemma core_nextId_cancel_slot [simp]: "core_nextId (cancel_slot s c) = core_nextId c"
  by (simp add: cancel_slot_def finalizeCanceledIfIdle_def Let_def)

lemma core_nextId_cancel_loop [simp]: "core_nextId (cancel_loop i n c) = core_nextId c"
  by (induction i n c rule: cancel_loop.induct) (simp_all add: Let_def)

lemma core_nextId_refresh_loop [simp]: "core_nextId (refresh_loop date t i n c) = core_nextId c"
  by (induction date t i n c rule: refresh_loop.induct) (simp_all add: refresh_slot_def Let_def)

lemma core_nextId_ops [simp]:
  "core_nextId (snd (cancelJob k c)) = core_nextId c" "core_nextId (snd (pauseJob k c)) = core_nextId c"
  "core_nextId (snd (resumeJob k t c)) = core_nextId c" "core_nextId (snd (cancelAll c)) = core_nextId c"
  "core_nextId (snd (refreshAllSchedules date t c)) = core_nextId c"
  "core_nextId (setMinValidUnixSeconds m c) = core_nextId c"
  by (simp_all add: cancelJob_def pauseJob_def resumeJob_def cancelAll_def refreshAllSchedules_def
      setMinValidUnixSeconds_def Let_def case_prod_unfold split: sum.splits)

lemma core_nextId_install_job [simp]: "core_nextId (snd (install_job prime t r c)) = core_nextId c"
  by (auto simp: install_job_def place_job_def register_job_def unplace_job_def schedule_new_def Let_def
      case_prod_unfold split: option.splits)

lemma core_nextId_addJob:
  "core_nextId (snd (addJob date spec opts cb t c)) = core_nextId c \<or>
   core_nextId (snd (addJob date spec opts cb t c)) = core_nextId c + 1"
  by (simp add: addJob_def Let_def case_prod_unfold)

lemma unat_next_id: "unat (n :: u32) + 1 < 2 ^ 32 \<Longrightarrow> unat (n + 1) = unat n + 1"
  by (simp add: unat_word_ariths)

text \<open>\<open>room n c\<close>: at least \<open>n\<close> more ids can be handed out.\<close>

definition room :: "nat \<Rightarrow> SchedulerCore \<Rightarrow> bool" where
  "room n c \<longleftrightarrow> unat (core_nextId c) + n < 2 ^ 32"

lemma room_not_last: "room (Suc n) c \<Longrightarrow> core_nextId c \<noteq> - 1"
  by (auto simp: room_def unsigned_minus_1_eq_mask mask_eq_exp_minus_1)

text \<open>
  A core in order that is used while the clock reads instants between \<open>lo\<close> and \<open>hi\<close>, with its recurring jobs
  planned from \<open>lo\<close> on.
\<close>

definition well_timed :: "int \<Rightarrow> int \<Rightarrow> SchedulerCore \<Rightarrow> clock \<Rightarrow> bool" where
  "well_timed lo hi c k \<longleftrightarrow> core_inv c \<and> planned_from lo c \<and> (\<forall>n. lo \<le> epochSeconds (k n) \<and> epochSeconds (k n) \<le> hi)"

text \<open>
  A new job may take a slot that a canceled job has left in the list of pending requests, and is then planned from
  the epoch. So either \<open>lo\<close> is not after the epoch, or no command in the store adds a job.
\<close>

fun adds_job :: "SchedulerServiceCommand \<Rightarrow> bool" where
  "adds_job (AddJobCommand schedule options callback) = True"
| "adds_job _ = False"

definition addable :: "int \<Rightarrow> store \<Rightarrow> bool" where
  "addable lo m \<longleftrightarrow> lo \<le> 0 \<or> (\<forall>a c. m a = Some c \<longrightarrow> \<not> adds_job (co_command c))"

lemma well_timed_now:
  "well_timed lo hi c k \<Longrightarrow> lo \<le> epochSeconds (fst (date_now k)) \<and> epochSeconds (fst (date_now k)) \<le> hi"
  "well_timed lo hi c k \<Longrightarrow> core_inv c' \<Longrightarrow> planned_from lo c' \<Longrightarrow> well_timed lo hi c' (snd (date_now k))"
  "well_timed lo hi c k \<Longrightarrow> core_inv c' \<Longrightarrow> planned_from lo c' \<Longrightarrow> well_timed lo hi c' k"
  "well_timed lo hi c k \<Longrightarrow> core_inv c" "well_timed lo hi c k \<Longrightarrow> planned_from lo c"
  by (auto simp: well_timed_def date_now_def)

lemma execute_inv:
  assumes "steady_period date lo hi" "lo \<le> 0 \<or> \<not> adds_job cmd" "well_timed lo hi c k" "room (Suc n) c"
    and "execute date cmd k c = (r, c', k')"
  shows "well_timed lo hi c' k' \<and> room n c'"
proof -
  note now = well_timed_now [OF assms(3)]
  have inv: "core_inv c'"
    using assms(5) now(4) room_not_last [OF assms(4)] inv_intros
    by (cases cmd) (auto simp: case_prod_unfold Let_def split: if_splits)
  have plan: "planned_from lo c'"
    using assms(5) now(1,5) assms(1,2) planned_addJob [OF assms(1) now(5)] planned_ops
    by (cases cmd) (auto simp: case_prod_unfold Let_def split: if_splits)
  have "well_timed lo hi c' k'"
    using assms(5) now(2,3) [OF inv plan] by (cases cmd) (auto simp: case_prod_unfold Let_def split: if_splits)
  moreover have "core_nextId c' = core_nextId c \<or> core_nextId c' = core_nextId c + 1"
  proof (cases cmd)
    case (AddJobCommand spec opts cb)
    then show ?thesis
      using assms(5) core_nextId_addJob [of date spec opts cb "fst (date_now k)" c]
      by (auto simp: case_prod_unfold Let_def)
  qed (use assms(5) in \<open>auto simp: case_prod_unfold Let_def split: if_splits\<close>)
  then have "room n c'" using assms(4) unat_next_id [of "core_nextId c"] by (auto simp: room_def)
  ultimately show ?thesis by simp
qed

definition timed :: "int \<Rightarrow> int \<Rightarrow> SchedulerCore \<times> clock \<times> store \<Rightarrow> bool" where
  "timed lo hi ckm \<longleftrightarrow> well_timed lo hi (fst ckm) (fst (snd ckm)) \<and> addable lo (snd (snd ckm))"

lemma process_command_inv:
  assumes "steady_period date lo hi" "timed lo hi ckm" "room (Suc n) (fst ckm)"
  shows "timed lo hi (process_command date a ckm) \<and> room n (fst (process_command date a ckm))"
proof -
  obtain c k m where ckm: "ckm = (c, k, m)" by (metis prod_cases3)
  show ?thesis
  proof (cases "m a")
    case None
    then show ?thesis using assms(2,3) by (simp add: ckm process_command_def room_def timed_def)
  next
    case (Some obj)
    obtain r c' k' where x: "execute date (co_command obj) k c = (r, c', k')" by (metis prod_cases3)
    have "addable lo (snd (snd (process_command date a ckm)))" "lo \<le> 0 \<or> \<not> adds_job (co_command obj)"
      using Some x assms(2) by (auto simp: ckm process_command_def co_signal_def timed_def addable_def Let_def)
    moreover have "fst (process_command date a ckm) = c'" "fst (snd (process_command date a ckm)) = k'"
      using Some x by (simp_all add: ckm process_command_def Let_def)
    ultimately show ?thesis using execute_inv [OF assms(1) _ _ _ x] assms(2,3) by (simp add: ckm timed_def)
  qed
qed

lemma process_commands_inv:
  "steady_period date lo hi \<Longrightarrow> timed lo hi ckm \<Longrightarrow> room (length as + n) (fst ckm) \<Longrightarrow>
   timed lo hi (fold (process_command date) as ckm) \<and> room n (fst (fold (process_command date) as ckm))"
proof (induction as arbitrary: ckm)
  case (Cons a as)
  then show ?case using process_command_inv [of date lo hi ckm "length as + n" a] by simp
qed simp

text \<open>The commands that are waiting.\<close>

definition queued :: "('c \<Rightarrow> nat option list) \<Rightarrow> ('c, 'q, 'o) SchedulerService \<Rightarrow> nat option list" where
  "queued items s = (case ss_commandQueue s of None \<Rightarrow> [] | Some q \<Rightarrow> items q)"

lemma drainCommands_total:
  assumes "fifo_queue cq items depth" "steady_period date lo hi" "well_timed lo hi (ss_core s) k"
    and "room (length (queued items s) + n) (ss_core s)" "addable lo m"
  shows "\<exists>s' k' m'. drainCommands cq date k m s = Some (s', k', m') \<and> well_timed lo hi (ss_core s') k' \<and> addable lo m' \<and>
    room n (ss_core s') \<and> queued items s' = []"
proof (cases "ss_commandQueue s")
  case None
  then show ?thesis using assms(3-5) by (simp add: drainCommands_def queued_def)
next
  case (Some q)
  have "length (addresses (items q)) \<le> length (items q)"
    by (simp add: addresses_def map_filter_def length_filter_le)
  then have "room (length (addresses (items q)) + n) (ss_core s)"
    using assms(4) Some by (simp add: room_def queued_def)
  then have i: "timed lo hi (fold (process_command date) (addresses (items q)) (ss_core s, k, m))"
    "room n (fst (fold (process_command date) (addresses (items q)) (ss_core s, k, m)))"
    using process_commands_inv [OF assms(2), of "(ss_core s, k, m)" "addresses (items q)" n] assms(3,5)
    by (simp_all add: timed_def)
  obtain q' where l: "command_loop cq date q (ss_core s, k, m) =
      Some (q', fold (process_command date) (addresses (items q)) (ss_core s, k, m))" "items q' = []"
    using command_loop_fold [OF assms(1)] by blast
  obtain c1 k1 m1 where f: "fold (process_command date) (addresses (items q)) (ss_core s, k, m) = (c1, k1, m1)"
    by (metis prod_cases3)
  show ?thesis using i l f Some by (simp add: drainCommands_def queued_def timed_def)
qed

text \<open>Everything else a round does leaves the counter of ids alone.\<close>

lemma core_nextId_planning [simp]:
  "core_nextId (drain_loop date c) = core_nextId c" "core_nextId (drainPendingSchedules date t c) = core_nextId c"
  "core_nextId (pruneInvalidDueEntries c) = core_nextId c" "core_nextId (snd (nextDueEpoch c)) = core_nextId c"
proof -
  show d: "core_nextId (drain_loop date c) = core_nextId c" for c
    by (induction date c rule: drain_loop.induct) (subst drain_loop.simps, simp add: Let_def)
  show p: "core_nextId (pruneInvalidDueEntries c) = core_nextId c" for c
    by (induction c rule: pruneInvalidDueEntries.induct) (subst pruneInvalidDueEntries.simps, simp)
  show "core_nextId (drainPendingSchedules date t c) = core_nextId c" by (simp add: drainPendingSchedules_def d)
  show "core_nextId (snd (nextDueEpoch c)) = core_nextId c" by (simp add: nextDueEpoch_def Let_def p)
qed

lemma core_nextId_started [simp]:
  "core_nextId (retry_later date now s c) = core_nextId c" "core_nextId (inline_start date s c) = core_nextId c"
  "core_nextId (stop_running s c) = core_nextId c" "core_nextId (async_started date d s c) = core_nextId c"
  "core_nextId (complete_idle now s c) = core_nextId c" "core_nextId (finalizeCanceledIfIdle s c) = core_nextId c"
  by (simp_all add: retry_later_def inline_start_def stop_running_def async_started_def complete_idle_def
      schedule_following_def finalizeCanceledIfIdle_def Let_def)

lemma core_nextId_dispatching [simp]:
  "core_nextId (fst (dispatchOne date ex now s deferred c e)) = core_nextId c"
  "core_nextId (fst (handleCompletion date ex now s c e)) = core_nextId c"
  "core_nextId (fst (dispatchDeferredIfNeeded date ex now s c e)) = core_nextId c"
proof (induction date ex now s deferred c e and date ex now s c e and date ex now s c e
    rule: dispatchOne_handleCompletion_dispatchDeferredIfNeeded.induct)
  case (1 date ex now s deferred c e)
  show ?case
  proof (cases "inlineExecutor ex")
    case (Some submit)
    obtain ok e' where "submit (invocation_of s (job_at c s)) e = (ok, e')" by fastforce
    then show ?thesis
      using 1 Some by (subst dispatchOne.simps) (auto simp: Let_def case_prod_unfold split: option.split)
  qed (subst dispatchOne.simps, simp add: Let_def case_prod_unfold split: option.split)
next
  case (2 date ex now s c e)
  then show ?case by (subst handleCompletion.simps) (auto simp: Let_def)
next
  case (3 date ex now s c e)
  then show ?case by (subst dispatchDeferredIfNeeded.simps) (auto simp: Let_def)
qed

lemma core_nextId_turn [simp]: "core_nextId (fst (turn date ex now c e)) = core_nextId c"
  by (simp add: turn_def Let_def)

lemma core_nextId_handleEvent [simp]: "core_nextId (fst (handleEvent date ex ev now c e)) = core_nextId c"
  by (simp add: handleEvent_def Let_def)

lemma core_nextId_dispatchDue:
  assumes "dispatchDue date ex now c e = Some (c', e')"
  shows "core_nextId c' = core_nextId c"
proof -
  have "core_nextId (fst res) = core_nextId c" if "dispatch_loop date ex now c e = Some res" for c res
    using that by (induction rule: dispatch_loop_induct) simp_all
  from this [of _ "(c', e')"] show ?thesis using assms by (auto simp: dispatchDue_def split: if_splits)
qed

lemma event_loop_total:
  assumes "fifo_queue eq items depth" "steady_period date lo hi" "well_timed lo hi (fst cek) (snd (snd cek))"
  shows "\<exists>q' cek'. event_loop eq date ex q cek = Some (q', cek') \<and> well_timed lo hi (fst cek') (snd (snd cek')) \<and>
    core_nextId (fst cek') = core_nextId (fst cek) \<and> items q' = []"
  using assms(3)
proof (induction "length (items q)" arbitrary: q cek rule: less_induct)
  case less
  show ?case
    using assms(1)
  proof (cases rule: receive_split [where q = q])
    case (none q')
    then show ?thesis using less.prems by (subst event_loop.simps) simp
  next
    case (item x xs q1)
    obtain c e k where cek: "cek = (c, e, k)" by (metis prod_cases3)
    let ?c = "handleEvent date ex x (fst (date_now k)) c e"
    have "event_loop eq date ex q cek = event_loop eq date ex q1 (fst ?c, snd ?c, snd (date_now k))"
      using item(2) by (subst event_loop.simps) (simp add: cek Let_def case_prod_unfold)
    moreover have wt: "well_timed lo hi c k" using less.prems by (simp add: cek)
    have "well_timed lo hi (fst ?c) (snd (date_now k))"
      using well_timed_now [OF wt] assms(2) by (intro well_timed_now(2) [OF wt]) (auto intro: inv_intros planned_handleEvent)
    ultimately show ?thesis
      using less.hyps [of q1 "(fst ?c, snd ?c, snd (date_now k))"] item by (auto simp: cek)
  qed
qed

lemma drainEvents_total:
  assumes "fifo_queue eq items depth" "steady_period date lo hi" "well_timed lo hi (ss_core s) k"
  shows "\<exists>s' e' k'. drainEvents eq date ex e k s = Some (s', e', k') \<and> well_timed lo hi (ss_core s') k' \<and>
    core_nextId (ss_core s') = core_nextId (ss_core s) \<and> ss_commandQueue s' = ss_commandQueue s"
proof (cases "ss_eventQueue s")
  case None
  then show ?thesis using assms(3) by (simp add: drainEvents_def)
next
  case (Some q)
  from event_loop_total [OF assms(1,2), of "(ss_core s, e, k)" ex q] assms(3)
  obtain q' c' e' k' where "event_loop eq date ex q (ss_core s, e, k) = Some (q', c', e', k')" "well_timed lo hi c' k'"
    "core_nextId c' = core_nextId (ss_core s)" by auto
  then show ?thesis using Some by (simp add: drainEvents_def)
qed

lemma refreshTimeContext_inv:
  "core_inv (ss_core s) \<Longrightarrow> core_inv (ss_core (refreshTimeContextIfNeeded date now s))"
  "steady_period date lo hi \<Longrightarrow> lo \<le> epochSeconds now \<Longrightarrow> planned_from lo (ss_core s) \<Longrightarrow>
   planned_from lo (ss_core (refreshTimeContextIfNeeded date now s))"
  by (simp_all add: refreshTimeContextIfNeeded_def Let_def case_prod_unfold refreshAllSchedules_inv planned_ops)

lemma refreshTimeContext_frame [simp]:
  "core_nextId (ss_core (refreshTimeContextIfNeeded date now s)) = core_nextId (ss_core s)"
  "ss_commandQueue (refreshTimeContextIfNeeded date now s) = ss_commandQueue s"
  by (simp_all add: refreshTimeContextIfNeeded_def Let_def case_prod_unfold)

text \<open>
  A round of the service ends, whatever commands and events are waiting and whatever the executors
  answer, while the local clock is steady. It keeps the invariant of the core, empties the command queue and
  takes at most one id per command.
\<close>

lemma service_round_total:
  assumes "fifo_queue cq items depth" "fifo_queue eq events edepth"
    and "steady_period date lo hi" "well_timed lo hi (ss_core s) k"
    and "room (length (queued items s) + n) (ss_core s)" "addable lo m"
  shows "\<exists>s' e' k' m' wait. service_round cq eq date pdMS_TO_TICKS ex e k m s = Some (s', e', k', m', wait) \<and>
    well_timed lo hi (ss_core s') k' \<and> addable lo m' \<and> room n (ss_core s') \<and> queued items s' = []"
proof -
  note st = assms(3)
  obtain s1 k1 m1 where 1: "drainCommands cq date k m s = Some (s1, k1, m1)" "well_timed lo hi (ss_core s1) k1"
      "room n (ss_core s1)" "queued items s1 = []" "addable lo m1"
    using drainCommands_total [OF assms(1,3,4,5,6)] by blast
  obtain s2 e2 k2 where 2: "drainEvents eq date ex e k1 s1 = Some (s2, e2, k2)" "well_timed lo hi (ss_core s2) k2"
      "core_nextId (ss_core s2) = core_nextId (ss_core s1)" "ss_commandQueue s2 = ss_commandQueue s1"
    using drainEvents_total [OF assms(2) st 1(2), of ex e] by blast
  let ?now = "fst (date_now k2)"
  let ?s3 = "refreshTimeContextIfNeeded date ?now s2"
  note now = well_timed_now [OF 2(2)]
  have i3: "core_inv (ss_core ?s3)" "planned_from lo (ss_core ?s3)"
    using refreshTimeContext_inv now(1,4,5) st by blast+
  obtain c4 e4 where 4: "dispatchDue date ex ?now (ss_core ?s3) e2 = Some (c4, e4)" "planned_from lo c4"
    using dispatchDue_total [OF steady_period_until [OF st] i3, of ?now ex e2] now(1) by blast
  have i4: "core_inv c4" using dispatchDue_partial(1) [OF 4(1) i3(1)] .
  have w4: "well_timed lo hi c4 (snd (date_now k2))" "well_timed lo hi (snd (nextDueEpoch c4)) (snd (date_now k2))"
    using now(2) i4 4(2) nextDueEpoch_inv [OF i4] planned_ops(7) by blast+
  have r4: "room n c4" using core_nextId_dispatchDue [OF 4(1)] 1(3) 2(3) by (simp add: room_def)
  then have "room n (snd (nextDueEpoch c4))" by (simp add: room_def)
  then show ?thesis
    using 1(1,4,5) 2(1,4) 4(1) w4 r4
    by (cases "clockValid c4 ?now") (simp_all add: service_round_def Let_def case_prod_unfold queued_def)
qed

section \<open>Sleeping\<close>

text \<open>The start of a local day is not after the instant and less than two days before it.\<close>

definition day_starts :: "ESPDate \<Rightarrow> bool" where
  "day_starts date \<longleftrightarrow> (\<forall>d. epochSeconds (addDays date d 1) = epochSeconds d + 86400) \<and>
     (\<forall>d. epochSeconds (startOfDayLocal date d) \<le> epochSeconds d \<and>
          epochSeconds d < epochSeconds (startOfDayLocal date d) + 2 * 86400)"

text \<open>
  C31: the service never sleeps past the next due run, nor past a day. The number of milliseconds it
  asks for is exact: it fits the 32 bits it is cast to. Where a run is due already it does not
  sleep.
\<close>

theorem nextWakeTicks_bounded:
  assumes "day_starts date"
  shows "\<exists>ms. 0 \<le> ms \<and> ms \<le> 86400 * 1000 \<and> (hasNextDue \<longrightarrow> ms \<le> max 0 ((nextDue - epochSeconds now) * 1000)) \<and>
    nextWakeTicks date pdMS now hasNextDue nextDue idle = (if ms = 0 then 0 else pdMS (word_of_int ms)) \<and>
    uint (word_of_int ms :: u32) = ms"
proof -
  define midnight where "midnight = epochSeconds (startOfDayLocal date (addDays date now 1))"
  have mid: "midnight \<le> epochSeconds now + 86400"
    using assms unfolding day_starts_def midnight_def by metis
  define wake where "wake = (if hasNextDue then min nextDue midnight else midnight)"
  define ms where "ms = max 0 ((wake - epochSeconds now) * 1000)"
  have le: "wake \<le> epochSeconds now + 86400" "hasNextDue \<Longrightarrow> wake \<le> nextDue" using mid by (auto simp: wake_def)
  have b: "0 \<le> ms" "ms \<le> 86400 * 1000" using le(1) by (auto simp: ms_def)
  have "nextWakeTicks date pdMS now hasNextDue nextDue idle =
      (if wake \<le> epochSeconds now then 0 else pdMS (word_of_int ((wake - epochSeconds now) * 1000)))"
    by (simp add: nextWakeTicks_def Let_def midnight_def [symmetric] wake_def min_def)
  then have "nextWakeTicks date pdMS now hasNextDue nextDue idle = (if ms = 0 then 0 else pdMS (word_of_int ms))"
    by (auto simp: ms_def max_def)
  moreover have "uint (word_of_int ms :: u32) = ms"
    using b by (simp add: uint_word_of_int_eq take_bit_int_eq_self)
  moreover have "hasNextDue \<longrightarrow> ms \<le> max 0 ((nextDue - epochSeconds now) * 1000)" using le(2) by (auto simp: ms_def)
  ultimately show ?thesis using b by blast
qed


section \<open>Witnesses\<close>

definition sample_service :: "(nat \<times> nat option list, nat \<times> SchedulerEvent list, nat) SchedulerService" where
  "sample_service = (newService \<lparr>svc_commandQueueDepth = 4, svc_eventQueueDepth = 4, svc_taskStackSize = 4096,
     svc_taskPriority = 1, svc_coreId = 0, svc_usePsramStack = False, svc_controlTimeoutMs = 2000\<rparr>
     sample_core False plenty 0)\<lparr>ss_commandQueue := Some (4, [Some 7, None]), ss_eventQueue := Some (4, [])\<rparr>"

lemma sample_service_simps [simp]:
  "ss_commandQueue sample_service = Some (4, [Some 7, None])" "ss_eventQueue sample_service = Some (4, [])"
  "ss_core sample_service = sample_core"
  by (simp_all add: sample_service_def newService_def)

theorem drainCommands_in_order_witness:
  "\<exists>q' m'. drainCommands list_queue utc_date (\<lambda>n. epochDate) [7 \<mapsto> newCommand (CancelJobCommand 1)] sample_service =
     Some (sample_service\<lparr>ss_commandQueue := Some q', ss_core := snd (cancelJob 1 sample_core)\<rparr>, (\<lambda>n. epochDate), m') \<and>
     snd q' = [] \<and> map_option co_signaled (m' 7) = Some True"
proof -
  let ?c = "newCommand (CancelJobCommand 1)"
  have x: "execute_all utc_date (map co_command [?c]) (ss_core sample_service) (\<lambda>n. epochDate) =
      ([VoidResult (fst (cancelJob 1 sample_core))], snd (cancelJob 1 sample_core), (\<lambda>n. epochDate))"
    by (simp add: newCommand_def Let_def case_prod_unfold)
  obtain q' m' where d: "drainCommands list_queue utc_date (\<lambda>n. epochDate) [7 \<mapsto> ?c] sample_service =
      Some (sample_service\<lparr>ss_commandQueue := Some q', ss_core := snd (cancelJob 1 sample_core)\<rparr>, (\<lambda>n. epochDate), m')"
    "snd q' = []" "map m' (addresses (snd (4, [Some 7, None]))) =
       map2 answered [VoidResult (fst (cancelJob 1 sample_core))] [?c]"
    using drainCommands_in_order [OF list_queue_fifo, where s = sample_service and q = "(4, [Some 7, None])"
        and m = "[7 \<mapsto> ?c]" and cs = "[?c]", OF _ _ _ x] by auto
  have "map_option co_signaled (m' 7) = Some True" using d(3) by (simp add: answered_def newCommand_def)
  with d(1,2) show ?thesis by blast
qed

theorem nextWakeTicks_bounded_witness:
  "\<exists>ms. ms \<le> 86400 * 1000 \<and> nextWakeTicks utc_date (\<lambda>ms. ms) \<lparr>epochSeconds = 5\<rparr> True 65 1000 =
     (if ms = 0 then 0 else word_of_int ms)"
proof -
  have m: "e mod 86400 < 172800" for e :: int by (rule less_trans [OF pos_mod_bound]) simp_all
  have "day_starts utc_date"
    using m by (simp add: day_starts_def utc_date_def fixed_offset_date_def local_time_def local_days_def
        minus_mod_eq_div_mult [symmetric] less_add_iff1)
  from nextWakeTicks_bounded [OF this, where pdMS = "\<lambda>ms. ms" and now = "\<lparr>epochSeconds = 5\<rparr>" and hasNextDue = True
      and nextDue = 65 and idle = 1000] show ?thesis by blast
qed

end
