(* ===== verification/Facade_Spec.thy ===== *)
theory Facade_Spec
  imports Facade_Jobs Service_Spec
begin

text \<open>
  The public scheduler against its specification: in both modes an operation has the effect and the
  result of the core's operation, refusals change nothing, commands are not leaked, \<^verbatim>\<open>begin\<close> either
  starts everything or nothing and \<^verbatim>\<open>end\<close> stops everything.
\<close>

section \<open>Background commands\<close>

lemma send_room:
  assumes "fifo_queue cq items depth" "ss_commandQueue s = Some q" "length (items q) < depth q"
  obtains q1 where "send cq a s = (True, s\<lparr>ss_commandQueue := Some q1\<rparr>)" "items q1 = items q @ [a]" "depth q1 = depth q"
  using fifo_send [OF assms(1), of a q] assms(2,3) that
  by (cases "xQueueSend cq a q") (auto simp: send_def)

text \<open>\<^verbatim>\<open>drainCommands\<close> on a queue whose last command is \<open>a\<close>.\<close>

lemma drain_last:
  assumes "fifo_queue cq items depth" "ss_commandQueue s = Some q" "addresses (items q) = as @ [a]"
    and "distinct (as @ [a])" "map m as = map Some cs" "m a = Some c"
    and "execute_all date (map co_command (cs @ [c])) (ss_core s) k = (rs @ [r], core', k')"
  shows "\<exists>q' m'. drainCommands cq date k m s = Some (s\<lparr>ss_commandQueue := Some q', ss_core := core'\<rparr>, k', m') \<and>
    items q' = [] \<and> depth q' = depth q \<and> map m' as = map2 answered rs cs \<and> m' a = answered r c \<and>
    (\<forall>b. b \<notin> set as \<and> b \<noteq> a \<longrightarrow> m' b = m b)"
proof -
  have "map m (as @ [a]) = map Some (cs @ [c])" using assms(5,6) by simp
  from process_commands [OF assms(4) this assms(7)] obtain m' where
    m': "fold (process_command date) (as @ [a]) (ss_core s, k, m) = (core', k', m')"
      "map m' (as @ [a]) = map2 answered (rs @ [r]) (cs @ [c])" "\<forall>b. b \<notin> set (as @ [a]) \<longrightarrow> m' b = m b" by blast
  have "length rs = length cs" using execute_all_length [OF assms(7)] by simp
  then have a: "map m' as = map2 answered rs cs" "m' a = answered r c" using m'(2) by simp_all
  obtain q' where q': "command_loop cq date q (ss_core s, k, m) =
      Some (q', fold (process_command date) (as @ [a]) (ss_core s, k, m))" "items q' = []" "depth q' = depth q"
    using command_loop_fold [OF assms(1), of date q "(ss_core s, k, m)"] assms(3) by auto
  have "drainCommands cq date k m s = Some (s\<lparr>ss_commandQueue := Some q', ss_core := core'\<rparr>, k', m')"
    using q'(1) m'(1) assms(2) by (simp add: drainCommands_def)
  then show ?thesis using q'(2,3) a m'(3) by (intro exI [of _ q'] exI [of _ m']) simp
qed

lemma background_answers:
  assumes "fifo_queue cq items depth" "ss_commandQueue s = Some q" "length (items q) < depth q" "h 0"
    and "distinct (addresses (items q))" "map m (addresses (items q)) = map Some cs" "m a = None"
    and "execute_all date (map co_command cs @ [cmd]) (ss_core s) k = (rs @ [r], core', k')"
  shows "\<exists>q' m'. executeBackgroundCommand cq date cmd a True s k m h =
      Some (Inr r, s\<lparr>ss_commandQueue := Some q', ss_core := core'\<rparr>, k', m'(a := None), \<lambda>n. h (Suc n)) \<and>
    items q' = [] \<and> depth q' = depth q \<and> a \<notin> set (addresses (items q)) \<and> map m' (addresses (items q)) = map2 answered rs cs \<and>
    (\<forall>b. b \<notin> set (addresses (items q)) \<and> b \<noteq> a \<longrightarrow> m' b = m b)"
proof -
  let ?as = "addresses (items q)" and ?m = "m(a \<mapsto> newCommand cmd)"
  have fresh: "a \<notin> set ?as" using assms(6,7) by (metis image_eqI list.set_map option.distinct(1) imageE)
  obtain q1 where q1: "send cq (Some a) s = (True, s\<lparr>ss_commandQueue := Some q1\<rparr>)" "items q1 = items q @ [Some a]"
    "depth q1 = depth q"
    using send_room [OF assms(1-3)] by blast
  obtain q' m' where d: "drainCommands cq date k ?m (s\<lparr>ss_commandQueue := Some q1\<rparr>) =
      Some (s\<lparr>ss_commandQueue := Some q', ss_core := core'\<rparr>, k', m')" "items q' = [] \<and> depth q' = depth q"
      "map m' ?as = map2 answered rs cs" "m' a = answered r (newCommand cmd)"
      "\<forall>b. b \<notin> set ?as \<and> b \<noteq> a \<longrightarrow> m' b = ?m b"
    using drain_last [OF assms(1), where s = "s\<lparr>ss_commandQueue := Some q1\<rparr>" and q = q1 and as = ?as and a = a
        and m = ?m and cs = cs and c = "newCommand cmd" and rs = rs and r = r and date = date and k = k
        and core' = core' and k' = k'] q1(2,3) fresh assms(5,6,8)
    by (auto simp: newCommand_def)
  have "executeBackgroundCommand cq date cmd a True s k m h =
      Some (Inr r, s\<lparr>ss_commandQueue := Some q', ss_core := core'\<rparr>, k', m'(a := None), \<lambda>n. h (Suc n))"
    using d(1,4) q1(1) assms(4)
    by (simp add: executeBackgroundCommand_def new_object_def answered_def newCommand_def)
  with d(2,3,5) fresh show ?thesis by auto
qed

text \<open>
  C15: a call in background mode that the service answers in time returns the result of its own command,
  executed on the service's core after the commands that were already queued. Its command object
  is freed again, the waiting callers get their answers, and no other object is touched.
\<close>

theorem executeBackgroundCommand_answers:
  assumes "fifo_queue cq items depth" "ss_commandQueue s = Some q" "length (items q) < depth q" "h 0"
    and "distinct (addresses (items q))" "map m (addresses (items q)) = map Some cs" "m a = None"
    and "execute_all date (map co_command cs @ [cmd]) (ss_core s) k = (rs @ [r], core', k')"
  shows "\<exists>q' m' h'. executeBackgroundCommand cq date cmd a True s k m h =
      Some (Inr r, s\<lparr>ss_commandQueue := Some q', ss_core := core'\<rparr>, k', m', h') \<and>
    items q' = [] \<and> m' a = None \<and> map m' (addresses (items q)) = map2 answered rs cs \<and>
    (\<forall>b. b \<notin> set (addresses (items q)) \<longrightarrow> m' b = m b)"
proof -
  obtain q' m' where x: "executeBackgroundCommand cq date cmd a True s k m h =
      Some (Inr r, s\<lparr>ss_commandQueue := Some q', ss_core := core'\<rparr>, k', m'(a := None), \<lambda>n. h (Suc n))"
    "items q' = []" "a \<notin> set (addresses (items q))" "map m' (addresses (items q)) = map2 answered rs cs"
    "\<forall>b. b \<notin> set (addresses (items q)) \<and> b \<noteq> a \<longrightarrow> m' b = m b"
    using background_answers [where h = h and m = m and a = a, OF assms] by blast
  have "map (m'(a := None)) (addresses (items q)) = map2 answered rs cs" using x(3,4) by auto
  with x show ?thesis using assms(7) by (intro exI [of _ q'] exI [of _ "m'(a := None)"]) auto
qed

text \<open>
  C16: a call in background mode whose wait times out while its command is still in the queue reports \<open>Timeout\<close>
  and leaves an abandoned command behind, without touching the jobs or another command. The next
  time the service serves its queue the command is executed nonetheless, after those before it, and its object
  is freed; the callers that still wait get their answers. (A time out after the service has taken the command is the
  subject of \<open>Command_Ownership\<close>, where one such moment leaks the object.)
\<close>

theorem timed_out_command_reclaimed:
  assumes "fifo_queue cq items depth" "ss_commandQueue s = Some q" "length (items q) < depth q" "h 0"
    and "distinct (addresses (items q))" "map m (addresses (items q)) = map Some cs" "m a = None"
    and "execute_all date (map co_command cs @ [cmd]) (ss_core s) k = (rs @ [r], core', k')"
  shows "\<exists>s1 m1 h1. executeBackgroundCommand cq date cmd a False s k m h = Some (Inl Timeout, s1, k, m1, h1) \<and>
    ss_core s1 = ss_core s \<and> (\<forall>b. b \<noteq> a \<longrightarrow> m1 b = m b) \<and>
    (\<exists>s2 m2. drainCommands cq date k m1 s1 = Some (s2, k', m2) \<and> ss_core s2 = core' \<and> m2 a = None \<and>
      map m2 (addresses (items q)) = map2 answered rs cs \<and> (\<forall>b. b \<notin> set (addresses (items q)) \<longrightarrow> m2 b = m b))"
proof -
  let ?as = "addresses (items q)" and ?c = "co_abandon (newCommand cmd)"
  let ?m = "m(a \<mapsto> co_abandon (newCommand cmd))"
  have fresh: "a \<notin> set ?as" using assms(6,7) by (metis image_eqI list.set_map option.distinct(1) imageE)
  obtain q1 where q1: "send cq (Some a) s = (True, s\<lparr>ss_commandQueue := Some q1\<rparr>)" "items q1 = items q @ [Some a]"
    using send_room [OF assms(1-3)] by blast
  have x: "executeBackgroundCommand cq date cmd a False s k m h =
      Some (Inl Timeout, s\<lparr>ss_commandQueue := Some q1\<rparr>, k, ?m, \<lambda>n. h (Suc n))"
    using q1(1) assms(4) by (simp add: executeBackgroundCommand_def new_object_def newCommand_def)
  obtain q2 m2 where "drainCommands cq date k ?m (s\<lparr>ss_commandQueue := Some q1\<rparr>) =
      Some (s\<lparr>ss_commandQueue := Some q2, ss_core := core'\<rparr>, k', m2)" "m2 a = answered r ?c"
      "map m2 ?as = map2 answered rs cs" "\<forall>b. b \<notin> set ?as \<and> b \<noteq> a \<longrightarrow> m2 b = ?m b"
    using drain_last [OF assms(1), where s = "s\<lparr>ss_commandQueue := Some q1\<rparr>" and q = q1 and as = ?as and a = a
        and m = ?m and cs = cs and c = ?c and date = date and k = k and r = r and rs = rs and core' = core' and k' = k']
      q1(2) fresh assms(5,6,8) by (auto simp: newCommand_def co_abandon_def)
  moreover from this(2) have "m2 a = None" by (simp add: answered_def co_abandon_def)
  ultimately show ?thesis using x assms(7) by auto
qed

section \<open>Both modes do what the core does\<close>

text \<open>The core that holds the jobs.\<close>

definition core_of :: "('c, 'q, 'x, 'o) Impl \<Rightarrow> SchedulerCore" where
  "core_of i = (case background i of Some s \<Rightarrow> ss_core s | None \<Rightarrow> im_manualCore i)"

text \<open>
  In manual mode an operation can always be carried out; in background mode when the command can be
  allocated, nothing else waits in the queue and the service answers.
\<close>

definition responsive ::
  "('c \<Rightarrow> nat option list) \<Rightarrow> ('c \<Rightarrow> nat) \<Rightarrow> ('c, 'q, 'o) Surroundings \<Rightarrow> store \<Rightarrow> ('c, 'q, 'x, 'o) Impl \<Rightarrow> bool" where
  "responsive items depth su m i \<longleftrightarrow>
     (case background i of
        None \<Rightarrow> True
      | Some s \<Rightarrow> im_heap i 0 \<and> su_responds su \<and> m (su_address su) = None \<and>
          (case ss_commandQueue s of None \<Rightarrow> False | Some q \<Rightarrow> items q = [] \<and> 0 < depth q))"

text \<open>What a caller sees of an operation: the result, the jobs and the clock.\<close>

definition view :: "('r, 'c, 'q, 'x, 'o) outcome \<Rightarrow> ('r SchedulerResult \<times> SchedulerCore \<times> clock) option" where
  "view = map_option (\<lambda>(r, i, k, m). (r, core_of i, k))"

lemma background_update [simp]:
  "background i = Some s \<Longrightarrow> background (i\<lparr>im_service := Some s', im_heap := h\<rparr>) = Some s'"
  "background (i\<lparr>im_manualCore := c\<rparr>) = background i"
  by (auto simp: background_def split: if_splits)

lemma core_of_manual: "background i = None \<Longrightarrow> core_of i = im_manualCore i \<and> core_of (i\<lparr>im_manualCore := c\<rparr>) = c"
  by (simp add: core_of_def)

lemma command_executes:
  assumes "fifo_queue cq items depth" "background i = Some s" "responsive items depth su m i"
    and "execute date cmd k (core_of i) = (r, core', k')"
  shows "\<exists>s' m' h'. executeBackgroundCommand cq date cmd (su_address su) (su_responds su) s k m (im_heap i) =
      Some (Inr r, s', k', m', h') \<and> ss_core s' = core'"
proof -
  obtain q where q: "im_heap i 0" "su_responds su" "m (su_address su) = None" "ss_commandQueue s = Some q"
    "items q = []" "0 < depth q"
    using assms(2,3) by (auto simp: responsive_def split: option.splits)
  have x: "execute_all date (map co_command [] @ [cmd]) (ss_core s) k = ([] @ [r], core', k')"
    using assms(2,4) by (simp add: core_of_def)
  show ?thesis
    using background_answers [where h = "im_heap i" and m = m and a = "su_address su", OF assms(1) q(4) _ q(1) _ _ q(3) x]
      q(2,5,6) by auto
qed

lemma run_command_view:
  assumes "fifo_queue cq items depth" "background i = Some s" "responsive items depth su m i"
    and "execute date cmd k (core_of i) = (r, core', k')"
  shows "view (run_command cq date su cmd get s k m i) = Some (get (Inr r), core', k')"
  using command_executes [OF assms] assms(2) by (auto simp: run_command_def view_def core_of_def)

lemma addJobImpl_view:
  assumes "fifo_queue cq items depth" "running i" "responsive items depth su m i"
  shows "view (addJobImpl cq date su schedule options callback k m i) =
      Some (if opt_dispatch options = Async \<and> impl_executorFor i (opt_executorId options) = None
            then (Inl ExecutorUnavailable, core_of i, k)
            else case addJob date schedule options callback (fst (date_now k)) (core_of i) of
                   (r, c) \<Rightarrow> (r, c, snd (date_now k)))"
proof (cases "background i")
  case None
  then show ?thesis
    using assms(2) by (simp add: addJobImpl_def running_def view_def core_of_def Let_def case_prod_unfold)
next
  case (Some s)
  show ?thesis
    using assms(2) Some
    by (simp add: addJobImpl_def running_def run_command_view [OF assms(1) Some assms(3)] Let_def case_prod_unfold)
      (simp add: view_def)
qed

text \<open>
  The general case: commands of other callers may wait in the queue, and the service executes them first. The
  core an operation meets is the one they leave, and so is the clock.
\<close>

definition answers ::
  "('c \<Rightarrow> nat option list) \<Rightarrow> ('c \<Rightarrow> nat) \<Rightarrow> ('c, 'q, 'o) Surroundings \<Rightarrow> store \<Rightarrow> ('c, 'q, 'x, 'o) Impl \<Rightarrow> bool" where
  "answers items depth su m i \<longleftrightarrow>
     (case background i of
        None \<Rightarrow> True
      | Some s \<Rightarrow> im_heap i 0 \<and> su_responds su \<and> m (su_address su) = None \<and>
          (case ss_commandQueue s of
             None \<Rightarrow> False
           | Some q \<Rightarrow> length (items q) < depth q \<and> distinct (addresses (items q)) \<and>
               (\<forall>a \<in> set (addresses (items q)). m a \<noteq> None)))"

definition waiting_commands ::
  "('c \<Rightarrow> nat option list) \<Rightarrow> store \<Rightarrow> ('c, 'q, 'x, 'o) Impl \<Rightarrow> SchedulerServiceCommand list" where
  "waiting_commands items m i =
     (case background i of
        None \<Rightarrow> []
      | Some s \<Rightarrow> map (\<lambda>a. co_command (the (m a))) (addresses (queued items s)))"

definition core_met ::
  "('c \<Rightarrow> nat option list) \<Rightarrow> ESPDate \<Rightarrow> clock \<Rightarrow> store \<Rightarrow> ('c, 'q, 'x, 'o) Impl \<Rightarrow> SchedulerCore \<times> clock" where
  "core_met items date k m i = snd (execute_all date (waiting_commands items m i) (core_of i) k)"

lemma core_met_manual [simp]: "background i = None \<Longrightarrow> core_met items date k m i = (im_manualCore i, k)"
  by (simp add: core_met_def waiting_commands_def core_of_def)

lemma execute_all_snoc:
  "execute_all date (cs @ [cmd]) core k = (case execute_all date cs core k of (rs, core1, k1) \<Rightarrow>
     case execute date cmd k1 core1 of (r, core2, k2) \<Rightarrow> (rs @ [r], core2, k2))"
  by (induction cs arbitrary: core k) (auto split: prod.splits)

lemma command_answered:
  assumes "fifo_queue cq items depth" "background i = Some s" "answers items depth su m i"
    and "core_met items date k m i = (core, k1)" "execute date cmd k1 core = (r, core', k')"
  shows "\<exists>s' m' h'. executeBackgroundCommand cq date cmd (su_address su) (su_responds su) s k m (im_heap i) =
      Some (Inr r, s', k', m', h') \<and> ss_core s' = core'"
proof -
  obtain q where q: "im_heap i 0" "su_responds su" "m (su_address su) = None" "ss_commandQueue s = Some q"
    "length (items q) < depth q" "distinct (addresses (items q))" "\<forall>a \<in> set (addresses (items q)). m a \<noteq> None"
    using assms(2,3) by (auto simp: answers_def split: option.splits)
  let ?cs = "map (\<lambda>a. the (m a)) (addresses (items q))"
  have cs: "map m (addresses (items q)) = map Some ?cs" using q(7) by auto
  obtain rs where "execute_all date (map co_command ?cs) (ss_core s) k = (rs, core, k1)"
    using assms(2,4) q(4)
    by (cases "execute_all date (map co_command ?cs) (ss_core s) k")
      (auto simp: core_met_def waiting_commands_def core_of_def queued_def o_def)
  then have x: "execute_all date (map co_command ?cs @ [cmd]) (ss_core s) k = (rs @ [r], core', k')"
    using assms(5) by (simp add: execute_all_snoc)
  show ?thesis
    using background_answers [where h = "im_heap i" and m = m and a = "su_address su", OF assms(1) q(4,5,1,6) cs q(3) x]
      q(2) by auto
qed

lemma run_command_answered:
  assumes "fifo_queue cq items depth" "background i = Some s" "answers items depth su m i"
    and "core_met items date k m i = (core, k1)" "execute date cmd k1 core = (r, core', k')"
  shows "view (run_command cq date su cmd get s k m i) = Some (get (Inr r), core', k')"
  using command_answered [OF assms] assms(2) by (auto simp: run_command_def view_def core_of_def)

text \<open>
  C8: the eight operations on jobs of a running scheduler have, in both modes, exactly the result of the
  core's operation and leave the jobs as that operation leaves them: adding (to an executor that exists),
  canceling, pausing, resuming and canceling all, counting and describing jobs, and refreshing the
  schedules. The core is the scheduler's own in manual mode; refreshing handles the completions that have arrived
  first. In background mode it is the service's core after the commands that wait in the queue already, provided
  memory and the queue have room for one command more and the service gets to it in time.
\<close>

theorem facade_refines_core:
  assumes "fifo_queue cq items depth" "running i" "answers items depth su m i"
    and "core_met items date k m i = (core, k1)"
  shows "view (fac_cancelJob cq date su jobId k m i) = Some (case cancelJob jobId core of (r, c) \<Rightarrow> (r, c, k1)) \<and>
    view (fac_pauseJob cq date su jobId k m i) = Some (case pauseJob jobId core of (r, c) \<Rightarrow> (r, c, k1)) \<and>
    view (fac_resumeJob cq date su jobId k m i) =
      Some (case resumeJob jobId (fst (date_now k1)) core of (r, c) \<Rightarrow> (r, c, snd (date_now k1))) \<and>
    view (fac_cancelAll cq date su k m i) = Some (case cancelAll core of (r, c) \<Rightarrow> (r, c, k1)) \<and>
    view (fac_jobCount cq date su k m i) = Some (jobCount core, core, k1) \<and>
    map_option (\<lambda>(info, r, i, k, m). (info, r, core_of i, k)) (fac_getJobInfo cq date su jobId k m i) =
      Some (case getJobInfo core jobId of (r, info) \<Rightarrow> (Some info, r, core, k1)) \<and>
    view (fac_refreshAllSchedules cq eq date ops su k m i) =
      (if background i = None
       then map_option (\<lambda>j. case refreshAllSchedules date (fst (date_now k)) (im_manualCore j) of
              (r, c) \<Rightarrow> (r, c, snd (date_now k))) (drainManualEvents eq date ops (fst (date_now k)) i)
       else Some (case refreshAllSchedules date (fst (date_now k1)) core of (r, c) \<Rightarrow> (r, c, snd (date_now k1)))) \<and>
    view (addJobImpl cq date su schedule options callback k m i) =
      Some (if opt_dispatch options = Async \<and> impl_executorFor i (opt_executorId options) = None
            then (Inl ExecutorUnavailable, core_of i, k)
            else case addJob date schedule options callback (fst (date_now k1)) core of
                   (r, c) \<Rightarrow> (r, c, snd (date_now k1)))"
proof -
  have r: "im_started i" "\<not> im_draining i" using assms(2) by (simp_all add: running_def)
  note facade = fac_cancelJob_def fac_pauseJob_def fac_resumeJob_def fac_cancelAll_def fac_jobCount_def
    fac_getJobInfo_def fac_refreshAllSchedules_def addJobImpl_def
  show ?thesis
  proof (cases "background i")
    case None
    have "core = im_manualCore i" "k1 = k" using assms(4) None by simp_all
    moreover have "background j = None" if "drainManualEvents eq date ops now i = Some j" for now j
      using that None by (auto simp: drainManualEvents_def background_def split: option.splits if_splits)
    ultimately show ?thesis
      using None r
      by (cases "drainManualEvents eq date ops (fst (date_now k)) i")
        (simp_all add: facade view_def core_of_def Let_def case_prod_unfold)
  next
    case (Some s)
    note run = run_command_answered [OF assms(1) Some assms(3,4)]
    obtain s' m' h' where g: "executeBackgroundCommand cq date (GetJobInfoCommand jobId True) (su_address su)
        (su_responds su) s k m (im_heap i) =
          Some (Inr (InfoResult (fst (getJobInfo core jobId)) (Some (snd (getJobInfo core jobId)))), s', k1, m', h')"
      "ss_core s' = core"
      using command_answered [OF assms(1) Some assms(3,4), of "GetJobInfoCommand jobId True"]
      by (auto simp: Let_def case_prod_unfold)
    have "view (Some (e, i, k, m)) = Some (e, core_of i, k)" for e :: "u32 SchedulerResult" by (simp add: view_def)
    then show ?thesis
      using r Some g by (simp add: facade run Let_def case_prod_unfold core_of_def [of "i\<lparr>im_service := _, im_heap := _\<rparr>"])
  qed
qed

section \<open>Witnesses\<close>

definition sample_config :: "SchedulerMode \<Rightarrow> SchedulerConfig" where
  "sample_config mode = \<lparr>cfg_mode = mode, cfg_minValidEpochSeconds = 0, cfg_usePSRAMMetadata = False,
     cfg_service = ss_config sample_service, cfg_defaultAsyncBackend = WorkerPool,
     cfg_defaultWorkerPool = \<lparr>wp_workerCount = 1, wp_queueDepth = 8, wp_stackSize = 6144, wp_priority = 1,
       wp_coreId = 0, wp_usePsramStack = False\<rparr>,
     cfg_defaultDedicatedTask = defaultDedicatedTask, cfg_espWorker = False\<rparr>"

text \<open>Executors that accept everything and do nothing.\<close>

definition sample_ops :: "unit ExecutorOps" where
  "sample_ops = \<lparr>ex_begin = (\<lambda>r x. (True, x)), ex_end = (\<lambda>r b x. x), ex_submit = (\<lambda>r i x. (True, x))\<rparr>"

definition sample_surroundings ::
  "(nat \<times> nat option list, nat \<times> SchedulerEvent list, nat) Surroundings" where
  "sample_surroundings = \<lparr>su_address = 9, su_responds = True, su_exited = True, su_rounds = 3, su_env = (\<lambda>s. s), su_listener = 5\<rparr>"

definition sample_rest ::
  "SchedulerMode \<Rightarrow> (nat \<times> nat option list, nat \<times> SchedulerEvent list, unit, nat) Impl" where
  "sample_rest mode = newScheduler 200 (sample_config mode) plenty ()"

text \<open>Running schedulers with one job, in each mode.\<close>

definition sample_manual :: "(nat \<times> nat option list, nat \<times> SchedulerEvent list, unit, nat) Impl" where
  "sample_manual = (sample_rest Manual)\<lparr>im_manualCore := sample_core, im_started := True, im_eventQueue := Some (4, [])\<rparr>"

definition idle_service :: "(nat \<times> nat option list, nat \<times> SchedulerEvent list, nat) SchedulerService" where
  "idle_service = sample_service\<lparr>ss_commandQueue := Some (4, [])\<rparr>"

definition sample_background :: "(nat \<times> nat option list, nat \<times> SchedulerEvent list, unit, nat) Impl" where
  "sample_background = (sample_rest Background)\<lparr>im_service := Some idle_service, im_started := True\<rparr>"

lemmas sample_defs = sample_config_def sample_ops_def sample_surroundings_def sample_rest_def sample_manual_def
  idle_service_def sample_background_def newScheduler_def

theorem executeBackgroundCommand_answers_witness:
  "\<exists>q' m' h'. executeBackgroundCommand list_queue utc_date JobCountCommand 9 True sample_service (\<lambda>n. epochDate)
     [7 \<mapsto> newCommand (CancelJobCommand 1)] plenty =
       Some (Inr (SizeResult (jobCount (snd (cancelJob 1 sample_core)))),
         sample_service\<lparr>ss_commandQueue := Some q', ss_core := snd (cancelJob 1 sample_core)\<rparr>, (\<lambda>n. epochDate), m', h') \<and>
     snd q' = [] \<and> m' 9 = None"
proof -
  let ?c = "newCommand (CancelJobCommand 1)"
  have x: "execute_all utc_date (map co_command [?c] @ [JobCountCommand]) (ss_core sample_service) (\<lambda>n. epochDate) =
      ([VoidResult (fst (cancelJob 1 sample_core))] @ [SizeResult (jobCount (snd (cancelJob 1 sample_core)))],
       snd (cancelJob 1 sample_core), (\<lambda>n. epochDate))"
    by (simp add: newCommand_def Let_def case_prod_unfold)
  show ?thesis
    using executeBackgroundCommand_answers [OF list_queue_fifo, where s = sample_service and q = "(4, [Some 7, None])"
        and m = "[7 \<mapsto> ?c]" and cs = "[?c]" and a = 9 and h = plenty, OF _ _ _ _ _ _ x] by auto
qed

theorem timed_out_command_reclaimed_witness:
  "\<exists>s1 m1 h1 s2 m2. executeBackgroundCommand list_queue utc_date (CancelJobCommand 1) 9 False sample_service (\<lambda>n. epochDate)
       [7 \<mapsto> newCommand JobCountCommand] plenty = Some (Inl Timeout, s1, (\<lambda>n. epochDate), m1, h1) \<and>
     drainCommands list_queue utc_date (\<lambda>n. epochDate) m1 s1 = Some (s2, (\<lambda>n. epochDate), m2) \<and>
     ss_core s2 = snd (cancelJob 1 sample_core) \<and> m2 9 = None"
proof -
  let ?c = "newCommand JobCountCommand"
  have x: "execute_all utc_date (map co_command [?c] @ [CancelJobCommand 1]) (ss_core sample_service) (\<lambda>n. epochDate) =
      ([SizeResult (jobCount sample_core)] @ [VoidResult (fst (cancelJob 1 sample_core))],
       snd (cancelJob 1 sample_core), (\<lambda>n. epochDate))"
    by (simp add: newCommand_def Let_def case_prod_unfold)
  show ?thesis
    using timed_out_command_reclaimed [OF list_queue_fifo, where s = sample_service and q = "(4, [Some 7, None])"
        and m = "[7 \<mapsto> ?c]" and cs = "[?c]" and a = 9 and h = plenty, OF _ _ _ _ _ _ x] by auto
qed

theorem facade_refines_core_witness:
  "view (fac_jobCount list_queue utc_date sample_surroundings (\<lambda>n. epochDate) [7 \<mapsto> newCommand (CancelJobCommand 1)]
       (sample_background\<lparr>im_service := Some sample_service\<rparr>)) =
     Some (jobCount (snd (cancelJob 1 sample_core)), snd (cancelJob 1 sample_core), (\<lambda>n. epochDate))"
proof -
  let ?i = "sample_background\<lparr>im_service := Some sample_service\<rparr>" and ?m = "[7 \<mapsto> newCommand (CancelJobCommand 1)]"
  have b: "background ?i = Some sample_service" by (simp add: background_def sample_defs)
  have r: "running ?i" "answers snd fst sample_surroundings ?m ?i"
    by (simp_all add: running_def answers_def b) (simp_all add: sample_defs)
  have c: "core_met snd utc_date (\<lambda>n. epochDate) ?m ?i = (snd (cancelJob 1 sample_core), (\<lambda>n. epochDate))"
    by (simp add: core_met_def waiting_commands_def b core_of_def queued_def newCommand_def Let_def case_prod_unfold)
  show ?thesis using facade_refines_core [OF list_queue_fifo r c] by blast
qed

end
