(* ===== verification/Scheduler_System.thy ===== *)
theory Scheduler_System
  imports Invocation_Flow Executor_Contract Facade_Spec
begin

text \<open>
  The core, the executors of the repository and the event queue as one system. Commands, dispatching,
  the tasks of the executors and the handling of completions take steps in any order; the invocations the
  core counts as running are at all times exactly those that are queued, running or waiting to be reported.
\<close>

section \<open>All executors together\<close>

text \<open>
  The executors a scheduler starts with, and what their tasks act on. \<open>sx_lost\<close> is not part of the
  program: it keeps the completions that could not be posted.
\<close>

record ('t, 'q, 'o, 'w) StandardExecutors =
  sx_pool :: "('t, 'o) WorkerPoolExecutor"
  sx_dedicated :: "'o DedicatedTaskExecutor"
  sx_espworker :: "'w ESPWorkerExecutorAdapter"
  sx_completions :: "'q Completions"
  sx_lost :: "flight_key multiset"

text \<open>The system around the scheduler: the queues, the tasks, ESPWorker, the calendar and the configured backend.\<close>

record ('t, 'q, 'o, 'w) Platform =
  pf_date :: ESPDate
  pf_taskQueue :: "(JobInvocation option, 't) QueueApi"
  pf_eventQueue :: "(SchedulerEvent, 'q) QueueApi"
  pf_os :: "'o TaskApi"
  pf_spawn :: "string option \<Rightarrow> 'w \<Rightarrow> bool \<times> 'w"
  pf_backend :: AsyncExecutorBackend

definition standard_submit ::
  "('t, 'q, 'o, 'w) Platform \<Rightarrow> ExecutorRef \<Rightarrow> JobInvocation \<Rightarrow> ('t, 'q, 'o, 'w) StandardExecutors
     \<Rightarrow> bool \<times> ('t, 'q, 'o, 'w) StandardExecutors" where
  "standard_submit P r i x =
     (case r of
        InlineRef \<Rightarrow> let (ok, cp) = inline_submit i (sx_completions x) in (ok, x\<lparr>sx_completions := cp\<rparr>)
      | WorkerPoolRef \<Rightarrow> let (ok, p) = wp_submit (pf_taskQueue P) i (sx_pool x) in (ok, x\<lparr>sx_pool := p\<rparr>)
      | ESPWorkerRef \<Rightarrow> let (ok, a) = ew_submit (pf_spawn P) i (sx_espworker x) in (ok, x\<lparr>sx_espworker := a\<rparr>)
      | DedicatedRef \<Rightarrow> let (ok, d) = de_submit (pf_os P) i (sx_dedicated x) in (ok, x\<lparr>sx_dedicated := d\<rparr>)
      | ExternalRef n \<Rightarrow> (False, x))"

text \<open>What \<^verbatim>\<open>inlineExecutor()\<close> and \<^verbatim>\<open>executorFor(id)\<close> of \<^verbatim>\<open>Impl\<close> return when no executors were registered.\<close>

definition standard_resolver :: "('t, 'q, 'o, 'w) Platform \<Rightarrow> ('t, 'q, 'o, 'w) StandardExecutors IExecutorResolver" where
  "standard_resolver P =
     \<lparr>inlineExecutor = Some (standard_submit P InlineRef),
      executorFor = (\<lambda>k.
        if k = 0 then Some (standard_submit P (if pf_backend P = ESPWorker then ESPWorkerRef else WorkerPoolRef))
        else if k = 1 then Some (standard_submit P DedicatedRef) else None)\<rparr>"

lemma pushed_data: "pushBack v a h = (True, a', h') \<Longrightarrow> arr_data a' = arr_data a @ [v]"
  by (auto elim: pushBack_cases)

text \<open>It is the resolver that \<^verbatim>\<open>startExecutors\<close> sets up.\<close>

lemma started_resolver:
  assumes "startExecutors ops i = (True, i')" "arr_data (im_externalExecutors i) = []"
    and "ex_submit ops = standard_submit P" "cfg_defaultAsyncBackend (im_config i) = pf_backend P"
  shows "resolver ops i' = standard_resolver P"
proof -
  have ex: "arr_data (im_executors i') = [async_ref (im_config i), DedicatedRef]" "im_inlineDispatch i'"
    using assms(1,2)
    by (auto simp: startExecutors_def Let_def new_object_def arr_clear_def split: if_splits prod.splits
        dest!: pushed_data)
  have "impl_executorFor i' k = (if k = 0 then Some (async_ref (im_config i)) else if k = 1 then Some DedicatedRef else None)" for k
  proof -
    have k: "k = 0 \<longleftrightarrow> unat k = 0" "k = 1 \<longleftrightarrow> unat k = 1" by (simp_all add: word_unat_eq_iff)
    consider "unat k = 0" | "unat k = 1" | "unat k \<ge> 2" by linarith
    then show ?thesis unfolding k using ex(1) by cases (auto simp: impl_executorFor_def arr_defs)
  qed
  then show ?thesis
    using ex(2) assms(3,4) by (auto simp: resolver_def standard_resolver_def async_ref_def fun_eq_iff)
qed

section \<open>Unfinished invocations\<close>

text \<open>
  Those in the pool's queue, in tasks of their own and with ESPWorker, the completions in the event queue,
  and the completions that were lost. \<open>titems\<close> and \<open>eitems\<close> read the two queues.
\<close>

definition held ::
  "('t \<Rightarrow> JobInvocation option list) \<Rightarrow> ('q \<Rightarrow> SchedulerEvent list) \<Rightarrow> ('t, 'q, 'o, 'w) StandardExecutors
     \<Rightarrow> flight_key multiset" where
  "held titems eitems x =
     image_mset invocation_key (mset (invocations (pool_items titems (sx_pool x)))) +
     image_mset invocation_key (mset (map tc_invocation (de_tasks (sx_dedicated x)))) +
     image_mset invocation_key (mset (map fst (ew_jobs (sx_espworker x)))) +
     image_mset event_key (mset (eitems (cp_events (sx_completions x))))"

definition unfinished ::
  "('t \<Rightarrow> JobInvocation option list) \<Rightarrow> ('q \<Rightarrow> SchedulerEvent list) \<Rightarrow> ('t, 'q, 'o, 'w) StandardExecutors
     \<Rightarrow> flight_key multiset" where
  "unfinished titems eitems x = held titems eitems x + sx_lost x"

text \<open>After a step from \<open>x\<close> to \<open>y\<close>, what is held no longer has been lost.\<close>

definition note_lost ::
  "('t \<Rightarrow> JobInvocation option list) \<Rightarrow> ('q \<Rightarrow> SchedulerEvent list) \<Rightarrow> ('t, 'q, 'o, 'w) StandardExecutors
     \<Rightarrow> ('t, 'q, 'o, 'w) StandardExecutors \<Rightarrow> ('t, 'q, 'o, 'w) StandardExecutors" where
  "note_lost titems eitems x y = y\<lparr>sx_lost := sx_lost x + (held titems eitems x - held titems eitems y)\<rparr>"

text \<open>A turn of one of the executors' tasks.\<close>

inductive executor_step ::
  "('t, 'q, 'o, 'w) Platform \<Rightarrow> ('t \<Rightarrow> JobInvocation option list) \<Rightarrow> ('q \<Rightarrow> SchedulerEvent list)
     \<Rightarrow> ('t, 'q, 'o, 'w) StandardExecutors \<Rightarrow> ('t, 'q, 'o, 'w) StandardExecutors \<Rightarrow> bool" for P titems eitems where
  worker: "worker_turn (pf_taskQueue P) (pf_eventQueue P) (sx_pool x, sx_completions x) = (p, cp) \<Longrightarrow>
    executor_step P titems eitems x (note_lost titems eitems x (x\<lparr>sx_pool := p, sx_completions := cp\<rparr>))"
| dedicated: "dedicated_task (pf_eventQueue P) n (sx_dedicated x, sx_completions x) = (d, cp) \<Longrightarrow>
    executor_step P titems eitems x (note_lost titems eitems x (x\<lparr>sx_dedicated := d, sx_completions := cp\<rparr>))"
| espworker: "ew_task (pf_eventQueue P) n (sx_espworker x, sx_completions x) = (a, cp) \<Longrightarrow>
    executor_step P titems eitems x (note_lost titems eitems x (x\<lparr>sx_espworker := a, sx_completions := cp\<rparr>))"

section \<open>The system\<close>

text \<open>
  The steps: a command of a caller, for which an id must be left; a pass of \<^verbatim>\<open>dispatchDue\<close>; a turn of a
  task; taking an event from the queue and handling it.
\<close>

type_synonym ('t, 'q, 'o, 'w) system = "SchedulerCore \<times> ('t, 'q, 'o, 'w) StandardExecutors"

inductive system_step ::
  "('t, 'q, 'o, 'w) Platform \<Rightarrow> ('t \<Rightarrow> JobInvocation option list) \<Rightarrow> ('q \<Rightarrow> SchedulerEvent list)
     \<Rightarrow> ('t, 'q, 'o, 'w) system \<Rightarrow> ('t, 'q, 'o, 'w) system \<Rightarrow> bool" for P titems eitems where
  command: "core_nextId c \<noteq> - 1 \<Longrightarrow> execute (pf_date P) cmd k c = (r, c', k') \<Longrightarrow>
    system_step P titems eitems (c, x) (c', x)"
| dispatch: "dispatchDue (pf_date P) (standard_resolver P) now c x = Some (c', x') \<Longrightarrow>
    system_step P titems eitems (c, x) (c', x')"
| work: "executor_step P titems eitems x x' \<Longrightarrow> system_step P titems eitems (c, x) (c, x')"
| event: "xQueueReceive (pf_eventQueue P) (cp_events (sx_completions x)) = (Some ev, q) \<Longrightarrow>
    y = x\<lparr>sx_completions := (sx_completions x)\<lparr>cp_events := q\<rparr>\<rparr> \<Longrightarrow>
    handleEvent (pf_date P) (standard_resolver P) ev now c y = (c', x') \<Longrightarrow>
    system_step P titems eitems (c, x) (c', x')"

text \<open>
  The states reached from a new core and idle executors. \<^verbatim>\<open>runningCount\<close> has 16 bits: the runs
  considered never have more than 65535 invocations unfinished at a time.
\<close>

inductive system_reachable ::
  "('t, 'q, 'o, 'w) Platform \<Rightarrow> ('t \<Rightarrow> JobInvocation option list) \<Rightarrow> ('q \<Rightarrow> SchedulerEvent list)
     \<Rightarrow> ('t, 'q, 'o, 'w) system \<Rightarrow> bool" for P titems eitems where
  start: "unfinished titems eitems x = {#} \<Longrightarrow> system_reachable P titems eitems (newCore recordSize minValid psram h, x)"
| step: "system_reachable P titems eitems w \<Longrightarrow> system_step P titems eitems w w' \<Longrightarrow>
    size (unfinished titems eitems (snd w')) < 2 ^ 16 \<Longrightarrow> system_reachable P titems eitems w'"

section \<open>The executors keep the account\<close>

lemma run_and_post_events:
  assumes "fifo_queue eq eitems edepth"
  shows "eitems (cp_events (run_and_post eq rt i cp)) = eitems (cp_events cp) \<or>
    eitems (cp_events (run_and_post eq rt i cp)) =
      eitems (cp_events cp) @ [finished_event (inv_jobId i) (inv_generation i) (inv_slotIndex i)]"
  using fifo_send [OF assms, of "finished_event (inv_jobId i) (inv_generation i) (inv_slotIndex i)" "cp_events cp"]
  by (auto simp: run_and_post_def postCompletion_def Let_def split: prod.splits)

lemma finished_event_key [simp]: "event_key (finished_event (inv_jobId i) (inv_generation i) (inv_slotIndex i)) = invocation_key i"
  by (simp add: event_key_def invocation_key_def finished_event_def)

lemma held_lost [simp]: "held titems eitems (x\<lparr>sx_lost := l\<rparr>) = held titems eitems x"
  by (simp add: held_def)

lemma note_lost_unfinished:
  "held titems eitems y \<subseteq># held titems eitems x \<Longrightarrow> unfinished titems eitems (note_lost titems eitems x y) = unfinished titems eitems x"
  by (auto simp: unfinished_def note_lost_def subset_mset.le_iff_add ac_simps)

text \<open>Running an invocation that was held turns it into a completion or loses it.\<close>

lemma run_and_post_held:
  assumes "fifo_queue eq eitems edepth"
  shows "image_mset event_key (mset (eitems (cp_events (run_and_post eq rt i cp)))) \<subseteq>#
    add_mset (invocation_key i) (image_mset event_key (mset (eitems (cp_events cp))))"
  using run_and_post_events [OF assms, of rt i cp] by auto

lemma worker_turn_held:
  assumes "fifo_queue tq titems tdepth" "fifo_queue eq eitems edepth" "worker_turn tq eq (p, cp) = (p', cp')"
  shows "image_mset invocation_key (mset (invocations (pool_items titems p'))) + image_mset event_key (mset (eitems (cp_events cp')))
    \<subseteq># image_mset invocation_key (mset (invocations (pool_items titems p))) + image_mset event_key (mset (eitems (cp_events cp)))"
proof (cases "pool_items titems p")
  case Nil
  then show ?thesis using worker_turn_cases [OF assms(1), where p = p and eq = eq and cp = cp] assms(3) by simp
next
  case (Cons v vs)
  note t = worker_turn_cases [OF assms(1), where p = p and eq = eq and cp = cp]
  show ?thesis
  proof (cases v)
    case None
    then show ?thesis using Cons t assms(3) by simp
  next
    case (Some i)
    then show ?thesis
      using Cons t assms(3) run_and_post_held [OF assms(2), of "wpe_runtime p" i cp]
      by (simp add: subset_mset.add_left_mono)
  qed
qed

lemma dedicated_task_held:
  assumes "fifo_queue eq eitems edepth" "dedicated_task eq n (d, cp) = (d', cp')"
  shows "image_mset invocation_key (mset (map tc_invocation (de_tasks d'))) + image_mset event_key (mset (eitems (cp_events cp')))
    \<subseteq># image_mset invocation_key (mset (map tc_invocation (de_tasks d))) + image_mset event_key (mset (eitems (cp_events cp)))"
proof (cases "n < length (de_tasks d)")
  case True
  let ?t = "de_tasks d ! n"
  have "de_tasks d' = take n (de_tasks d) @ drop (Suc n) (de_tasks d)" "cp' = run_and_post eq (tc_runtime ?t) (tc_invocation ?t) cp"
    using True assms(2) by (auto simp: dedicated_task_def Let_def)
  then show ?thesis
    using run_and_post_held [OF assms(1), of "tc_runtime ?t" "tc_invocation ?t" cp]
    by (simp add: image_mset_nth [OF True] multiset.map_comp comp_def subset_mset.add_left_mono)
next
  case False
  then show ?thesis using assms(2) by (simp add: dedicated_task_def)
qed

lemma ew_task_held:
  assumes "fifo_queue eq eitems edepth" "ew_task eq n (a, cp) = (a', cp')"
  shows "image_mset invocation_key (mset (map fst (ew_jobs a'))) + image_mset event_key (mset (eitems (cp_events cp')))
    \<subseteq># image_mset invocation_key (mset (map fst (ew_jobs a))) + image_mset event_key (mset (eitems (cp_events cp)))"
proof (cases "n < length (ew_jobs a)")
  case True
  let ?t = "ew_jobs a ! n"
  have "ew_jobs a' = take n (ew_jobs a) @ drop (Suc n) (ew_jobs a)" "cp' = run_and_post eq (snd ?t) (fst ?t) cp"
    using True assms(2) by (auto simp: ew_task_def Let_def)
  then show ?thesis
    using run_and_post_held [OF assms(1), of "snd ?t" "fst ?t" cp]
    by (simp add: image_mset_nth [OF True] multiset.map_comp comp_def subset_mset.add_left_mono)
next
  case False
  then show ?thesis using assms(2) by (simp add: ew_task_def)
qed

lemma executor_step_unfinished:
  assumes "executor_step P titems eitems x x'"
    and "fifo_queue (pf_taskQueue P) titems tdepth" "fifo_queue (pf_eventQueue P) eitems edepth"
  shows "unfinished titems eitems x' = unfinished titems eitems x" "sx_lost x \<subseteq># sx_lost x'"
proof -
  have "\<exists>y. x' = note_lost titems eitems x y \<and> held titems eitems y \<subseteq># held titems eitems x"
    using assms(1)
  proof (cases rule: executor_step.cases)
    case (worker p cp)
    then show ?thesis using worker_turn_held [OF assms(2,3) worker(2)]
      by (intro exI [of _ "x\<lparr>sx_pool := p, sx_completions := cp\<rparr>"]) (simp add: held_def ac_simps)
  next
    case (dedicated n d cp)
    then show ?thesis using dedicated_task_held [OF assms(3) dedicated(2)]
      by (intro exI [of _ "x\<lparr>sx_dedicated := d, sx_completions := cp\<rparr>"]) (simp add: held_def ac_simps)
  next
    case (espworker n a cp)
    then show ?thesis using ew_task_held [OF assms(3) espworker(2)]
      by (intro exI [of _ "x\<lparr>sx_espworker := a, sx_completions := cp\<rparr>"]) (simp add: held_def ac_simps)
  qed
  then obtain y where y: "x' = note_lost titems eitems x y" "held titems eitems y \<subseteq># held titems eitems x" by blast
  show "unfinished titems eitems x' = unfinished titems eitems x" unfolding y(1) by (rule note_lost_unfinished [OF y(2)])
  show "sx_lost x \<subseteq># sx_lost x'" unfolding y(1) by (simp add: note_lost_def)
qed

text \<open>The queues of the platform behave as FreeRTOS documents; then submissions are accounted for.\<close>

locale standard_system =
  fixes P :: "('t, 'q, 'o, 'w) Platform"
    and titems :: "'t \<Rightarrow> JobInvocation option list" and tdepth :: "'t \<Rightarrow> nat"
    and eitems :: "'q \<Rightarrow> SchedulerEvent list" and edepth :: "'q \<Rightarrow> nat"
  assumes tasks_fifo: "fifo_queue (pf_taskQueue P) titems tdepth"
    and events_fifo: "fifo_queue (pf_eventQueue P) eitems edepth"
begin

lemma submit_unfinished:
  "unfinished titems eitems (snd (standard_submit P InlineRef i x)) = unfinished titems eitems x"
  "r \<noteq> InlineRef \<Longrightarrow> unfinished titems eitems (snd (standard_submit P r i x)) =
    (if fst (standard_submit P r i x) then add_mset (invocation_key i) (unfinished titems eitems x)
     else unfinished titems eitems x)"
proof -
  show "unfinished titems eitems (snd (standard_submit P InlineRef i x)) = unfinished titems eitems x"
    by (simp add: standard_submit_def inline_submit_def unfinished_def held_def)
  assume "r \<noteq> InlineRef"
  then show "unfinished titems eitems (snd (standard_submit P r i x)) =
    (if fst (standard_submit P r i x) then add_mset (invocation_key i) (unfinished titems eitems x)
     else unfinished titems eitems x)"
    using wp_submit_items [OF tasks_fifo, of i "sx_pool x"] ew_submit_jobs [of "pf_spawn P" i "sx_espworker x"]
      de_submit_tasks [of "pf_os P" i "sx_dedicated x"]
    by (cases r) (simp_all add: standard_submit_def unfinished_def held_def case_prod_unfold Let_def del: mset_map)
qed

end

sublocale standard_system \<subseteq> tracked_executors "standard_resolver P" "unfinished titems eitems"
  by unfold_locales (auto simp: standard_resolver_def submit_unfinished split: if_splits)

section \<open>Consequences of the balance\<close>

lemma balanced_current:
  assumes "balanced L (flight c)" "(s, k, g) \<in># L"
  shows "s < job_count c \<and> jr_occupied (job_at c s) \<and> jr_id (job_at c s) = k \<and> jr_generation (job_at c s) = g \<and>
    0 < jr_runningCount (job_at c s)"
proof -
  have "(s, k, g) \<in># in_slot s L" using assms(2) by (simp add: in_slot_def)
  then have "(s, k, g) \<in># flight c s" using assms(1) by (simp add: balanced_def)
  then show ?thesis by (auto simp: flight_def flight_of_def word_gt_0 split: if_splits)
qed

lemma balanced_count:
  assumes "balanced L (flight c)" "s < job_count c" "jr_occupied (job_at c s)"
  shows "count L (s, jr_id (job_at c s), jr_generation (job_at c s)) = unat (jr_runningCount (job_at c s))"
proof -
  have "count L (s, k, g) = count (in_slot s L) (s, k, g)" for k g by (simp add: in_slot_def)
  then show ?thesis using assms by (simp add: balanced_def flight_def flight_of_def)
qed

lemma size_by_slots: "(\<And>k. k \<in># L \<Longrightarrow> fst k < n) \<Longrightarrow> (\<Sum>s<n. size (in_slot s L)) = size L"
proof (induction L)
  case empty
  then show ?case by (simp add: in_slot_def)
next
  case (add k L)
  have "fst k < n" using add.prems by simp
  have "(\<Sum>s<n. size (in_slot s (add_mset k L))) = (\<Sum>s<n. size (in_slot s L) + (if s = fst k then 1 else 0))"
    by (rule sum.cong) auto
  also have "\<dots> = size L + 1" using \<open>fst k < n\<close> add by (simp add: sum.distrib)
  finally show ?case by simp
qed

lemma activeInvocationCount_sum: "activeInvocationCount c = (\<Sum>s<job_count c. unat (jr_runningCount (job_at c s)))"
  by (simp add: activeInvocationCount_def fold_sum sum_list_sum_nth job_count_def job_at_def arr_defs atLeast0LessThan)

lemma balanced_active:
  assumes "core_inv c" "balanced L (flight c)"
  shows "activeInvocationCount c = size L"
proof -
  have "unat (jr_runningCount (job_at c s)) = size (in_slot s L)" if "s < job_count c" for s
    using assms(2) core_invD(4) [OF assms(1) that] that
    by (auto simp: balanced_def flight_def flight_of_def slot_flags_def)
  then have "activeInvocationCount c = (\<Sum>s<job_count c. size (in_slot s L))" by (simp add: activeInvocationCount_sum)
  also have "\<dots> = size L"
  proof (rule size_by_slots)
    show "fst k < job_count c" if "k \<in># L" for k using balanced_current [OF assms(2)] that by (cases k) auto
  qed
  finally show ?thesis .
qed

section \<open>Every step keeps the balance\<close>

lemma execute_flight:
  assumes "core_inv c" "core_nextId c \<noteq> - 1" "execute date cmd k c = (r, c', k')"
  shows "core_inv c' \<and> flight c' = flight c"
  using assms inv_intros flight_addJob [OF assms(1)]
  by (cases cmd) (auto simp: case_prod_unfold Let_def split: if_splits)

context standard_system
begin

lemma event_step:
  assumes "xQueueReceive (pf_eventQueue P) (cp_events (sx_completions x)) = (Some ev, q)"
    and "y = x\<lparr>sx_completions := (sx_completions x)\<lparr>cp_events := q\<rparr>\<rparr>"
    and "handleEvent (pf_date P) (standard_resolver P) ev now c y = (c', x')"
    and "core_inv c" "balanced (unfinished titems eitems x) (flight c)"
  shows "settled (unfinished titems eitems x') (flight c')"
proof -
  have "eitems (cp_events (sx_completions x)) = ev # eitems q"
    using fifo_receive [OF events_fifo, of "cp_events (sx_completions x)"] assms(1)
    by (auto split: list.splits)
  then have L: "unfinished titems eitems x = add_mset (event_key ev) (unfinished titems eitems y)"
    by (simp add: assms(2) unfinished_def held_def)
  let ?s = "ev_slotIndex ev"
  have cur: "?s < job_count c" "jr_occupied (job_at c ?s)" "jr_id (job_at c ?s) = ev_jobId ev"
    "jr_generation (job_at c ?s) = ev_generation ev"
    using balanced_current [OF assms(5), of ?s "ev_jobId ev" "ev_generation ev"] L by (auto simp: event_key_def)
  have kind: "ev_kind ev = JobFinished" by (cases "ev_kind ev") simp
  have "handleEvent (pf_date P) (standard_resolver P) ev now c y = handleCompletion (pf_date P) (standard_resolver P) now ?s c y"
    using cur kind by (simp add: handleEvent_def Let_def)
  moreover have "balanced (add_mset (?s, jr_id (job_at c ?s), jr_generation (job_at c ?s)) (unfinished titems eitems y)) (flight c)"
    using assms(5) L cur(3,4) by (simp add: event_key_def)
  note handleCompletion_settled [OF assms(4) cur(1,2) this, of "pf_date P" now]
  moreover have "handleCompletion (pf_date P) (standard_resolver P) now ?s c y = (c', x')" using calculation(1) assms(3) by simp
  ultimately show ?thesis by simp
qed

lemma system_step_balanced:
  assumes "system_step P titems eitems w w'" "size (unfinished titems eitems (snd w')) < 2 ^ 16"
    and "core_inv (fst w)" "balanced (unfinished titems eitems (snd w)) (flight (fst w))"
  shows "core_inv (fst w') \<and> balanced (unfinished titems eitems (snd w')) (flight (fst w'))"
  using assms(1)
proof (cases rule: system_step.cases)
  case (command c cmd k r c' k' x)
  then show ?thesis using execute_flight [OF _ command(3,4)] assms(3,4) by simp
next
  case (dispatch now c x c' x')
  have "settled (unfinished titems eitems x) (flight c)" using assms(4) dispatch by (simp add: settled_def)
  from dispatchDue_settled [OF dispatch(3) _ this] show ?thesis
    using dispatchDue_partial(1) [OF dispatch(3)] assms(2,3) dispatch by (simp add: settled_def)
next
  case (work x x' c)
  then show ?thesis
    using executor_step_unfinished(1) [OF work(3) tasks_fifo events_fifo] assms(3,4) by simp
next
  case (event x ev q y now c c' x')
  have "core_inv c'" using handleEvent_inv [of c "pf_date P" "standard_resolver P" ev now y] event assms(3) by simp
  moreover have "settled (unfinished titems eitems x') (flight c')"
    using event_step [OF event(3-5)] assms(3,4) event by simp
  ultimately show ?thesis using assms(2) event by (simp add: settled_def)
qed

lemma reachable_balanced:
  "system_reachable P titems eitems w \<Longrightarrow>
   core_inv (fst w) \<and> balanced (unfinished titems eitems (snd w)) (flight (fst w))"
proof (induction rule: system_reachable.induct)
  case (start x recordSize minValid psram h)
  have "flight (newCore recordSize minValid psram h) s = {#}" for s
    by (simp add: flight_def newCore_def job_count_def arr_defs)
  then show ?case using start by (simp add: newCore_inv balanced_def in_slot_def)
next
  case (step w w')
  then show ?case using system_step_balanced by blast
qed

end

text \<open>
  C4: in every state the system reaches, whatever the order of commands, dispatches, turns of workers
  and tasks and handled completions, the invocations the core counts as running are exactly the unfinished ones.
  A job's running count is the number of its invocations that are queued, in a task, reported in the event
  queue or whose report was lost; every such invocation belongs to the job that its slot still holds under its
  id and generation, so no completion is ever stale and no slot is reused under a running invocation; and
  the count that \<^verbatim>\<open>end\<close> waits for is the number of unfinished invocations.
\<close>

theorem invocations_conserved:
  assumes "fifo_queue (pf_taskQueue P) titems tdepth" "fifo_queue (pf_eventQueue P) eitems edepth"
    and "system_reachable P titems eitems (c, x)"
  shows "(\<forall>s < job_count c. jr_occupied (job_at c s) \<longrightarrow> unat (jr_runningCount (job_at c s)) =
        count (unfinished titems eitems x) (s, jr_id (job_at c s), jr_generation (job_at c s))) \<and>
    (\<forall>s k g. (s, k, g) \<in># unfinished titems eitems x \<longrightarrow>
        s < job_count c \<and> jr_occupied (job_at c s) \<and> jr_id (job_at c s) = k \<and> jr_generation (job_at c s) = g) \<and>
    activeInvocationCount c = size (unfinished titems eitems x)"
proof -
  have "standard_system P titems tdepth eitems edepth" using assms(1,2) by unfold_locales
  from standard_system.reachable_balanced [OF this assms(3)]
  have i: "core_inv c" and b: "balanced (unfinished titems eitems x) (flight c)" by simp_all
  show ?thesis using balanced_count [OF b] balanced_current [OF b] balanced_active [OF i b] by simp
qed

section \<open>Lost completions\<close>

text \<open>What submissions keep of the executors' state, dispatching keeps.\<close>

definition submissions_keep :: "'e IExecutorResolver \<Rightarrow> ('e \<Rightarrow> bool) \<Rightarrow> bool" where
  "submissions_keep ex Q \<longleftrightarrow> (\<forall>submit i e. (inlineExecutor ex = Some submit \<or> (\<exists>k. executorFor ex k = Some submit)) \<longrightarrow>
     Q e \<longrightarrow> Q (snd (submit i e)))"

lemma dispatching_keeps:
  "submissions_keep ex Q \<Longrightarrow> Q e \<Longrightarrow> Q (snd (dispatchOne date ex now s deferred c e))"
  "submissions_keep ex Q \<Longrightarrow> Q e \<Longrightarrow> Q (snd (handleCompletion date ex now s c e))"
  "submissions_keep ex Q \<Longrightarrow> Q e \<Longrightarrow> Q (snd (dispatchDeferredIfNeeded date ex now s c e))"
proof (induction date ex now s deferred c e and date ex now s c e and date ex now s c e
    rule: dispatchOne_handleCompletion_dispatchDeferredIfNeeded.induct)
  case (1 date ex now s deferred c e)
  let ?r = "job_at c s"
  have keep: "inlineExecutor ex = Some submit \<Longrightarrow> Q (snd (submit i e))" "executorFor ex k = Some submit \<Longrightarrow> Q (snd (submit i e))"
    for submit i k using 1(2,3) unfolding submissions_keep_def by blast+
  consider (skip) "s \<ge> job_count c \<or> \<not> jr_occupied ?r \<or> jr_canceled ?r \<or> jr_paused ?r"
    | (inline) "s < job_count c" "jr_occupied ?r" "\<not> jr_canceled ?r" "\<not> jr_paused ?r" "jr_dispatch ?r = Inline"
    | (async) "s < job_count c" "jr_occupied ?r" "\<not> jr_canceled ?r" "\<not> jr_paused ?r" "jr_dispatch ?r \<noteq> Inline"
    by (meson not_le)
  then show ?case
  proof cases
    case skip
    then show ?thesis using 1(3) by (subst dispatchOne.simps) (auto simp: Let_def)
  next
    case inline
    show ?thesis
    proof (cases "inlineExecutor ex")
      case None
      then show ?thesis using inline 1(3) by (subst dispatchOne.simps) (simp add: Let_def)
    next
      case (Some submit)
      obtain ok e1 where e1: "submit (invocation_of s ?r) e = (ok, e1)" by fastforce
      then have q: "Q e1" using keep(1) [OF Some, of "invocation_of s ?r"] by simp
      have "ok \<Longrightarrow> Q (snd (handleCompletion date ex now s (inline_start date s c) e1))"
        using 1(1) [OF _ refl _ refl inline(5) Some refl e1 [symmetric] refl] inline 1(2) q by simp
      then show ?thesis using inline Some e1 q by (subst dispatchOne.simps) (simp add: Let_def)
    qed
  next
    case async
    then show ?thesis using 1(3) keep(2)
      by (subst dispatchOne.simps) (simp add: Let_def case_prod_unfold split: option.split)
  qed
next
  case (2 date ex now s c e)
  then show ?case by (subst handleCompletion.simps) (auto simp: Let_def)
next
  case (3 date ex now s c e)
  then show ?case by (subst dispatchDeferredIfNeeded.simps) (auto simp: Let_def)
qed

lemma dispatchDue_keeps:
  assumes "dispatchDue date ex now c e = Some (c', e')" "submissions_keep ex Q" "Q e"
  shows "Q e'"
proof -
  have loop: "Q e \<longrightarrow> Q (snd res)" if "dispatch_loop date ex now c e = Some res" for c res
    using that
  proof (induction rule: dispatch_loop_induct)
    case (turn c e res)
    have "Q e \<Longrightarrow> Q (snd (turn date ex now (pruneInvalidDueEntries c) e))"
      using dispatching_keeps(1) [OF assms(2)] by (simp add: turn_def Let_def)
    then show ?case using turn(2) by blast
  qed simp
  show ?thesis using assms(1,3) loop by (auto simp: dispatchDue_def split: if_splits)
qed

lemma submit_lost [simp]: "sx_lost (snd (standard_submit P r i x)) = sx_lost x"
  by (cases r) (simp_all add: standard_submit_def case_prod_unfold Let_def)

lemma standard_submissions_keep_lost: "submissions_keep (standard_resolver P) (\<lambda>x. sx_lost x = l)"
  by (auto simp: submissions_keep_def standard_resolver_def split: if_splits)

context standard_system
begin

lemma system_step_lost:
  assumes "system_step P titems eitems w w'"
  shows "sx_lost (snd w) \<subseteq># sx_lost (snd w')"
  using assms
proof (cases rule: system_step.cases)
  case (command c cmd k r c' k' x)
  then show ?thesis by simp
next
  case (dispatch now c x c' x')
  then show ?thesis
    using dispatchDue_keeps [OF dispatch(3) standard_submissions_keep_lost [of P "sx_lost x"]] by simp
next
  case (work x x' c)
  then show ?thesis using executor_step_unfinished(2) [OF work(3) tasks_fifo events_fifo] by simp
next
  case (event x ev q y now c c' x')
  have "sx_lost y = sx_lost x" using event(4) by simp
  then have "sx_lost (snd (handleEvent (pf_date P) (standard_resolver P) ev now c y)) = sx_lost x"
    using dispatching_keeps(2) [OF standard_submissions_keep_lost [of P "sx_lost x"]] by (simp add: handleEvent_def Let_def)
  then show ?thesis using event by simp
qed

end

text \<open>Everything that happens after a state.\<close>

inductive system_runs ::
  "('t, 'q, 'o, 'w) Platform \<Rightarrow> ('t \<Rightarrow> JobInvocation option list) \<Rightarrow> ('q \<Rightarrow> SchedulerEvent list)
     \<Rightarrow> ('t, 'q, 'o, 'w) system \<Rightarrow> ('t, 'q, 'o, 'w) system \<Rightarrow> bool" for P titems eitems w where
  here: "system_runs P titems eitems w w"
| further: "system_runs P titems eitems w v \<Longrightarrow> system_step P titems eitems v v' \<Longrightarrow>
    size (unfinished titems eitems (snd v')) < 2 ^ 16 \<Longrightarrow> system_runs P titems eitems w v'"

lemma system_runs_reachable:
  "system_runs P titems eitems w v \<Longrightarrow> system_reachable P titems eitems w \<Longrightarrow> system_reachable P titems eitems v"
  by (induction rule: system_runs.induct) (auto intro: system_reachable.step)

text \<open>
  C27: \<^verbatim>\<open>postCompletion\<close> gives up when the event queue is full, and its callers ignore that. A completion that
  was lost in this way is never made up for: whatever happens later, cancellation included, the slot keeps its
  job and the job counts as running, so that unless it allows parallel runs it is never started again.
\<close>

theorem lost_completion_blocks:
  assumes "fifo_queue (pf_taskQueue P) titems tdepth" "fifo_queue (pf_eventQueue P) eitems edepth"
    and "system_reachable P titems eitems (c, x)" "(s, k, g) \<in># sx_lost x"
    and "system_runs P titems eitems (c, x) (c', x')"
  shows "s < job_count c' \<and> jr_occupied (job_at c' s) \<and> jr_id (job_at c' s) = k \<and> jr_generation (job_at c' s) = g \<and>
    0 < jr_runningCount (job_at c' s)"
proof -
  have sys: "standard_system P titems tdepth eitems edepth" using assms(1,2) by unfold_locales
  have "sx_lost x \<subseteq># sx_lost (snd v)" if "system_runs P titems eitems (c, x) v" for v
    using that
  proof (induction rule: system_runs.induct)
    case (further v v')
    then show ?case using standard_system.system_step_lost [OF sys] subset_mset.order_trans by blast
  qed simp
  from this [OF assms(5)] assms(4) have "(s, k, g) \<in># unfinished titems eitems x'"
    by (auto simp: unfinished_def dest: mset_subset_eqD)
  moreover have "balanced (unfinished titems eitems x') (flight c')"
    using standard_system.reachable_balanced [OF sys system_runs_reachable [OF assms(5,3)]] by simp
  ultimately show ?thesis by (intro balanced_current)
qed

section \<open>A run of the system\<close>

text \<open>
  A platform with the documented queues, a pool with one worker and an event queue without room: a
  job is dispatched, the worker runs it, and its completion is lost.
\<close>

definition demo_platform ::
  "(nat \<times> JobInvocation option list, nat \<times> SchedulerEvent list, nat, unit) Platform" where
  "demo_platform = \<lparr>pf_date = utc_date, pf_taskQueue = list_queue, pf_eventQueue = list_queue,
     pf_os = \<lparr>canUseExternalStacks = False, spiramTotalSize = 0, sizeofStackType = 1,
       xTaskCreatePinnedToCore = (\<lambda>r n. (True, Some n, n + 1)), xTaskCreatePinnedToCoreWithCaps = (\<lambda>r n. (False, None, n)),
       vTaskDelete = (\<lambda>t n. n), vTaskDeleteWithCaps = (\<lambda>t n. n)\<rparr>,
     pf_spawn = (\<lambda>name w. (True, w)), pf_backend = WorkerPool\<rparr>"

definition demo_executors ::
  "(nat \<times> JobInvocation option list, nat \<times> SchedulerEvent list, nat, unit) StandardExecutors" where
  "demo_executors = \<lparr>sx_pool = sample_pool, sx_dedicated = \<lparr>de_runtime = True, de_tasks = [], de_heap = plenty, de_os = 0\<rparr>,
     sx_espworker = \<lparr>ew_runtime = False, ew_jobs = [], ew_worker = ()\<rparr>,
     sx_completions = \<lparr>cp_runtime = \<lparr>rt_accepting = True, rt_eventQueue = True\<rparr>, cp_events = (0, []), cp_ran = []\<rparr>,
     sx_lost = {#}\<rparr>"

definition demo_core :: SchedulerCore where
  "demo_core = snd (addJob utc_date (onceUtc \<lparr>epochSeconds = 100\<rparr>) (defaultOptions\<lparr>opt_dispatch := Async\<rparr>) sample_callback
     \<lparr>epochSeconds = 5\<rparr> (newCore 200 0 False plenty))"

definition demo_busy ::
  "(nat \<times> JobInvocation option list, nat \<times> SchedulerEvent list, nat, unit) StandardExecutors" where
  "demo_busy = demo_executors\<lparr>sx_pool := sample_pool\<lparr>wpe_queue := Some (4, [Some (invocation_of 0 (job_at demo_core 0))])\<rparr>\<rparr>"

text \<open>The job is due; the pool accepts it.\<close>

lemma demo_dispatch:
  obtains c where "dispatchDue utc_date (standard_resolver demo_platform) \<lparr>epochSeconds = 160\<rparr> demo_core demo_executors = Some (c, demo_busy)"
    "core_nextId c = 2"
proof -
  have "\<exists>c. dispatchDue utc_date (standard_resolver demo_platform) \<lparr>epochSeconds = 160\<rparr> demo_core demo_executors =
      Some (c, demo_busy) \<and> core_nextId c = 2"
    apply (simp add: dispatchDue_def demo_core_def demo_busy_def exec pruneInvalidDueEntries.simps)
    apply (subst dispatch_loop.simps)
    apply (simp add: exec pruneInvalidDueEntries.simps)
    apply (subst (1 2) dispatchOne.simps)
    apply (simp add: exec standard_resolver_def standard_submit_def demo_platform_def demo_executors_def wp_submit_def
        sample_pool_def new_object_def list_queue_def async_started_def)
    apply (subst dispatch_loop.simps)
    apply (simp add: exec plenty_def)
    done
  then show ?thesis using that by blast
qed

lemma demo_key: "invocation_key (invocation_of 0 (job_at demo_core 0)) = (0, 1, 1)"
  by (simp add: invocation_key_def invocation_of_def demo_core_def exec)

lemma demo_unfinished: "unfinished snd snd demo_executors = {#}" "unfinished snd snd demo_busy = {#(0, 1, 1)#}"
  by (simp_all add: unfinished_def held_def demo_busy_def demo_executors_def sample_pool_def pool_items_def demo_key)

lemma demo_reachable:
  obtains c where "system_reachable demo_platform snd snd (c, demo_busy)" "core_nextId c = 2"
proof -
  let ?c0 = "newCore 200 0 False plenty"
  let ?add = "AddJobCommand (onceUtc \<lparr>epochSeconds = 100\<rparr>) (defaultOptions\<lparr>opt_dispatch := Async\<rparr>) sample_callback"
  obtain c where c: "dispatchDue utc_date (standard_resolver demo_platform) \<lparr>epochSeconds = 160\<rparr> demo_core demo_executors =
      Some (c, demo_busy)" "core_nextId c = 2" using demo_dispatch by blast
  have 0: "system_reachable demo_platform snd snd (?c0, demo_executors)"
    by (rule system_reachable.start) (rule demo_unfinished)
  obtain r where r: "execute (pf_date demo_platform) ?add (\<lambda>n. \<lparr>epochSeconds = 5\<rparr>) ?c0 =
      (r, demo_core, (\<lambda>n. \<lparr>epochSeconds = 5\<rparr>))"
    by (simp add: demo_platform_def demo_core_def date_now_def case_prod_unfold Let_def)
  have "core_nextId ?c0 \<noteq> - 1" by (simp add: newCore_def)
  from system_step.command [OF this r]
  have "system_step demo_platform snd snd (?c0, demo_executors) (demo_core, demo_executors)" .
  then have 1: "system_reachable demo_platform snd snd (demo_core, demo_executors)"
    using system_reachable.step [OF 0] by (simp add: demo_unfinished)
  have "system_step demo_platform snd snd (demo_core, demo_executors) (c, demo_busy)"
    by (rule system_step.dispatch [where now = "\<lparr>epochSeconds = 160\<rparr>"]) (use c(1) in \<open>simp add: demo_platform_def\<close>)
  then show ?thesis using that [OF system_reachable.step [OF 1]] c(2) by (simp add: demo_unfinished)
qed

text \<open>The worker's turn, with no room for the completion.\<close>

definition demo_lost ::
  "(nat \<times> JobInvocation option list, nat \<times> SchedulerEvent list, nat, unit) StandardExecutors" where
  "demo_lost = note_lost snd snd demo_busy
     (demo_busy\<lparr>sx_pool := fst (worker_turn list_queue list_queue (sx_pool demo_busy, sx_completions demo_busy)),
        sx_completions := snd (worker_turn list_queue list_queue (sx_pool demo_busy, sx_completions demo_busy))\<rparr>)"

lemma demo_lost_key: "sx_lost demo_lost = {#(0, 1, 1)#}" "unfinished snd snd demo_lost = {#(0, 1, 1)#}"
proof -
  have h: "held snd snd (demo_busy\<lparr>sx_pool := fst (worker_turn list_queue list_queue (sx_pool demo_busy, sx_completions demo_busy)),
        sx_completions := snd (worker_turn list_queue list_queue (sx_pool demo_busy, sx_completions demo_busy))\<rparr>) = {#}"
    by (simp add: held_def demo_busy_def demo_executors_def worker_turn_def run_and_post_def postCompletion_def
        list_queue_def sample_pool_def pool_items_def)
  have b: "held snd snd demo_busy = {#(0, 1, 1)#}" "sx_lost demo_busy = {#}"
    using demo_unfinished(2) by (simp_all add: unfinished_def demo_busy_def demo_executors_def)
  show "sx_lost demo_lost = {#(0, 1, 1)#}" "unfinished snd snd demo_lost = {#(0, 1, 1)#}"
    using h b by (simp_all add: unfinished_def demo_lost_def note_lost_def)
qed

lemma demo_lost_reachable:
  assumes "system_reachable demo_platform snd snd (c, demo_busy)"
  shows "system_reachable demo_platform snd snd (c, demo_lost)"
proof (rule system_reachable.step [OF assms])
  have "executor_step demo_platform snd snd demo_busy demo_lost"
    unfolding demo_lost_def by (rule executor_step.worker) (simp add: demo_platform_def)
  then show "system_step demo_platform snd snd (c, demo_busy) (c, demo_lost)" by (rule system_step.work)
qed (simp add: demo_lost_key)

lemma demo_queues: "fifo_queue (pf_taskQueue demo_platform) snd fst" "fifo_queue (pf_eventQueue demo_platform) snd fst"
  by (simp_all add: demo_platform_def list_queue_fifo)

interpretation demo_system: standard_system demo_platform snd fst snd fst
  by unfold_locales (rule demo_queues)+

theorem invocations_conserved_witness:
  "\<exists>c. system_reachable demo_platform snd snd (c, demo_busy) \<and> activeInvocationCount c = 1 \<and>
     jr_occupied (job_at c 0) \<and> jr_id (job_at c 0) = 1"
proof -
  obtain c where c: "system_reachable demo_platform snd snd (c, demo_busy)" using demo_reachable by blast
  from invocations_conserved [OF demo_queues c] show ?thesis using c by (auto simp: demo_unfinished)
qed

theorem lost_completion_blocks_witness:
  "\<exists>c. system_reachable demo_platform snd snd (c, demo_lost) \<and> sx_lost demo_lost = {#(0, 1, 1)#} \<and>
     jr_occupied (job_at (snd (cancelJob 1 c)) 0) \<and> 0 < jr_runningCount (job_at (snd (cancelJob 1 c)) 0)"
proof -
  obtain c where c: "system_reachable demo_platform snd snd (c, demo_lost)" "core_nextId c = 2"
    using demo_reachable demo_lost_reachable by blast
  have "system_step demo_platform snd snd (c, demo_lost) (snd (cancelJob 1 c), demo_lost)"
    by (rule system_step.command [where cmd = "CancelJobCommand 1" and k = "\<lambda>n. epochDate"])
      (simp_all add: c(2) case_prod_unfold Let_def)
  then have "system_runs demo_platform snd snd (c, demo_lost) (snd (cancelJob 1 c), demo_lost)"
    by (rule system_runs.further [OF system_runs.here]) (simp add: demo_lost_key)
  from lost_completion_blocks [OF demo_queues c(1) _ this, of 0 1 1] show ?thesis using c(1) by (auto simp: demo_lost_key)
qed

end
