(* ===== verification/Command_Ownership.thy ===== *)
theory Command_Ownership
  imports Service
begin

text \<open>
  Who frees a command. The caller of the facade and the service's task work on the same heap object
  at the same time; this theory follows one command through every interleaving of their accesses.
  The caller is \<^verbatim>\<open>executeBackgroundCommand\<close> of \<^verbatim>\<open>scheduler.cpp\<close>, the server is the loop body that
  \<^verbatim>\<open>drainCommands\<close> and \<^verbatim>\<open>stop\<close> of \<^verbatim>\<open>scheduler_service.cpp\<close> share.
\<close>

section \<open>The two parties\<close>

text \<open>Where the caller stands, and what is left for it to do.\<close>

datatype caller_pc = Built | Waiting | Answered | GaveUp | CallerDone

text \<open>Where the server stands; the flag is the value of \<^verbatim>\<open>shouldDelete\<close>.\<close>

datatype server_pc = Unseen | Taken | Executed | Decided bool | Signaled bool | ServerDone

text \<open>
  \<open>cm_frees\<close> counts the calls of \<^verbatim>\<open>delete\<close> on the object, \<open>cm_fault\<close> records an access to it after the
  first of them.
\<close>

record command_state =
  cm_caller :: caller_pc
  cm_server :: server_pc
  cm_queued :: bool
  cm_semaphore :: bool
  cm_abandoned :: bool
  cm_frees :: nat
  cm_fault :: bool

definition fresh_command :: command_state where
  "fresh_command = \<lparr>cm_caller = Built, cm_server = Unseen, cm_queued = False, cm_semaphore = False,
     cm_abandoned = False, cm_frees = 0, cm_fault = False\<rparr>"

definition touch :: "command_state \<Rightarrow> command_state" where
  "touch s = s\<lparr>cm_fault := (cm_fault s \<or> cm_frees s > 0)\<rparr>"

definition free :: "command_state \<Rightarrow> command_state" where
  "free s = (touch s)\<lparr>cm_frees := cm_frees s + 1\<rparr>"

inductive caller_step :: "command_state \<Rightarrow> command_state \<Rightarrow> bool" where
  refused: "cm_caller s = Built \<Longrightarrow> caller_step s ((free s)\<lparr>cm_caller := CallerDone\<rparr>)"
| sent: "cm_caller s = Built \<Longrightarrow> caller_step s (s\<lparr>cm_queued := True, cm_caller := Waiting\<rparr>)"
| woken: "cm_caller s = Waiting \<Longrightarrow> cm_semaphore s \<Longrightarrow>
    caller_step s ((touch s)\<lparr>cm_semaphore := False, cm_caller := Answered\<rparr>)"
| timed_out: "cm_caller s = Waiting \<Longrightarrow> \<not> cm_semaphore s \<Longrightarrow> caller_step s ((touch s)\<lparr>cm_caller := GaveUp\<rparr>)"
| abandon: "cm_caller s = GaveUp \<Longrightarrow> caller_step s ((touch s)\<lparr>cm_abandoned := True, cm_caller := CallerDone\<rparr>)"
| collect: "cm_caller s = Answered \<Longrightarrow> caller_step s ((free s)\<lparr>cm_caller := CallerDone\<rparr>)"

inductive server_step :: "command_state \<Rightarrow> command_state \<Rightarrow> bool" where
  receive: "cm_server s = Unseen \<Longrightarrow> cm_queued s \<Longrightarrow> server_step s (s\<lparr>cm_queued := False, cm_server := Taken\<rparr>)"
| execute: "cm_server s = Taken \<Longrightarrow> server_step s ((touch s)\<lparr>cm_server := Executed\<rparr>)"
| decide: "cm_server s = Executed \<Longrightarrow> server_step s ((touch s)\<lparr>cm_server := Decided (cm_abandoned s)\<rparr>)"
| signal: "cm_server s = Decided d \<Longrightarrow> server_step s ((touch s)\<lparr>cm_semaphore := True, cm_server := Signaled d\<rparr>)"
| delete: "cm_server s = Signaled True \<Longrightarrow> server_step s ((free s)\<lparr>cm_server := ServerDone\<rparr>)"
| keep: "cm_server s = Signaled False \<Longrightarrow> server_step s (s\<lparr>cm_server := ServerDone\<rparr>)"

inductive command_reachable :: "command_state \<Rightarrow> bool" where
  start: "command_reachable fresh_command"
| caller: "command_reachable s \<Longrightarrow> caller_step s s' \<Longrightarrow> command_reachable s'"
| server: "command_reachable s \<Longrightarrow> server_step s s' \<Longrightarrow> command_reachable s'"

section \<open>No double free, no use after free\<close>

text \<open>
  Whoever frees the object is the last to touch it: the server only after the caller is gone, the
  caller only after the server has signaled and decided to keep it.
\<close>

text \<open>
  The states of the queue entry, the semaphore, the flag and the object that go with each pair of
  positions.
\<close>

definition unanswered :: "server_pc \<Rightarrow> bool \<times> bool \<times> bool \<times> nat \<Rightarrow> bool" where
  "unanswered v x \<longleftrightarrow> (case v of
     Unseen \<Rightarrow> x = (True, False, False, 0) | Decided d \<Rightarrow> \<not> d \<and> x = (False, False, False, 0)
   | Signaled d \<Rightarrow> \<not> d \<and> x = (False, True, False, 0) | ServerDone \<Rightarrow> x = (False, True, False, 0)
   | _ \<Rightarrow> x = (False, False, False, 0))"

fun owned :: "caller_pc \<Rightarrow> server_pc \<Rightarrow> bool \<times> bool \<times> bool \<times> nat \<Rightarrow> bool" where
  "owned Built v x \<longleftrightarrow> v = Unseen \<and> x = (False, False, False, 0)"
| "owned Waiting v x \<longleftrightarrow> unanswered v x"
| "owned GaveUp v x \<longleftrightarrow> unanswered v x"
| "owned Answered v x \<longleftrightarrow> (v = Signaled False \<or> v = ServerDone) \<and> x = (False, False, False, 0)"
| "owned CallerDone v x \<longleftrightarrow> (case v of
     Unseen \<Rightarrow> x = (False, False, False, 1) \<or> x = (True, False, True, 0)
   | Signaled d \<Rightarrow> x = (False, True, True, 0) \<or> \<not> d \<and> x = (False, False, False, 1)
   | ServerDone \<Rightarrow> x = (False, True, True, 0) \<or> x = (False, True, True, 1) \<or> x = (False, False, False, 1)
   | _ \<Rightarrow> x = (False, False, True, 0))"

definition ownership :: "command_state \<Rightarrow> bool" where
  "ownership s \<longleftrightarrow> \<not> cm_fault s \<and>
     owned (cm_caller s) (cm_server s) (cm_queued s, cm_semaphore s, cm_abandoned s, cm_frees s)"

lemma ownership_caller: "caller_step s s' \<Longrightarrow> ownership s \<Longrightarrow> ownership s'"
  by (erule caller_step.cases; cases "cm_server s") (auto simp: ownership_def unanswered_def touch_def free_def)

lemma ownership_server: "server_step s s' \<Longrightarrow> ownership s \<Longrightarrow> ownership s'"
  by (erule server_step.cases; cases "cm_caller s") (auto simp: ownership_def unanswered_def touch_def free_def)

lemma ownership_start: "ownership fresh_command"
  by (simp add: ownership_def fresh_command_def)

lemma ownership_reachable: "command_reachable s \<Longrightarrow> ownership s"
  by (induction rule: command_reachable.induct) (auto intro: ownership_start ownership_caller ownership_server)

lemma owned_frees: "owned c v (q, sem, ab, f) \<Longrightarrow> f \<le> 1"
  by (cases c; cases v) (auto simp: unanswered_def)

text \<open>
  C11: in every interleaving of a caller and the service a command is freed at most once and never
  accessed after it was freed, also when the caller's wait times out at any point.
\<close>

theorem command_memory_safe:
  assumes "command_reachable s"
  shows "cm_frees s \<le> 1 \<and> \<not> cm_fault s"
  using ownership_reachable [OF assms] owned_frees by (auto simp: ownership_def)


section \<open>Two runs\<close>

text \<open>A state in which nothing was accessed after a free.\<close>

definition at_state :: "caller_pc \<Rightarrow> server_pc \<Rightarrow> bool \<Rightarrow> bool \<Rightarrow> bool \<Rightarrow> nat \<Rightarrow> command_state" where
  "at_state c v q sem ab f = \<lparr>cm_caller = c, cm_server = v, cm_queued = q, cm_semaphore = sem, cm_abandoned = ab,
     cm_frees = f, cm_fault = False\<rparr>"

lemma caller_moves:
  "command_reachable (at_state Waiting v q False ab 0) \<Longrightarrow> command_reachable (at_state GaveUp v q False ab 0)"
  "command_reachable (at_state GaveUp v q sem ab 0) \<Longrightarrow> command_reachable (at_state CallerDone v q sem True 0)"
  using command_reachable.caller [OF _ caller_step.timed_out, of "at_state Waiting v q False ab 0"]
    command_reachable.caller [OF _ caller_step.abandon, of "at_state GaveUp v q sem ab 0"]
  by (simp_all add: at_state_def touch_def)

lemma server_moves:
  "command_reachable (at_state c Unseen True sem ab 0) \<Longrightarrow> command_reachable (at_state c Taken False sem ab 0)"
  "command_reachable (at_state c Taken q sem ab 0) \<Longrightarrow> command_reachable (at_state c Executed q sem ab 0)"
  "command_reachable (at_state c Executed q sem ab 0) \<Longrightarrow> command_reachable (at_state c (Decided ab) q sem ab 0)"
  "command_reachable (at_state c (Decided d) q sem ab 0) \<Longrightarrow> command_reachable (at_state c (Signaled d) q True ab 0)"
  "command_reachable (at_state c (Signaled True) q sem ab 0) \<Longrightarrow> command_reachable (at_state c ServerDone q sem ab 1)"
  "command_reachable (at_state c (Signaled False) q sem ab 0) \<Longrightarrow> command_reachable (at_state c ServerDone q sem ab 0)"
  using command_reachable.server [OF _ server_step.receive, of "at_state c Unseen True sem ab 0"]
    command_reachable.server [OF _ server_step.execute, of "at_state c Taken q sem ab 0"]
    command_reachable.server [OF _ server_step.decide, of "at_state c Executed q sem ab 0"]
    command_reachable.server [OF _ server_step.signal, of "at_state c (Decided d) q sem ab 0" d]
    command_reachable.server [OF _ server_step.delete, of "at_state c (Signaled True) q sem ab 0"]
    command_reachable.server [OF _ server_step.keep, of "at_state c (Signaled False) q sem ab 0"]
  by (simp_all add: at_state_def touch_def free_def)

lemma sent_command: "command_reachable (at_state Waiting Unseen True False False 0)"
  using command_reachable.caller [OF command_reachable.start caller_step.sent]
  by (simp add: fresh_command_def at_state_def)

text \<open>The caller gives up before the server looks: the server frees the command.\<close>

lemma given_up_run: "command_reachable (at_state CallerDone ServerDone False True True 1)"
  using server_moves(5) [OF server_moves(4) [OF server_moves(3) [OF server_moves(2) [OF server_moves(1)
    [OF caller_moves(2) [OF caller_moves(1) [OF sent_command]]]]]]] .

theorem command_memory_safe_witness:
  "cm_frees (at_state CallerDone ServerDone False True True 1) \<le> 1 \<and>
   \<not> cm_fault (at_state CallerDone ServerDone False True True 1)"
  by (rule command_memory_safe [OF given_up_run])

text \<open>
  The caller gives up between the server's look at the flag and its signal: both are finished and
  the command is never freed.
\<close>

lemma command_may_leak: "command_reachable (at_state CallerDone ServerDone False True True 0)"
proof -
  have "command_reachable (at_state Waiting (Decided False) False False False 0)"
    using server_moves(3) [OF server_moves(2) [OF server_moves(1) [OF sent_command]]] .
  then have "command_reachable (at_state CallerDone (Decided False) False False True 0)"
    using caller_moves by blast
  then show ?thesis using server_moves(4,6) by blast
qed

end
