(* ===== verification/Command_Types.thy ===== *)
theory Command_Types
  imports Facade_Spec
begin

text \<open>
  The types of the results of commands. In \<^verbatim>\<open>service/scheduler_commands.h\<close> every command class has a
  \<^verbatim>\<open>result\<close> of its own type, which the facade reads after the wait; the model keeps the results in one
  sum. Here the sum is given back its types: they are preserved by the service and by the facade, so the readers of
  \<open>Facade_Jobs\<close> always find the alternative they read. It follows when an operation reports
  \<open>NotInitialized\<close>, which is also the value a result has before its command was executed.
\<close>

datatype ResultType = JobIdType | VoidType | SizeType | InfoType

fun result_type :: "CommandResult \<Rightarrow> ResultType" where
  "result_type (JobIdResult r) = JobIdType"
| "result_type (VoidResult r) = VoidType"
| "result_type (SizeResult r) = SizeType"
| "result_type (InfoResult r out) = InfoType"

fun command_type :: "SchedulerServiceCommand \<Rightarrow> ResultType" where
  "command_type (AddJobCommand schedule options callback) = JobIdType"
| "command_type JobCountCommand = SizeType"
| "command_type (GetJobInfoCommand jobId info) = InfoType"
| "command_type _ = VoidType"

fun result_error :: "CommandResult \<Rightarrow> SchedulerError option" where
  "result_error (JobIdResult r) = (case r of Inl e \<Rightarrow> Some e | Inr n \<Rightarrow> None)"
| "result_error (VoidResult r) = (case r of Inl e \<Rightarrow> Some e | Inr n \<Rightarrow> None)"
| "result_error (SizeResult r) = (case r of Inl e \<Rightarrow> Some e | Inr n \<Rightarrow> None)"
| "result_error (InfoResult r out) = (case r of Inl e \<Rightarrow> Some e | Inr n \<Rightarrow> None)"

text \<open>
  Every object in the store has a result of its command's type, and once it is signaled the result is
  not the initial one any more.
\<close>

definition store_typed :: "store \<Rightarrow> bool" where
  "store_typed m \<longleftrightarrow> (\<forall>a c. m a = Some c \<longrightarrow> result_type (co_result c) = command_type (co_command c) \<and>
     (co_signaled c \<longrightarrow> result_error (co_result c) \<noteq> Some NotInitialized))"

text \<open>The reader the facade uses for a command finds the alternative it reads.\<close>

definition result_read :: "SchedulerServiceCommand \<Rightarrow> CommandResult \<Rightarrow> bool" where
  "result_read cmd v \<longleftrightarrow>
     (case command_type cmd of
        JobIdType \<Rightarrow> v = JobIdResult (get_id (Inr v))
      | VoidType \<Rightarrow> v = VoidResult (get_void (Inr v))
      | SizeType \<Rightarrow> v = SizeResult (get_size (Inr v))
      | InfoType \<Rightarrow> v = InfoResult (snd (get_info (Inr v))) (fst (get_info (Inr v))))"

definition answer_typed :: "SchedulerServiceCommand \<Rightarrow> SchedulerError + CommandResult \<Rightarrow> bool" where
  "answer_typed cmd r \<longleftrightarrow> (case r of Inl e \<Rightarrow> e \<in> {NoMemory, QueueFull, Timeout}
     | Inr v \<Rightarrow> result_read cmd v \<and> result_error v \<noteq> Some NotInitialized)"

lemma result_read_iff: "result_read cmd v \<longleftrightarrow> result_type v = command_type cmd"
  by (cases v; cases "command_type cmd") (simp_all add: result_read_def)

lemma initial_result_type: "result_type (initial_result cmd) = command_type cmd"
  by (cases cmd) simp_all

lemma execute_type: "execute date cmd k core = (r, core', k') \<Longrightarrow> result_type r = command_type cmd"
  by (cases cmd) (auto split: prod.splits if_splits)

text \<open>The operations of the core have errors of their own.\<close>

lemma findJobSlot_error: "findJobSlot c j = Inl e \<Longrightarrow> e = NotFound"
  by (auto simp: findJobSlot_def Let_def split: option.splits if_splits)

lemma install_job_error: "fst (install_job prime now r c) \<noteq> Inl NotInitialized"
  by (simp add: install_job_def Let_def split_beta split: option.split)

lemma core_errors:
  "fst (addJob date spec opts cb now c) \<noteq> Inl NotInitialized" "fst (cancelJob j c) \<noteq> Inl NotInitialized"
  "fst (pauseJob j c) \<noteq> Inl NotInitialized" "fst (resumeJob j now c) \<noteq> Inl NotInitialized"
  "fst (cancelAll c) \<noteq> Inl NotInitialized" "fst (refreshAllSchedules date now c) \<noteq> Inl NotInitialized"
  "jobCount c \<noteq> Inl NotInitialized" "fst (getJobInfo c j) \<noteq> Inl NotInitialized"
proof -
  show "fst (addJob date spec opts cb now c) \<noteq> Inl NotInitialized"
    by (simp add: addJob_def Let_def split_beta install_job_error)
  show "fst (cancelJob j c) \<noteq> Inl NotInitialized" "fst (pauseJob j c) \<noteq> Inl NotInitialized"
    "fst (resumeJob j now c) \<noteq> Inl NotInitialized" "fst (getJobInfo c j) \<noteq> Inl NotInitialized"
    using findJobSlot_error [of c j]
    by (auto simp: cancelJob_def pauseJob_def resumeJob_def getJobInfo_def Let_def split_beta split: sum.split)
qed (simp_all add: cancelAll_def refreshAllSchedules_def jobCount_def)

lemma execute_error: "execute date cmd k core = (r, core', k') \<Longrightarrow> result_error r \<noteq> Some NotInitialized"
  using core_errors by (cases cmd) (auto simp: Let_def split_beta split: if_splits sum.splits dest!: sym [of "Inl NotInitialized"])

lemma store_typed_simps [simp]:
  "store_typed m \<Longrightarrow> store_typed (m(a := None))"
  "store_typed m \<Longrightarrow> store_typed (m(a \<mapsto> newCommand cmd))"
  "store_typed m \<Longrightarrow> m a = Some c \<Longrightarrow> store_typed (m(a \<mapsto> co_abandon c))"
  by (auto simp: store_typed_def newCommand_def co_abandon_def initial_result_type)

text \<open>Serving a command keeps the types, and no object changes its command.\<close>

lemma process_command_typed:
  assumes "process_command date b (core, k, m) = (core', k', m')" "store_typed m"
  shows "store_typed m' \<and> (\<forall>c'. m' a = Some c' \<longrightarrow> (\<exists>c. m a = Some c \<and> co_command c = co_command c'))"
proof (cases "m b")
  case None
  then show ?thesis using assms by (simp add: process_command_def)
next
  case (Some c)
  obtain r core1 k1 where x: "execute date (co_command c) k core = (r, core1, k1)" by (metis prod_cases3)
  then have m': "m' = (if co_abandoned c then m(b := None) else m(b \<mapsto> c\<lparr>co_result := r, co_signaled := True\<rparr>))"
    using assms(1) Some by (auto simp: process_command_def co_signal_def Let_def split: if_splits)
  then show ?thesis using execute_type [OF x] execute_error [OF x] assms(2) Some by (auto simp: store_typed_def split: if_splits)
qed

lemma process_commands_typed:
  "fold (process_command date) as (core, k, m) = (core', k', m') \<Longrightarrow> store_typed m \<Longrightarrow>
   store_typed m' \<and> (\<forall>c'. m' a = Some c' \<longrightarrow> (\<exists>c. m a = Some c \<and> co_command c = co_command c'))"
proof (induction as arbitrary: core k m)
  case (Cons b as)
  obtain core1 k1 m1 where p: "process_command date b (core, k, m) = (core1, k1, m1)" by (metis prod_cases3)
  then have rest: "fold (process_command date) as (core1, k1, m1) = (core', k', m')" using Cons.prems(1) by simp
  note one = process_command_typed [OF p Cons.prems(2), of a]
  show ?case
  proof (intro conjI allI impI)
    show "store_typed m'" using Cons.IH [OF rest] one by blast
    fix c' assume "m' a = Some c'"
    then obtain c1 where c1: "m1 a = Some c1" "co_command c1 = co_command c'" using Cons.IH [OF rest] one by blast
    then obtain c where "m a = Some c" "co_command c = co_command c1" using one by blast
    then show "\<exists>c. m a = Some c \<and> co_command c = co_command c'" using c1(2) by auto
  qed
qed auto

lemma drainCommands_typed:
  assumes "fifo_queue cq items depth" "store_typed m"
  obtains s' k' m' where "drainCommands cq date k m s = Some (s', k', m')" "store_typed m'"
    "\<And>c'. m' a = Some c' \<Longrightarrow> \<exists>c. m a = Some c \<and> co_command c = co_command c'"
proof (cases "ss_commandQueue s")
  case None
  then show ?thesis using that assms(2) by (simp add: drainCommands_def)
next
  case (Some q)
  obtain core' k' m' where f: "fold (process_command date) (addresses (items q)) (ss_core s, k, m) = (core', k', m')"
    by (metis prod_cases3)
  obtain q' where "command_loop cq date q (ss_core s, k, m) = Some (q', core', k', m')"
    using command_loop_fold [OF assms(1), of date q "(ss_core s, k, m)"] f by auto
  then have "drainCommands cq date k m s = Some (s\<lparr>ss_commandQueue := Some q', ss_core := core'\<rparr>, k', m')"
    using Some by (simp add: drainCommands_def)
  then show ?thesis using that process_commands_typed [OF f assms(2)] by blast
qed

text \<open>
  A call through the service ends, whether or not it is answered in time, memory is left and the queue
  has room. Its answer is one of three errors of the facade or a result of the command's own type, which the
  facade's reader for the command finds, and the objects in the store keep results of their commands' types.
\<close>

lemma background_results_typed:
  assumes "fifo_queue cq items depth" "store_typed m"
  shows "\<exists>r s' k' m' h'. executeBackgroundCommand cq date cmd a responds s k m h = Some (r, s', k', m', h') \<and>
    answer_typed cmd r \<and> store_typed m'"
proof -
  define m1 where "m1 = m(a \<mapsto> newCommand cmd)"
  obtain sent s1 where snd: "send cq (Some a) s = (sent, s1)" by fastforce
  have t: "store_typed m1" using assms(2) by (simp add: m1_def)
  obtain s' k' m' where d: "(if responds then drainCommands cq date k m1 s1 else Some (s1, k, m1)) = Some (s', k', m')"
    "store_typed m'" "\<And>c'. m' a = Some c' \<Longrightarrow> \<exists>c. m1 a = Some c \<and> co_command c = co_command c'"
  proof (cases responds)
    case True
    from drainCommands_typed [OF assms(1) t, where date = date and k = k and s = s1 and a = a]
    show thesis using True that by auto
  next
    case False
    then show thesis using that t by auto
  qed
  have own: "result_type (co_result c) = command_type cmd"
    "co_signaled c \<Longrightarrow> result_error (co_result c) \<noteq> Some NotInitialized" if "m' a = Some c" for c
    using d(2) d(3) [OF that] that by (auto simp: store_typed_def m1_def newCommand_def)
  show ?thesis
  proof (cases "h 0 \<and> sent")
    case True
    then have "executeBackgroundCommand cq date cmd a responds s k m h =
        (case m' a of
           Some c \<Rightarrow> if co_signaled c then Some (Inr (co_result c), s', k', m'(a := None), \<lambda>n. h (Suc n))
                    else Some (Inl Timeout, s', k', m'(a \<mapsto> co_abandon c), \<lambda>n. h (Suc n))
         | None \<Rightarrow> Some (Inl Timeout, s', k', m', \<lambda>n. h (Suc n)))"
      using snd d(1) by (simp add: executeBackgroundCommand_def new_object_def m1_def [symmetric])
    then show ?thesis using d(2) own by (cases "m' a") (auto simp: answer_typed_def result_read_iff)
  next
    case False
    then show ?thesis using snd assms(2)
      by (auto simp: executeBackgroundCommand_def new_object_def answer_typed_def Let_def)
  qed
qed

section \<open>When a scheduler is not initialized\<close>

definition reports :: "SchedulerError \<Rightarrow> ('r, 'c, 'q, 'x, 'o) outcome \<Rightarrow> bool" where
  "reports e out \<longleftrightarrow> (\<exists>i k m. out = Some (Inl e, i, k, m))"

lemma answer_readers:
  assumes "answer_typed cmd r"
  shows "command_type cmd = JobIdType \<Longrightarrow> get_id r \<noteq> Inl NotInitialized"
    "command_type cmd = VoidType \<Longrightarrow> get_void r \<noteq> Inl NotInitialized"
    "command_type cmd = SizeType \<Longrightarrow> get_size r \<noteq> Inl NotInitialized"
    "command_type cmd = InfoType \<Longrightarrow> snd (get_info r) \<noteq> Inl NotInitialized"
proof -
  have v: "result_type v = command_type cmd \<and> result_error v \<noteq> Some NotInitialized" if "r = Inr v" for v
    using assms that by (simp add: answer_typed_def result_read_iff)
  have e: "e \<noteq> NotInitialized" if "r = Inl e" for e using assms that by (auto simp: answer_typed_def)
  show "command_type cmd = JobIdType \<Longrightarrow> get_id r \<noteq> Inl NotInitialized"
    "command_type cmd = VoidType \<Longrightarrow> get_void r \<noteq> Inl NotInitialized"
    "command_type cmd = SizeType \<Longrightarrow> get_size r \<noteq> Inl NotInitialized"
    "command_type cmd = InfoType \<Longrightarrow> snd (get_info r) \<noteq> Inl NotInitialized"
    using v e by (cases r; (cases "projr r")?; auto split: sum.splits)+
qed

lemma command_not_uninitialized:
  assumes "fifo_queue cq items depth" "store_typed m"
  shows "command_type cmd = JobIdType \<Longrightarrow> \<not> reports NotInitialized (run_command cq date su cmd get_id s k m i)"
    "command_type cmd = VoidType \<Longrightarrow> \<not> reports NotInitialized (run_command cq date su cmd get_void s k m i)"
    "command_type cmd = SizeType \<Longrightarrow> \<not> reports NotInitialized (run_command cq date su cmd get_size s k m i)"
proof -
  obtain r s' k' m' h' where x: "executeBackgroundCommand cq date cmd (su_address su) (su_responds su) s k m (im_heap i) =
      Some (r, s', k', m', h')" "answer_typed cmd r"
    using background_results_typed [OF assms] by blast
  show "command_type cmd = JobIdType \<Longrightarrow> \<not> reports NotInitialized (run_command cq date su cmd get_id s k m i)"
    "command_type cmd = VoidType \<Longrightarrow> \<not> reports NotInitialized (run_command cq date su cmd get_void s k m i)"
    "command_type cmd = SizeType \<Longrightarrow> \<not> reports NotInitialized (run_command cq date su cmd get_size s k m i)"
    using x(1) answer_readers [OF x(2)] by (auto simp: reports_def run_command_def)
qed

lemma reports_Some: "reports e (Some (r, x)) \<longleftrightarrow> r = Inl e"
  by (cases x) (auto simp: reports_def)

lemma getJobInfo_uninitialized:
  assumes "fifo_queue cq items depth" "store_typed m"
  shows "(\<exists>out rest. fac_getJobInfo cq date su jobId k m i = Some (out, Inl NotInitialized, rest)) \<longleftrightarrow> \<not> im_started i"
proof (cases "background i")
  case None
  then show ?thesis using core_errors(8) by (simp add: fac_getJobInfo_def)
next
  case (Some s)
  obtain r s' k' m' h' where x: "executeBackgroundCommand cq date (GetJobInfoCommand jobId True) (su_address su)
      (su_responds su) s k m (im_heap i) = Some (r, s', k', m', h')" "answer_typed (GetJobInfoCommand jobId True) r"
    using background_results_typed [OF assms] by blast
  then show ?thesis using Some answer_readers(4) [OF x(2)] by (simp add: fac_getJobInfo_def)
qed

lemma refresh_uninitialized:
  assumes "fifo_queue cq items depth" "store_typed m"
  shows "reports NotInitialized (fac_refreshAllSchedules cq eq date ops su k m i) \<longleftrightarrow> \<not> running i"
proof (cases "background i")
  case None
  then show ?thesis
    by (cases "drainManualEvents eq date ops (fst (date_now k)) i")
      (auto simp: fac_refreshAllSchedules_def running_def reports_def refreshAllSchedules_def split_beta Let_def)
next
  case (Some s)
  then show ?thesis
    by (simp add: fac_refreshAllSchedules_def running_def reports_Some command_not_uninitialized [OF assms])
qed

text \<open>
  C33: \<open>NotInitialized\<close> is the report of a scheduler that is not running, and of no other. The six operations that
  change jobs (adding a job with a callback, canceling, pausing, resuming, canceling all, refreshing) report it exactly
  when the scheduler was not begun, was ended, or is draining, and then change nothing. The two
  queries, counting jobs and describing one, test only whether it was begun: they still answer while it is draining.
  In background mode this supposes that the service is not stopped during the call, which answers waiting
  callers with the initial value of their results.
\<close>

theorem not_initialized_exactly:
  assumes "fifo_queue cq items depth" "store_typed m"
  shows "(reports NotInitialized (addJob_raw cq date su schedule options (Some fn) userData k m i) \<longleftrightarrow> \<not> running i) \<and>
    (reports NotInitialized (fac_cancelJob cq date su jobId k m i) \<longleftrightarrow> \<not> running i) \<and>
    (reports NotInitialized (fac_pauseJob cq date su jobId k m i) \<longleftrightarrow> \<not> running i) \<and>
    (reports NotInitialized (fac_resumeJob cq date su jobId k m i) \<longleftrightarrow> \<not> running i) \<and>
    (reports NotInitialized (fac_cancelAll cq date su k m i) \<longleftrightarrow> \<not> running i) \<and>
    (reports NotInitialized (fac_refreshAllSchedules cq eq date ops su k m i) \<longleftrightarrow> \<not> running i) \<and>
    (reports NotInitialized (fac_jobCount cq date su k m i) \<longleftrightarrow> \<not> im_started i) \<and>
    ((\<exists>out rest. fac_getJobInfo cq date su jobId k m i = Some (out, Inl NotInitialized, rest)) \<longleftrightarrow> \<not> im_started i) \<and>
    (\<not> running i \<longrightarrow>
      addJob_raw cq date su schedule options (Some fn) userData k m i = Some (Inl NotInitialized, i, k, m) \<and>
      fac_cancelJob cq date su jobId k m i = Some (Inl NotInitialized, i, k, m) \<and>
      fac_pauseJob cq date su jobId k m i = Some (Inl NotInitialized, i, k, m) \<and>
      fac_resumeJob cq date su jobId k m i = Some (Inl NotInitialized, i, k, m) \<and>
      fac_cancelAll cq date su k m i = Some (Inl NotInitialized, i, k, m) \<and>
      fac_refreshAllSchedules cq eq date ops su k m i = Some (Inl NotInitialized, i, k, m))"
proof -
  note run = command_not_uninitialized [OF assms]
  note ops = fac_cancelJob_def fac_pauseJob_def fac_resumeJob_def fac_cancelAll_def fac_jobCount_def running_def reports_Some
    Let_def split_beta
  have add: "reports NotInitialized (addJob_raw cq date su schedule options (Some fn) userData k m i) \<longleftrightarrow> \<not> running i"
    by (cases "background i") (simp_all add: addJob_raw_def addJobImpl_def ops run core_errors)
  have jobs: "reports NotInitialized (fac_cancelJob cq date su jobId k m i) \<longleftrightarrow> \<not> running i"
    "reports NotInitialized (fac_pauseJob cq date su jobId k m i) \<longleftrightarrow> \<not> running i"
    "reports NotInitialized (fac_resumeJob cq date su jobId k m i) \<longleftrightarrow> \<not> running i"
    "reports NotInitialized (fac_cancelAll cq date su k m i) \<longleftrightarrow> \<not> running i"
    by (cases "background i"; simp add: ops run core_errors)+
  have cnt: "reports NotInitialized (fac_jobCount cq date su k m i) \<longleftrightarrow> \<not> im_started i"
    by (cases "background i") (simp_all add: ops run core_errors)
  have refused: "\<not> running i \<longrightarrow>
      addJob_raw cq date su schedule options (Some fn) userData k m i = Some (Inl NotInitialized, i, k, m) \<and>
      fac_cancelJob cq date su jobId k m i = Some (Inl NotInitialized, i, k, m) \<and>
      fac_pauseJob cq date su jobId k m i = Some (Inl NotInitialized, i, k, m) \<and>
      fac_resumeJob cq date su jobId k m i = Some (Inl NotInitialized, i, k, m) \<and>
      fac_cancelAll cq date su k m i = Some (Inl NotInitialized, i, k, m) \<and>
      fac_refreshAllSchedules cq eq date ops su k m i = Some (Inl NotInitialized, i, k, m)"
    by (auto simp: addJob_raw_def addJobImpl_def fac_refreshAllSchedules_def ops)
  show ?thesis
    by (intro conjI add jobs cnt refused getJobInfo_uninitialized [OF assms] refresh_uninitialized [OF assms])
qed

theorem not_initialized_exactly_witness:
  "(let i = (sample_rest Background)\<lparr>im_started := True, im_draining := True, im_service := Some sample_service\<rparr>
    in fac_cancelJob list_queue utc_date sample_surroundings 1 (\<lambda>n. epochDate) Map.empty i =
         Some (Inl NotInitialized, i, (\<lambda>n. epochDate), Map.empty) \<and>
       \<not> reports NotInitialized (fac_jobCount list_queue utc_date sample_surroundings (\<lambda>n. epochDate) Map.empty i))"
proof -
  have "store_typed Map.empty" by (simp add: store_typed_def)
  from not_initialized_exactly [OF list_queue_fifo this, where date = utc_date and su = sample_surroundings and jobId = 1
      and k = "\<lambda>n. epochDate" and i = "(sample_rest Background)\<lparr>im_started := True, im_draining := True,
      im_service := Some sample_service\<rparr>" and eq = list_queue and ops = sample_ops]
  show ?thesis by (simp add: running_def)
qed

end
