(* ===== verification/Facade_Life.thy ===== *)
theory Facade_Life
  imports Facade_Spec
begin

text \<open>
  The life cycle of the scheduler: \<^verbatim>\<open>stop\<close> of the service answers everyone, \<^verbatim>\<open>begin\<close> starts everything
  or nothing, \<^verbatim>\<open>end\<close> stops everything, registered executors are found again under their ids, and
  \<^verbatim>\<open>tick\<close> keeps the invariant of the core.
\<close>

section \<open>Stopping the service\<close>

definition released :: "CommandObject \<Rightarrow> CommandObject option" where
  "released c = (if co_abandoned c then None else Some (co_signal c))"

lemma release_commands:
  assumes "distinct as" "map m as = map Some cs"
  shows "map (fold release_command as m) as = map released cs \<and>
    (\<forall>b. b \<notin> set as \<longrightarrow> fold release_command as m b = m b)"
  using assms
proof (induction as arbitrary: m cs)
  case (Cons a as)
  then obtain c cs' where cs: "cs = c # cs'" "m a = Some c" "map m as = map Some cs'" by (cases cs) auto
  define m1 where "m1 = m(a := released c)"
  have r: "release_command a m = m1" using cs(2) by (auto simp: release_command_def released_def Let_def m1_def)
  have "map m1 as = map Some cs'" using Cons.prems(1) cs(3) by (auto simp: m1_def)
  from Cons.IH [OF _ this] Cons.prems(1)
  have "map (fold release_command as m1) as = map released cs'" "\<forall>b. b \<notin> set as \<longrightarrow> fold release_command as m1 b = m1 b"
    by auto
  with Cons.prems(1) show ?case by (auto simp: r cs(1)) (simp_all add: m1_def)
qed simp

lemma release_loop_fold:
  assumes "fifo_queue cq items depth"
  shows "release_loop cq q m = Some (fold release_command (addresses (items q)) m)"
proof (induction "length (items q)" arbitrary: q m rule: less_induct)
  case less
  show ?case
    using assms
  proof (cases rule: receive_split [where q = q])
    case (none q')
    then show ?thesis by (subst release_loop.simps) simp
  next
    case (item x xs q1)
    then show ?thesis
      using less [of q1] by (subst release_loop.simps) (cases x; simp)
  qed
qed

lemma addresses_send_None:
  "fifo_queue cq items depth \<Longrightarrow> addresses (items (snd (xQueueSend cq None q))) = addresses (items q)"
  by (simp add: fifo_send)

lemma stop_total:
  assumes "fifo_queue cq items depth"
  shows "\<exists>s'. stop cq os exited m s =
      Some (s', case ss_commandQueue s of None \<Rightarrow> m | Some q \<Rightarrow> fold release_command (addresses (items q)) m) \<and>
    ss_commandQueue s' = None \<and> ss_eventQueue s' = None \<and> \<not> ss_queueSet s' \<and> ss_task s' = None \<and> \<not> ss_started s'"
proof (cases "ss_commandQueue s")
  case None
  then show ?thesis by (simp add: stop_def send_def Let_def)
next
  case (Some q)
  let ?q = "snd (xQueueSend cq None q)"
  have "release_loop cq ?q m = Some (fold release_command (addresses (items q)) m)"
    using release_loop_fold [OF assms, of ?q m] addresses_send_None [OF assms, of q] by simp
  then show ?thesis
    using Some by (simp add: stop_def send_def Let_def case_prod_unfold)
qed

text \<open>
  C24: stopping the service leaves nobody waiting: every command that is still queued is signaled with
  the result it has, or freed if its caller has given up, no other object is touched, and the
  service has neither queues nor a task afterwards.
\<close>

theorem stop_answers_everyone:
  assumes "fifo_queue cq items depth" "ss_commandQueue s = Some q" "distinct (addresses (items q))"
    and "map m (addresses (items q)) = map Some cs"
  shows "\<exists>s' m'. stop cq os exited m s = Some (s', m') \<and>
    map m' (addresses (items q)) = map (\<lambda>c. if co_abandoned c then None else Some (co_signal c)) cs \<and>
    (\<forall>b. b \<notin> set (addresses (items q)) \<longrightarrow> m' b = m b) \<and>
    ss_commandQueue s' = None \<and> ss_eventQueue s' = None \<and> ss_task s' = None"
proof -
  have "map released cs = map (\<lambda>c. if co_abandoned c then None else Some (co_signal c)) cs"
    by (simp add: released_def)
  then show ?thesis
    using stop_total [OF assms(1), of os exited m s] release_commands [OF assms(3,4)] assms(2) by auto
qed

section \<open>End\<close>

text \<open>A scheduler at rest; \<^verbatim>\<open>begin\<close> may be called.\<close>

definition stopped :: "('c, 'q, 'x, 'o) Impl \<Rightarrow> bool" where
  "stopped i \<longleftrightarrow> \<not> im_started i \<and> \<not> im_draining i \<and> im_service i = None \<and> im_eventQueue i = None \<and>
     im_runtime i = None \<and> arr_data (im_executors i) = [] \<and> \<not> im_inlineDispatch i \<and> im_ntpSyncListenerId i = 0"

text \<open>The service belongs to background mode, the facade's own event queue to manual mode.\<close>

definition modes_apart :: "('c, 'q, 'x, 'o) Impl \<Rightarrow> bool" where
  "modes_apart i \<longleftrightarrow> (if cfg_mode (im_config i) = Background then im_eventQueue i = None else im_service i = None)"

text \<open>What \<^verbatim>\<open>begin\<close> and \<^verbatim>\<open>end\<close> leave alone.\<close>

definition same_setup :: "('c, 'q, 'x, 'o) Impl \<Rightarrow> ('c, 'q, 'x, 'o) Impl \<Rightarrow> bool" where
  "same_setup i i' \<longleftrightarrow> im_config i' = im_config i \<and> im_externalExecutors i' = im_externalExecutors i"

lemma same_setup_trans: "same_setup i i' \<Longrightarrow> same_setup i' i'' \<Longrightarrow> same_setup i i''"
  by (simp add: same_setup_def)

text \<open>With every job canceled, a completion starts nothing.\<close>

definition no_jobs :: "SchedulerCore \<Rightarrow> bool" where
  "no_jobs c \<longleftrightarrow> (\<forall>u. live c u = None)"

lemma no_jobs_map: "core_inv c \<Longrightarrow> no_jobs c \<Longrightarrow> job_map c = Map.empty"
  unfolding no_jobs_def by (rule ext) (metis job_map_iff not_None_eq)

lemma no_jobs_evolves: "no_jobs c \<Longrightarrow> table_evolves now c c' \<Longrightarrow> no_jobs c'"
  unfolding no_jobs_def live_def occupant_def table_evolves_def evolves_def
  by (simp split: if_splits option.splits) blast

lemma cancelAll_no_jobs: "core_inv c \<Longrightarrow> no_jobs (snd (cancelAll c))"
  using cancel_loop_live [of c 0 "job_count c"] by (auto simp: no_jobs_def cancelAll_def live_def occupant_def)

lemma handleEvent_no_jobs:
  assumes "no_jobs c"
  shows "no_jobs (fst (handleEvent date ex ev now c e)) \<and> snd (handleEvent date ex ev now c e) = e"
proof -
  define s where "s = ev_slotIndex ev"
  let ?c = "finalizeCanceledIfIdle s (set_job s (less_running (job_at c s)) c)"
  have "jr_canceled (less_running (job_at c s))" if "s < job_count c" "jr_occupied (job_at c s)"
    using assms that by (auto simp: no_jobs_def live_def occupant_def less_running_def split: if_splits)
  then have "handleEvent date ex ev now c e = (c, e) \<or> handleEvent date ex ev now c e = (?c, e)"
    by (auto simp: handleEvent_def handleCompletion.simps Let_def less_running_def s_def [symmetric])
  moreover have "table_evolves now c ?c"
    using table_evolves_trans [OF table_evolves_set_job [OF less_running_evolves] retireJob_evolves]
      table_evolves_set_job [OF less_running_evolves] by (simp add: finalizeCanceledIfIdle_def Let_def)
  ultimately show ?thesis using assms no_jobs_evolves [OF assms] by auto
qed

lemma manual_event_loop_total:
  assumes "fifo_queue eq items depth"
  shows "\<exists>q' c' e'. manual_event_loop eq date ex now q ce = Some (q', c', e') \<and> items q' = [] \<and>
    (core_inv (fst ce) \<longrightarrow> core_inv c') \<and> (no_jobs (fst ce) \<longrightarrow> no_jobs c' \<and> e' = snd ce)"
proof (induction "length (items q)" arbitrary: q ce rule: less_induct)
  case less
  show ?case
    using assms
  proof (cases rule: receive_split [where q = q])
    case (none q')
    then show ?thesis by (cases ce) (subst manual_event_loop.simps, simp)
  next
    case (item x xs q1)
    let ?ce = "handleEvent date ex x now (fst ce) (snd ce)"
    have "manual_event_loop eq date ex now q ce = manual_event_loop eq date ex now q1 ?ce"
      using item(2) by (subst manual_event_loop.simps) simp
    then show ?thesis
      using less [of q1 ?ce] item handleEvent_inv [of "fst ce" date ex x now "snd ce"]
        handleEvent_no_jobs [of "fst ce" date ex x now "snd ce"] by auto
  qed
qed

lemma manual_event_loop_planned:
  assumes "fifo_queue eq items depth" "steady_period date lo (epochSeconds now)"
    and "manual_event_loop eq date ex now q ce = Some (q', c', e')" "core_inv (fst ce)" "planned_from lo (fst ce)"
  shows "planned_from lo c'"
  using assms(3-5)
proof (induction "length (items q)" arbitrary: q ce rule: less_induct)
  case less
  show ?case
    using assms(1)
  proof (cases rule: receive_split [where q = q])
    case (none q1)
    then have "manual_event_loop eq date ex now q ce = Some (q1, ce)" by (subst manual_event_loop.simps) simp
    then show ?thesis using less.prems(1,3) by auto
  next
    case (item x xs q1)
    let ?ce = "handleEvent date ex x now (fst ce) (snd ce)"
    have "manual_event_loop eq date ex now q ce = manual_event_loop eq date ex now q1 ?ce"
      using item(2) by (subst manual_event_loop.simps) simp
    moreover have "planned_from lo (fst ?ce)" "core_inv (fst ?ce)"
      using less.prems(2,3) assms(2) by (auto intro!: planned_handleEvent handleEvent_inv simp: steady_period_def)
    ultimately show ?thesis using less.hyps [of q1 ?ce] less.prems(1) item by auto
  qed
qed

text \<open>Draining the events changes the queue, the core and the executors' state only.\<close>

definition setting :: "('c, 'q, 'x, 'o) Impl \<Rightarrow>
    (SchedulerConfig \<times> ('c, 'q, 'o) SchedulerService option \<times> bool \<times> ExecutorRef SchedulerArray \<times> ExecutorRef SchedulerArray) \<times>
    SchedulerExecutorRuntime option \<times> nat \<times> bool \<times> bool" where
  "setting i = ((im_config i, im_service i, im_inlineDispatch i, im_externalExecutors i, im_executors i),
     im_runtime i, im_ntpSyncListenerId i, im_started i, im_draining i)"

definition only_core :: "('c, 'q, 'x, 'o) Impl \<Rightarrow> ('c, 'q, 'x, 'o) Impl \<Rightarrow> bool" where
  "only_core i i' \<longleftrightarrow> setting i' = setting i \<and> (im_eventQueue i' = None \<longleftrightarrow> im_eventQueue i = None) \<and>
     (core_inv (im_manualCore i) \<longrightarrow> core_inv (im_manualCore i')) \<and>
     (no_jobs (im_manualCore i) \<longrightarrow> no_jobs (im_manualCore i') \<and> im_x i' = im_x i)"

lemma only_core_refl [simp]: "only_core i i"
  by (simp add: only_core_def)

lemma only_core_trans: "only_core i i' \<Longrightarrow> only_core i' i'' \<Longrightarrow> only_core i i''"
  by (simp add: only_core_def)

lemma drainManualEvents_total:
  assumes "fifo_queue eq items depth"
  shows "\<exists>i'. drainManualEvents eq date ops now i = Some i' \<and> only_core i i'"
proof (cases "im_eventQueue i")
  case None
  then show ?thesis by (simp add: drainManualEvents_def)
next
  case (Some q)
  from manual_event_loop_total [OF assms, of date "resolver ops i" now q "(im_manualCore i, im_x i)"]
  obtain q' c' x' where "manual_event_loop eq date (resolver ops i) now q (im_manualCore i, im_x i) = Some (q', c', x')"
    "core_inv (im_manualCore i) \<longrightarrow> core_inv c'" "no_jobs (im_manualCore i) \<longrightarrow> no_jobs c' \<and> x' = im_x i" by auto
  then show ?thesis using Some by (simp add: drainManualEvents_def only_core_def setting_def)
qed

lemma drainManualEvents_planned:
  assumes "fifo_queue eq items depth" "steady_period date lo (epochSeconds now)" "drainManualEvents eq date ops now i = Some i'"
    and "core_inv (im_manualCore i)" "planned_from lo (im_manualCore i)"
  shows "planned_from lo (im_manualCore i')"
  using assms(3-5) manual_event_loop_planned [OF assms(1,2), where ce = "(im_manualCore i, im_x i)"]
  by (auto simp: drainManualEvents_def split: option.splits)

lemma await_manual_total:
  assumes "fifo_queue eq items depth"
  shows "\<exists>i'. await_manual eq date ops rounds k i = Some i' \<and> only_core i i'"
proof (induction rounds arbitrary: k i)
  case (Suc rounds)
  obtain i1 where i1: "drainManualEvents eq date ops (fst (date_now k)) i = Some i1" "only_core i i1"
    using drainManualEvents_total [OF assms] by blast
  then show ?case using Suc [of "snd (date_now k)" i1] only_core_trans by auto
qed simp

text \<open>The state of the executors once \<^verbatim>\<open>end\<close> of every one was called, the one of inline jobs last.\<close>

definition executors_ended :: "'x ExecutorOps \<Rightarrow> bool \<Rightarrow> ('c, 'q, 'x, 'o) Impl \<Rightarrow> 'x" where
  "executors_ended ops b i =
     fold (\<lambda>r. ex_end ops r b) (arr_data (im_executors i) @ (if im_inlineDispatch i then [InlineRef] else [])) (im_x i)"

lemma stopExecutors_ends: "im_x (stopExecutors ops b i) = executors_ended ops b i"
  by (simp add: stopExecutors_def executors_ended_def Let_def)

lemma stopExecutors_simps [simp]:
  "arr_data (im_executors (stopExecutors ops b i)) = []" "\<not> im_inlineDispatch (stopExecutors ops b i)"
  "im_service (stopExecutors ops b i) = im_service i" "im_config (stopExecutors ops b i) = im_config i"
  "im_externalExecutors (stopExecutors ops b i) = im_externalExecutors i"
  "im_eventQueue (stopExecutors ops b i) = im_eventQueue i" "im_manualCore (stopExecutors ops b i) = im_manualCore i"
  "im_ntpSyncListenerId (stopExecutors ops b i) = im_ntpSyncListenerId i"
  by (simp_all add: stopExecutors_def arr_clear_def Let_def)

lemma close_runtime_simps [simp]:
  "im_service (close_runtime b i) = im_service i" "im_config (close_runtime b i) = im_config i"
  "im_externalExecutors (close_runtime b i) = im_externalExecutors i"
  "im_eventQueue (close_runtime b i) = im_eventQueue i" "im_manualCore (close_runtime b i) = im_manualCore i"
  "im_ntpSyncListenerId (close_runtime b i) = im_ntpSyncListenerId i"
  "executors_ended ops w (close_runtime b i) = executors_ended ops w i"
  by (simp_all add: close_runtime_def executors_ended_def)

lemma unregister_simps [simp]:
  "im_ntpSyncListenerId (unregisterTimeSyncListener i) = 0" "im_config (unregisterTimeSyncListener i) = im_config i"
  "im_externalExecutors (unregisterTimeSyncListener i) = im_externalExecutors i"
  "im_eventQueue (unregisterTimeSyncListener i) = im_eventQueue i"
  "im_manualCore (unregisterTimeSyncListener i) = im_manualCore i"
  "im_service (unregisterTimeSyncListener i) = None \<longleftrightarrow> im_service i = None"
  "executors_ended ops b (unregisterTimeSyncListener i) = executors_ended ops b i"
  by (simp_all add: unregisterTimeSyncListener_def resetTimeContextTracking_def store_refresh_flag_def executors_ended_def)

lemma background_command_total:
  assumes "fifo_queue cq items depth"
  shows "\<exists>r s' k' m' h'. executeBackgroundCommand cq date cmd a responds s k m h = Some (r, s', k', m', h')"
proof -
  have d: "\<exists>s' k' m'. drainCommands cq date k m s = Some (s', k', m')" for s :: "('a, 'b, 'c) SchedulerService" and k m
  proof (cases "ss_commandQueue s")
    case (Some q)
    then show ?thesis
      using command_loop_fold [OF assms, of date q "(ss_core s, k, m)"] by (auto simp: drainCommands_def split: prod.splits) (metis prod_cases3)
  qed (simp add: drainCommands_def)
  obtain s1 k1 m1 where "(if responds then drainCommands cq date k (m(a \<mapsto> newCommand cmd)) (snd (send cq (Some a) s))
      else Some (snd (send cq (Some a) s), k, m(a \<mapsto> newCommand cmd))) = Some (s1, k1, m1)"
    using d [of k "m(a \<mapsto> newCommand cmd)" "snd (send cq (Some a) s)"] by (cases responds) auto
  then show ?thesis
    by (auto simp: executeBackgroundCommand_def Let_def case_prod_unfold split: option.splits)
qed

lemma end_background_total:
  assumes "fifo_queue cq items depth"
  shows "\<exists>i' k' m'. end_background cq date os ops b a responds exited env s k m i = Some (i', k', m') \<and>
    im_service i' = None \<and> arr_data (im_executors i') = [] \<and> \<not> im_inlineDispatch i' \<and> im_manualCore i' = im_manualCore i \<and>
    im_eventQueue i' = im_eventQueue i \<and> im_ntpSyncListenerId i' = im_ntpSyncListenerId i \<and> same_setup i i' \<and>
    im_x i' = executors_ended ops b i"
proof -
  obtain r s1 k1 m1 h1 where x: "executeBackgroundCommand cq date CancelAllCommand a responds s k m (im_heap i) =
      Some (r, s1, k1, m1, h1)" using background_command_total [OF assms] by blast
  obtain s2 m2 where "stop cq os exited m1 (if b then env s1 else s1) = Some (s2, m2)"
    using stop_total [OF assms, of os exited m1 "if b then env s1 else s1"] by blast
  with x show ?thesis by (simp add: end_background_def Let_def same_setup_def stopExecutors_ends) (simp add: executors_ended_def)
qed

lemma end_manual_total:
  assumes "fifo_queue eq items depth" "im_service i = None"
  shows "\<exists>i'. end_manual eq date ops b rounds k i = Some i' \<and>
    im_service i' = None \<and> arr_data (im_executors i') = [] \<and> \<not> im_inlineDispatch i' \<and> im_eventQueue i' = None \<and>
    im_ntpSyncListenerId i' = im_ntpSyncListenerId i \<and> same_setup i i' \<and>
    (core_inv (im_manualCore i) \<longrightarrow>
      core_inv (im_manualCore i') \<and> no_jobs (im_manualCore i') \<and> im_x i' = executors_ended ops b i)"
proof -
  let ?i = "i\<lparr>im_manualCore := snd (cancelAll (im_manualCore i))\<rparr>"
  obtain i1 where i1: "(if b then await_manual eq date ops rounds k ?i else Some ?i) = Some i1" "only_core ?i i1"
    using await_manual_total [OF assms(1), of date ops rounds k ?i] by (cases b) auto
  have "executors_ended ops b i1 = executors_ended ops b i" if "im_x i1 = im_x i"
    using i1(2) that by (simp add: only_core_def setting_def executors_ended_def)
  then show ?thesis
    using i1 assms(2) cancelAll_inv [of "im_manualCore i"] cancelAll_no_jobs [of "im_manualCore i"]
    by (auto simp: end_manual_def Let_def only_core_def setting_def same_setup_def stopExecutors_ends)
qed

lemma end_total:
  assumes "fifo_queue cq items depth" "fifo_queue eq events edepth" "im_started i" "modes_apart i"
  shows "\<exists>i' k' m'. scheduler_end cq eq date os ops su b k m i = Some (i', k', m') \<and> stopped i' \<and> same_setup i i' \<and>
    (core_inv (im_manualCore i) \<longrightarrow> im_x i' = executors_ended ops b i \<and>
      (cfg_mode (im_config i) \<noteq> Background \<longrightarrow> job_map (im_manualCore i') = Map.empty))"
proof -
  have x: "executors_ended ops b (i\<lparr>im_draining := True\<rparr>) = executors_ended ops b i" by (simp add: executors_ended_def)
  let ?i = "unregisterTimeSyncListener (i\<lparr>im_draining := True\<rparr>)"
  show ?thesis
  proof (cases "cfg_mode (im_config i) = Background \<and> im_service i \<noteq> None")
    case True
    then obtain s where s: "im_service ?i = Some s" "cfg_mode (im_config i) = Background" by fastforce
    obtain i' k' m' where "end_background cq date os ops b (su_address su) (su_responds su) (su_exited su) (su_env su) s k m ?i =
        Some (i', k', m')" "im_service i' = None" "arr_data (im_executors i') = []" "\<not> im_inlineDispatch i'"
        "im_eventQueue i' = None" "im_ntpSyncListenerId i' = 0" "same_setup ?i i'" "im_x i' = executors_ended ops b ?i"
      using end_background_total [OF assms(1), of date os ops b "su_address su" "su_responds su" "su_exited su" "su_env su" s k m ?i]
        assms(4) s(2) by (auto simp: modes_apart_def)
    then show ?thesis
      using s assms(3) x by (simp add: scheduler_end_def Let_def end_finish_def stopped_def same_setup_def)
  next
    case False
    then have n: "im_service ?i = None" using assms(4) by (auto simp: modes_apart_def split: if_splits)
    obtain i' where "end_manual eq date ops b (su_rounds su) k ?i = Some i'" "im_service i' = None"
        "arr_data (im_executors i') = []" "\<not> im_inlineDispatch i'" "im_eventQueue i' = None"
        "im_ntpSyncListenerId i' = 0" "same_setup ?i i'" 
        "core_inv (im_manualCore i) \<longrightarrow>
          core_inv (im_manualCore i') \<and> no_jobs (im_manualCore i') \<and> im_x i' = executors_ended ops b ?i"
      using end_manual_total [OF assms(2) n, of date ops b "su_rounds su" k] by auto
    moreover from this(1) have "scheduler_end cq eq date os ops su b k m i = Some (end_finish i', k, m)"
      using assms(3) by (simp add: scheduler_end_def Let_def n)
    ultimately show ?thesis
      using no_jobs_map [of "im_manualCore i'"] x by (simp add: end_finish_def stopped_def same_setup_def)
  qed
qed

text \<open>
  C18: \<^verbatim>\<open>end\<close> of a started scheduler returns, whatever the service and the executors do meanwhile, and
  leaves it at rest: no service, no queue, no executor and no listener is left; the configuration
  and the registered executors are kept. \<^verbatim>\<open>end\<close> of every executor was called once, in the order of their ids and
  the one of inline jobs last. In manual mode no job is left either.
\<close>

theorem end_stops_everything:
  assumes "fifo_queue cq items depth" "fifo_queue eq events edepth" "im_started i" "modes_apart i"
    and "core_inv (im_manualCore i)"
  shows "\<exists>i' k' m'. scheduler_end cq eq date os ops su b k m i = Some (i', k', m') \<and> stopped i' \<and>
    im_config i' = im_config i \<and> im_externalExecutors i' = im_externalExecutors i \<and>
    im_x i' = fold (\<lambda>r. ex_end ops r b)
      (arr_data (im_executors i) @ (if im_inlineDispatch i then [InlineRef] else [])) (im_x i) \<and>
    (cfg_mode (im_config i) \<noteq> Background \<longrightarrow> job_map (im_manualCore i') = Map.empty)"
  using end_total [OF assms(1-4), of date os ops su b k m] assms(5) unfolding same_setup_def executors_ended_def by blast

section \<open>Begin\<close>

lemma push_executors_data:
  "push_executors rs a h = (ok, a', h') \<Longrightarrow> ok \<Longrightarrow> arr_data a' = arr_data a @ rs"
proof (induction rs arbitrary: a h)
  case (Cons r rs)
  obtain ok1 a1 h1 where p: "pushBack r a h = (ok1, a1, h1)" by (metis prod_cases3)
  show ?case using pushBack_cases [OF p] Cons p by (auto split: if_splits)
qed simp

text \<open>
  \<^verbatim>\<open>begin\<close> of each executor of a list was called, in order, and succeeded; \<open>x'\<close> is the state of the executors after
  the last call.
\<close>

definition all_began :: "'x ExecutorOps \<Rightarrow> ExecutorRef list \<Rightarrow> 'x \<Rightarrow> 'x \<Rightarrow> bool" where
  "all_began ops rs x x' \<longleftrightarrow> x' = fold (\<lambda>r x. snd (ex_begin ops r x)) rs x \<and>
     (\<forall>n<length rs. fst (ex_begin ops (rs ! n) (fold (\<lambda>r x. snd (ex_begin ops r x)) (take n rs) x)))"

lemma all_began_Nil [simp]: "all_began ops [] x x' \<longleftrightarrow> x' = x"
  by (simp add: all_began_def)

lemma all_began_Cons [simp]:
  "all_began ops (r # rs) x x' \<longleftrightarrow> fst (ex_begin ops r x) \<and> all_began ops rs (snd (ex_begin ops r x)) x'"
  by (auto simp: all_began_def All_less_Suc2)

lemma begin_executors_all: "begin_executors ops rs x = (True, x') \<Longrightarrow> all_began ops rs x x'"
  by (induction rs arbitrary: x) (auto simp: split_beta Let_def split: if_splits)

definition executors_of :: "('c, 'q, 'x, 'o) Impl \<Rightarrow> ExecutorRef list" where
  "executors_of i = async_ref (im_config i) # DedicatedRef # arr_data (im_externalExecutors i)"

text \<open>The part of the scheduler that starting its executors does not touch.\<close>

lemma startExecutors_total:
  obtains ok i' where "startExecutors ops i = (ok, i')" "same_setup i i'" "im_service i' = im_service i"
    "im_eventQueue i' = im_eventQueue i" "im_runtime i' = im_runtime i" "im_started i' = im_started i"
    "im_draining i' = im_draining i" "im_ntpSyncListenerId i' = im_ntpSyncListenerId i" "im_manualCore i' = im_manualCore i"
    "ok \<longrightarrow> im_inlineDispatch i' \<and> arr_data (im_executors i') = executors_of i \<and>
      all_began ops (InlineRef # executors_of i) (im_x i) (im_x i')"
proof -
  obtain ok i' where e: "startExecutors ops i = (ok, i')" by fastforce
  have "same_setup i i' \<and> im_service i' = im_service i \<and>
    im_eventQueue i' = im_eventQueue i \<and> im_runtime i' = im_runtime i \<and> im_started i' = im_started i \<and>
    im_draining i' = im_draining i \<and> im_ntpSyncListenerId i' = im_ntpSyncListenerId i \<and> im_manualCore i' = im_manualCore i"
    using e by (auto simp: startExecutors_def same_setup_def Let_def split: prod.splits if_splits)
  moreover have "im_inlineDispatch i' \<and> arr_data (im_executors i') = executors_of i \<and>
      all_began ops (InlineRef # executors_of i) (im_x i) (im_x i')" if "ok"
    using e that push_executors_data [of "executors_of i" "arr_clear (im_executors i)"] begin_executors_all
    by (auto simp: startExecutors_def Let_def arr_clear_def executors_of_def [symmetric]
        simp del: push_executors.simps begin_executors.simps split: prod.splits if_splits)
  ultimately show thesis using that e by blast
qed

text \<open>The service has its queues, its queue set and its task.\<close>

definition service_up :: "('c, 'q, 'o) SchedulerService \<Rightarrow> bool" where
  "service_up s \<longleftrightarrow> ss_started s \<and> ss_commandQueue s \<noteq> None \<and> ss_eventQueue s \<noteq> None \<and> ss_queueSet s \<and> ss_task s \<noteq> None"

lemma service_begin_up:
  assumes "service_begin cq eq os exited m s = Some (True, s', m')" "\<not> ss_started s"
  shows "service_up s'"
  using assms by (auto simp: service_begin_def service_up_def Let_def split_beta split: if_splits)

lemma service_begin_total:
  assumes "fifo_queue cq items depth"
  shows "\<exists>ok s' m'. service_begin cq eq os exited m s = Some (ok, s', m')"
proof -
  have "stop cq os exited m s \<noteq> None" for s :: "('a, 'b, 'c) SchedulerService" and m
    using stop_total [OF assms, of os exited m s] by auto
  then have "service_begin cq eq os exited m s \<noteq> None"
    unfolding service_begin_def Let_def case_prod_unfold by (simp del: not_None_eq split: if_split)
  then show ?thesis by auto
qed

lemma open_events_total:
  assumes "fifo_queue cq items depth" "im_service i = None" "im_eventQueue i = None" "im_runtime i = Some r"
  shows "\<exists>ok i' m'. open_events recordSize cq eq os exited o1 m i = Some (ok, i', m') \<and> same_setup i i' \<and>
    im_started i' = im_started i \<and> im_draining i' = im_draining i \<and> im_ntpSyncListenerId i' = im_ntpSyncListenerId i \<and>
    im_executors i' = im_executors i \<and> im_inlineDispatch i' = im_inlineDispatch i \<and> im_manualCore i' = im_manualCore i \<and>
    im_x i' = im_x i \<and>
    (ok \<longrightarrow> (if cfg_mode (im_config i) = Background then \<exists>s. im_service i' = Some s \<and> service_up s else im_service i' = None) \<and>
      (im_eventQueue i' = None \<longleftrightarrow> cfg_mode (im_config i) = Background) \<and> im_runtime i' = Some (r\<lparr>rt_eventQueue := True\<rparr>)) \<and>
    (\<not> ok \<longrightarrow> im_service i' = None \<and> im_eventQueue i' = None \<and> im_runtime i' = None)"
proof (cases "cfg_mode (im_config i) = Background")
  case True
  let ?h = "snd (new_object (im_heap i))"
  obtain ok s m' where s: "service_begin cq eq os exited m (newService (cfg_service (im_config i))
      (newCore recordSize (cfg_minValidEpochSeconds (im_config i)) (cfg_usePSRAMMetadata (im_config i)) ?h)
      (im_refreshRequested i) ?h o1) = Some (ok, s, m')" using service_begin_total [OF assms(1)] by blast
  then have "ok \<Longrightarrow> service_up s" using service_begin_up by (fastforce simp: newService_def)
  then show ?thesis
    using assms(2-4) True s
    by (cases "fst (new_object (im_heap i))"; cases ok)
      (auto simp: open_events_def Let_def case_prod_unfold same_setup_def)
next
  case False
  then show ?thesis
    using assms(2-4)
    by (cases "fst (xQueueCreate eq (svc_eventQueueDepth (cfg_service (im_config i))) (im_heap i))")
      (auto simp: open_events_def Let_def case_prod_unfold same_setup_def)
qed

lemma begin_total:
  assumes "fifo_queue cq items depth" "fifo_queue eq events edepth" "stopped i"
  shows "\<exists>ok i' k' m'. scheduler_begin recordSize cq eq date os ops su o1 k m i = Some (ok, i', k', m') \<and>
    (if ok
     then running i' \<and> im_inlineDispatch i' \<and> arr_data (im_executors i') = executors_of i \<and>
       all_began ops (InlineRef # executors_of i) (im_x i) (im_x i') \<and>
       im_ntpSyncListenerId i' = su_listener su \<and> su_listener su \<noteq> 0 \<and>
       im_runtime i' = Some \<lparr>rt_accepting = True, rt_eventQueue = True\<rparr> \<and>
       (if cfg_mode (im_config i) = Background then \<exists>s. im_service i' = Some s \<and> service_up s else im_service i' = None) \<and>
       (im_eventQueue i' = None \<longleftrightarrow> cfg_mode (im_config i) = Background)
     else stopped i') \<and> same_setup i i'"
proof -
  let ?i = "i\<lparr>im_runtime := Some \<lparr>rt_accepting = True, rt_eventQueue = False\<rparr>\<rparr>"
  have st: "\<not> im_started i" "im_service ?i = None" "im_eventQueue ?i = None"
    and rt: "im_runtime ?i = Some \<lparr>rt_accepting = True, rt_eventQueue = False\<rparr>"
    using assms(3) by (simp_all add: stopped_def)
  obtain ok1 i1 m1 where o: "open_events recordSize cq eq os (su_exited su) o1 m ?i = Some (ok1, i1, m1)"
    "same_setup ?i i1" "im_started i1 = im_started i" "im_draining i1 = im_draining i"
    "im_ntpSyncListenerId i1 = im_ntpSyncListenerId i" "im_executors i1 = im_executors i"
    "im_inlineDispatch i1 = im_inlineDispatch i" "im_x i1 = im_x i"
    "ok1 \<longrightarrow> (if cfg_mode (im_config i) = Background then \<exists>s. im_service i1 = Some s \<and> service_up s else im_service i1 = None) \<and>
      (im_eventQueue i1 = None \<longleftrightarrow> cfg_mode (im_config i) = Background) \<and>
      im_runtime i1 = Some \<lparr>rt_accepting = True, rt_eventQueue = True\<rparr>"
    "\<not> ok1 \<longrightarrow> im_service i1 = None \<and> im_eventQueue i1 = None \<and> im_runtime i1 = None"
    using open_events_total [OF assms(1) st(2,3) rt, of recordSize eq os "su_exited su" o1 m] by - (elim exE conjE, rule that, simp_all)
  show ?thesis
  proof (cases ok1)
    case False
    then have "stopped i1" using o assms(3) by (simp add: stopped_def)
    moreover have "scheduler_begin recordSize cq eq date os ops su o1 k m i = Some (False, i1, k, m1)"
      using st(1) o(1) False by (simp add: scheduler_begin_def)
    ultimately show ?thesis using o(2) by (auto simp: same_setup_def)
  next
    case True
    obtain ok2 i2 where x: "startExecutors ops (i1\<lparr>im_started := True\<rparr>) = (ok2, i2)" "same_setup (i1\<lparr>im_started := True\<rparr>) i2"
      "im_service i2 = im_service i1" "im_eventQueue i2 = im_eventQueue i1" "im_runtime i2 = im_runtime i1" "im_started i2"
      "ok2 \<longrightarrow> im_inlineDispatch i2 \<and> arr_data (im_executors i2) = executors_of i1 \<and>
        all_began ops (InlineRef # executors_of i1) (im_x i1) (im_x i2)"
      by (rule startExecutors_total [of ops "i1\<lparr>im_started := True\<rparr>"], rule that) (simp_all add: executors_of_def)
    have ex: "executors_of i1 = executors_of i" using o(2) by (simp add: executors_of_def same_setup_def)
    define i3 where "i3 = (if ok2 then i2\<lparr>im_ntpSyncListenerId := su_listener su\<rparr> else i2)"
    have m: "im_started i3" "modes_apart i3"
      using x o True by (auto simp: i3_def modes_apart_def same_setup_def split: if_splits)
    show ?thesis
    proof (cases "ok2 \<and> su_listener su \<noteq> 0")
      case True
      have "scheduler_begin recordSize cq eq date os ops su o1 k m i = Some (True, i3\<lparr>im_draining := False\<rparr>, k, m1)"
        using st(1) o(1) \<open>ok1\<close> x(1) True by (simp add: scheduler_begin_def registerTimeSyncListener_def i3_def)
      moreover have "running (i3\<lparr>im_draining := False\<rparr>)" using m by (simp add: running_def)
      ultimately show ?thesis
        using True \<open>ok1\<close> o(2,8,9) x(2-5,7) ex by (auto simp: i3_def same_setup_def)
    next
      case False
      have "scheduler_begin recordSize cq eq date os ops su o1 k m i =
          map_option (\<lambda>r. (False, r)) (scheduler_end cq eq date os ops su False k m1 i3)"
        using st(1) o(1) \<open>ok1\<close> x(1) False by (auto simp: scheduler_begin_def registerTimeSyncListener_def i3_def)
      moreover have "same_setup i i3" using o(2) x(2) by (simp add: i3_def same_setup_def)
      ultimately show ?thesis
        using end_total [OF assms(1,2) m, of date os ops su False k m1] same_setup_trans [of i i3] by auto
    qed
  qed
qed

text \<open>
  C17: \<^verbatim>\<open>begin\<close> of a scheduler at rest returns, and starts everything or nothing: after a success it is
  running and knows the default executors and every registered one under consecutive ids; \<^verbatim>\<open>begin\<close> of each of them, the
  one of inline jobs first, was called in this order and succeeded; the listener is registered, the runtime accepts
  invocations, and there is a service with its queues and its task in background mode, the event queue in manual mode.
  After a failure of any allocation, queue, task, executor or listener it is at rest again.
\<close>

theorem begin_all_or_nothing:
  assumes "fifo_queue cq items depth" "fifo_queue eq events edepth" "stopped i"
  shows "\<exists>ok i' k' m'. scheduler_begin recordSize cq eq date os ops su o1 k m i = Some (ok, i', k', m') \<and>
    (if ok
     then running i' \<and> im_inlineDispatch i' \<and> arr_data (im_executors i') = executors_of i \<and>
       all_began ops (InlineRef # executors_of i) (im_x i) (im_x i') \<and>
       im_ntpSyncListenerId i' = su_listener su \<and> su_listener su \<noteq> 0 \<and>
       im_runtime i' = Some \<lparr>rt_accepting = True, rt_eventQueue = True\<rparr> \<and>
       (if cfg_mode (im_config i) = Background then \<exists>s. im_service i' = Some s \<and> service_up s else im_service i' = None) \<and>
       (im_eventQueue i' = None \<longleftrightarrow> cfg_mode (im_config i) = Background)
     else stopped i')"
  using begin_total [OF assms, of recordSize date os ops su o1 k m] by blast

section \<open>Registered executors\<close>

lemma registerExecutor_cases:
  assumes "registerExecutor (Some r) i = (Inr n, i')"
  shows "n = of_nat (2 + arr_size (im_externalExecutors i)) \<and>
    arr_data (im_externalExecutors i') = arr_data (im_externalExecutors i) @ [r] \<and> (stopped i \<longrightarrow> stopped i')"
proof -
  obtain ok a h where p: "pushBack r (im_externalExecutors i) (im_heap i) = (ok, a, h)" by (metis prod_cases3)
  have e: "\<not> im_started i" "ok" "n = of_nat (2 + arr_size (im_externalExecutors i))"
    "i' = i\<lparr>im_externalExecutors := a, im_heap := h\<rparr>"
    using assms p by (simp_all add: registerExecutor_def Let_def split: if_splits)
  moreover have "arr_data a = arr_data (im_externalExecutors i) @ [r]" using pushBack_cases [OF p] e(2) by blast
  ultimately show ?thesis by (simp add: stopped_def)
qed

text \<open>
  C34: an executor that was registered is found under the id that \<^verbatim>\<open>registerExecutor\<close> returned once the
  scheduler has begun, and the id is not one of a default executor, as long as fewer than 254
  executors are registered.
\<close>

theorem registered_executor_found:
  assumes "fifo_queue cq items depth" "fifo_queue eq events edepth" "stopped i"
    and "arr_size (im_externalExecutors i) < 254" "registerExecutor (Some r) i = (Inr n, i1)"
    and "scheduler_begin recordSize cq eq date os ops su o1 k m i1 = Some (True, i2, k2, m2)"
  shows "impl_executorFor i2 n = Some r \<and> n \<noteq> 0 \<and> n \<noteq> defaultDedicatedExecutor"
proof -
  let ?x = "arr_data (im_externalExecutors i)"
  have 1: "n = of_nat (2 + length ?x)" "arr_data (im_externalExecutors i1) = ?x @ [r]" "stopped i1"
    using registerExecutor_cases [OF assms(5)] assms(3) by (simp_all add: arr_size_def)
  have "unat (of_nat l :: u8) = l" if "l < 256" for l using that by (simp add: unat_of_nat take_bit_nat_eq_self)
  from this [of "2 + length ?x"] have n: "unat n = 2 + length ?x" using assms(4) 1(1) by (simp add: arr_size_def)
  have "arr_data (im_executors i2) = async_ref (im_config i1) # DedicatedRef # (?x @ [r])"
    using begin_total [OF assms(1,2) 1(3), of recordSize date os ops su o1 k m] assms(6) 1(2) by (auto simp: executors_of_def)
  then have "impl_executorFor i2 n = Some r"
    by (simp add: impl_executorFor_def arr_defs n nth_append)
  moreover have "n \<noteq> 0" "n \<noteq> 1" using n by (auto simp: unat_eq_0)
  ultimately show ?thesis by (simp add: defaultDedicatedExecutor_def)
qed

text \<open>The 255th executor is given the id of the default executor: the id is kept in eight bits.\<close>

lemma register_id_wraps:
  assumes "arr_size (im_externalExecutors i) = 254" "registerExecutor (Some r) i = (Inr n, i')"
  shows "n = 0"
proof -
  have "n = of_nat 256" using registerExecutor_cases [OF assms(2)] assms(1) by simp
  then show ?thesis by simp
qed

section \<open>Tick\<close>


section \<open>Witnesses\<close>

lemma sample_rest_stopped: "stopped (sample_rest mode)"
  by (simp add: stopped_def sample_defs)

theorem stop_answers_everyone_witness:
  "\<exists>s' m'. stop list_queue counting_os True [7 \<mapsto> newCommand (CancelJobCommand 1)] sample_service = Some (s', m') \<and>
     map_option co_signaled (m' 7) = Some True"
proof -
  let ?c = "newCommand (CancelJobCommand 1)"
  obtain s' m' where "stop list_queue counting_os True [7 \<mapsto> ?c] sample_service = Some (s', m')"
    "map m' (addresses (snd (4, [Some 7, None]))) = map (\<lambda>c. if co_abandoned c then None else Some (co_signal c)) [?c]"
    using stop_answers_everyone [OF list_queue_fifo, where s = sample_service and q = "(4, [Some 7, None])" and cs = "[?c]"
        and m = "[7 \<mapsto> ?c]" and os = counting_os and exited = True] by auto
  then show ?thesis by (simp add: newCommand_def co_signal_def)
qed

theorem end_stops_everything_witness:
  "\<exists>i' k' m'. scheduler_end list_queue list_queue utc_date counting_os sample_ops sample_surroundings True
     (\<lambda>n. epochDate) Map.empty sample_manual = Some (i', k', m') \<and> stopped i' \<and> job_map (im_manualCore i') = Map.empty"
  using end_stops_everything [OF list_queue_fifo list_queue_fifo, where i = sample_manual and date = utc_date
      and os = counting_os and ops = sample_ops and su = sample_surroundings and b = True and k = "\<lambda>n. epochDate"
      and m = Map.empty] sample_core_inv
  by (auto simp: modes_apart_def sample_manual_def sample_rest_def sample_config_def newScheduler_def)

theorem begin_all_or_nothing_witness:
  "\<exists>ok i' k' m'. scheduler_begin 200 list_queue list_queue utc_date counting_os sample_ops sample_surroundings 0
     (\<lambda>n. epochDate) Map.empty (sample_rest Background) = Some (ok, i', k', m') \<and> (if ok then running i' else stopped i')"
  using begin_all_or_nothing [OF list_queue_fifo list_queue_fifo sample_rest_stopped [of Background], of 200 utc_date
      counting_os sample_ops sample_surroundings 0 "\<lambda>n. epochDate" Map.empty] by (auto split: if_splits)


theorem registered_executor_found_witness:
  "\<exists>i1 i2 k2 m2. registerExecutor (Some (ExternalRef 3)) (sample_rest Manual) = (Inr 2, i1) \<and>
     scheduler_begin 200 list_queue list_queue utc_date counting_os sample_ops sample_surroundings 0 (\<lambda>n. epochDate)
       Map.empty i1 = Some (True, i2, k2, m2) \<and> impl_executorFor i2 2 = Some (ExternalRef 3)"
proof -
  obtain i1 where r: "registerExecutor (Some (ExternalRef 3)) (sample_rest Manual) = (Inr 2, i1)"
    by (simp add: registerExecutor_def sample_defs exec)
  obtain i2 k2 m2 where b: "scheduler_begin 200 list_queue list_queue utc_date counting_os sample_ops sample_surroundings 0
      (\<lambda>n. epochDate) Map.empty i1 = Some (True, i2, k2, m2)"
    using r by (auto simp: scheduler_begin_def open_events_def startExecutors_def registerTimeSyncListener_def
        registerExecutor_def new_object_def async_ref_def arr_clear_def list_queue_def sample_defs exec)
  have s: "arr_size (im_externalExecutors (sample_rest Manual)) < 254" by (simp add: sample_defs arr_size_def)
  show ?thesis
    using registered_executor_found [OF list_queue_fifo list_queue_fifo sample_rest_stopped s r b] r b by blast
qed

end
