(* ===== verification/Service_Task.thy ===== *)
theory Service_Task
  imports Facade_Life
begin

text \<open>
  The life of the service's task: its loop ends once \<^verbatim>\<open>stop\<close> is requested and keeps the core
  consistent until then, and how the end of the task meets \<^verbatim>\<open>stop\<close>.
\<close>

section \<open>The end of the task and stop\<close>

text \<open>
  When the task has finished before \<^verbatim>\<open>stop\<close> looks, \<^verbatim>\<open>stop\<close> does not delete a task again: it leaves
  the system as the task left it.
\<close>

lemma stop_after_exit:
  "stop cq os exited m s = Some (s', m') \<Longrightarrow> ss_task s = None \<or> exited \<Longrightarrow>
   ss_os s' = ss_os s \<and> (ss_task s \<noteq> None \<longrightarrow> \<not> ss_taskCreatedWithCaps s')"
  by (auto simp: stop_def send_def Let_def case_prod_unfold split: option.splits if_splits)

section \<open>The loop\<close>

text \<open>
  What the loop relies on while it waits: the other tasks leave the core alone and put at most as
  many commands into the queue as it has room for, here \<open>d\<close>. Where jobs are planned from an instant after the epoch,
  they do not add jobs.
\<close>

definition keeps_off :: "('c \<Rightarrow> nat option list) \<Rightarrow> nat \<Rightarrow> int \<Rightarrow> ('c, 'q, 'o, 'e) surroundings \<Rightarrow> bool" where
  "keeps_off items d lo others \<longleftrightarrow> (\<forall>n wait s e m. let (s', e', m') = others n wait (s, e, m) in
     ss_core s' = ss_core s \<and> (length (queued items s) \<le> d \<longrightarrow> length (queued items s') \<le> d) \<and>
     (addable lo m \<longrightarrow> addable lo m'))"

definition requests_stop :: "nat \<Rightarrow> ('c, 'q, 'o, 'e) surroundings \<Rightarrow> bool" where
  "requests_stop n others \<longleftrightarrow> (\<forall>wait s e m. ss_stopRequested (fst (others n wait (s, e, m))))"

lemma keeps_off_later: "keeps_off items d lo others \<Longrightarrow> keeps_off items d lo (\<lambda>n. others (Suc n))"
  unfolding keeps_off_def by blast

lemma service_run_round:
  assumes "fifo_queue cq items depth" "fifo_queue eq events edepth" "steady_period date lo hi"
    and "keeps_off items d lo others" "well_timed lo hi (ss_core s) k" "addable lo m"
    and "length (queued items s) \<le> d" "room (d + n) (ss_core s)" "\<not> ss_stopRequested s"
  obtains wait t e' k' m' s' where
    "service_run cq eq date pdMS_TO_TICKS ex others e k m s =
       service_run cq eq date pdMS_TO_TICKS ex (\<lambda>n. others (Suc n)) e' k' m' s'"
    "others 0 wait t = (s', e', m')" "well_timed lo hi (ss_core s') k'" "addable lo m'"
    "length (queued items s') \<le> d" "room n (ss_core s')"
proof -
  have "room (length (queued items s) + n) (ss_core s)" using assms(7,8) by (simp add: room_def)
  from service_round_total [OF assms(1-3,5) this assms(6), of pdMS_TO_TICKS ex e]
  obtain s1 e1 k1 m1 w where r: "service_round cq eq date pdMS_TO_TICKS ex e k m s = Some (s1, e1, k1, m1, w)"
      "well_timed lo hi (ss_core s1) k1" "addable lo m1" "room n (ss_core s1)" "queued items s1 = []" by blast
  obtain s2 e2 m2 where o2: "others 0 (if ss_queueSet s1 then w else 0) (s1, e1, m1) = (s2, e2, m2)"
    by (metis prod_cases3)
  have "ss_core s2 = ss_core s1" "length (queued items s1) \<le> d \<longrightarrow> length (queued items s2) \<le> d" "addable lo m1 \<longrightarrow> addable lo m2"
    using assms(4) [unfolded keeps_off_def, rule_format, of 0 "if ss_queueSet s1 then w else 0" s1 e1 m1] o2 by simp_all
  moreover have "service_run cq eq date pdMS_TO_TICKS ex others e k m s =
      service_run cq eq date pdMS_TO_TICKS ex (\<lambda>n. others (Suc n)) e2 k1 m2 s2"
    using assms(9) r(1) o2 by (subst service_run.simps) simp
  ultimately show thesis using that o2 r by simp
qed

lemma requests_stopD: "requests_stop 0 others \<Longrightarrow> others 0 wait t = (s, e, m) \<Longrightarrow> ss_stopRequested s"
  unfolding requests_stop_def by (metis fst_conv prod_cases3)

lemma service_run_stops:
  assumes "fifo_queue cq items depth" "fifo_queue eq events edepth" "steady_period date lo hi"
    and "keeps_off items d lo others" "requests_stop n others" "well_timed lo hi (ss_core s) k" "addable lo m"
    and "length (queued items s) \<le> d" "room (d * Suc n) (ss_core s)"
  shows "\<exists>s' e' k' m'. service_run cq eq date pdMS_TO_TICKS ex others e k m s = Some (s', e', k', m') \<and>
    ss_stopRequested s' \<and> core_inv (ss_core s')"
  using assms(4-)
proof (induction n arbitrary: others e k m s)
  case 0
  show ?case
  proof (cases "ss_stopRequested s")
    case False
    have "room (d + 0) (ss_core s)" using 0(6) by simp
    from service_run_round [OF assms(1-3) 0(1,3-5) this False, of pdMS_TO_TICKS ex e]
    obtain wait t e' k' m' s' where "service_run cq eq date pdMS_TO_TICKS ex others e k m s =
        service_run cq eq date pdMS_TO_TICKS ex (\<lambda>n. others (Suc n)) e' k' m' s'"
      "others 0 wait t = (s', e', m')" "well_timed lo hi (ss_core s') k'" by metis
    with requests_stopD [OF 0(2)] well_timed_now(4) show ?thesis by (simp add: service_run.simps [where s = s'])
  qed (use well_timed_now(4) [OF 0(3)] in \<open>simp add: service_run.simps\<close>)
next
  case (Suc n)
  show ?case
  proof (cases "ss_stopRequested s")
    case False
    have "room (d + d * Suc n) (ss_core s)" using Suc.prems(6) by simp
    from service_run_round [OF assms(1-3) Suc.prems(1,3-5) this False, of pdMS_TO_TICKS ex e]
    obtain e' k' m' s' where "service_run cq eq date pdMS_TO_TICKS ex others e k m s =
        service_run cq eq date pdMS_TO_TICKS ex (\<lambda>n. others (Suc n)) e' k' m' s'"
      "well_timed lo hi (ss_core s') k'" "addable lo m'" "length (queued items s') \<le> d" "room (d * Suc n) (ss_core s')" by metis
    moreover have "requests_stop n (\<lambda>n. others (Suc n))" using Suc.prems(2) unfolding requests_stop_def .
    ultimately show ?thesis using Suc.IH [OF keeps_off_later [OF Suc.prems(1)]] by simp
  qed (use well_timed_now(4) [OF Suc.prems(3)] in \<open>simp add: service_run.simps\<close>)
qed


section \<open>A race\<close>

text \<open>
  Between the announcement and the last two uses of the service, \<^verbatim>\<open>stop\<close> may run to its end. A task
  with a stack in external memory is then deleted as an ordinary one, because \<^verbatim>\<open>stop\<close> has reset the
  flag; and in the facade the service is freed after \<^verbatim>\<open>stop\<close>, so that both uses are of a dead object.
\<close>

lemma exit_announced_early:
  assumes "ss_taskCreatedWithCaps s" "ss_task s = Some self"
    and "stop cq os True m (announce_exit s) = Some (s', m')" "canUseExternalStacks os"
  shows "ss_os (leave_service os self s') = vTaskDelete os self (ss_os s)"
    "ss_os (leave_service os self (announce_exit s)) = vTaskDeleteWithCaps os self (ss_os s)"
proof -
  have "ss_os s' = ss_os s \<and> \<not> ss_taskCreatedWithCaps s'"
    using stop_after_exit [OF assms(3)] assms(2) by (simp add: announce_exit_def)
  then show "ss_os (leave_service os self s') = vTaskDelete os self (ss_os s)"
    by (simp add: leave_service_def deleteCurrentTask_def Let_def)
  show "ss_os (leave_service os self (announce_exit s)) = vTaskDeleteWithCaps os self (ss_os s)"
    using assms(1,4) by (simp add: leave_service_def announce_exit_def deleteCurrentTask_def Let_def)
qed

section \<open>Destruction\<close>

text \<open>
  \<^verbatim>\<open>end\<close> stops the service and then destroys it: by then the destructor has nothing left to do.
\<close>

lemma destroyService_after_stop:
  assumes "fifo_queue cq items depth" "stop cq os exited m s = Some (s', m')"
  shows "destroyService cq os exited' m' s' = Some m'"
  using stop_total [OF assms(1), of os exited m s] assms(2) by (auto simp: destroyService_def stop_def)

text \<open>
  Destroying a scheduler that runs, or that rests, ends and releases its service, its executors and
  its event queue.
\<close>

lemma destroyScheduler_releases:
  assumes "fifo_queue cq items depth" "fifo_queue eq events edepth" "if im_started i then modes_apart i else stopped i"
  shows "\<exists>i' m'. destroyScheduler cq eq date os ops su k m (Some i) = Some (Some i', m') \<and> stopped i'"
proof -
  obtain i' k' m' where e: "scheduler_end cq eq date os ops su True k m i = Some (i', k', m')" "stopped i'"
  proof (cases "im_started i")
    case True
    then show thesis using that end_total [OF assms(1,2) True, of date os ops su True k m] assms(3) by auto
  qed (use that assms(3) in \<open>simp add: scheduler_end_def\<close>)
  then have "destroyImpl cq os (su_exited su) m' i' = Some (i', m')" by (simp add: destroyImpl_def stopped_def)
  with e show ?thesis by (simp add: destroyScheduler_def)
qed

section \<open>Witness\<close>

text \<open>Others that request a stop during the first wait.\<close>

definition stop_at_once :: "('c, 'q, 'o, 'e) surroundings" where
  "stop_at_once n wait sem = (case sem of (s, e, m) \<Rightarrow> (s\<lparr>ss_stopRequested := True\<rparr>, e, m))"

lemma stop_at_once_behaves: "keeps_off items d lo stop_at_once" "requests_stop n stop_at_once"
  by (simp_all add: keeps_off_def requests_stop_def stop_at_once_def queued_def)


end
