(* ===== verification/Worker_Start.thy ===== *)
theory Worker_Start
  imports Executors
begin

text \<open>
  How a worker of the pool gets its context. \<^verbatim>\<open>WorkerPoolExecutor::begin\<close> allocates a
  \<^verbatim>\<open>WorkerContext\<close>, hands it to the task it creates and writes to it once more afterwards;
  \<^verbatim>\<open>workerTaskEntry\<close> reads the two fields and frees the object. The theory follows one context through
  the interleavings of the two: without an assumption on the scheduler of the system the object is
  freed at most once but may be written after that; it is used as intended when the new task
  does not run before \<^verbatim>\<open>begin\<close> has recorded the flag.
\<close>

section \<open>The two parties\<close>

text \<open>
  Where \<^verbatim>\<open>begin\<close> stands in one round of its loop; \<open>Creator_Has c\<close> is the position between
  \<^verbatim>\<open>createTaskPinned\<close> and the write of the flag, with \<open>c\<close> the value of the local \<^verbatim>\<open>createdWithCaps\<close>.
\<close>

datatype creator_pc = Allocated | Creator_Has bool | Recorded bool | CreatorDone | CreatorFailed

text \<open>Where the worker stands; \<open>HasFlag\<close> and later positions carry its copy of the flag.\<close>

datatype worker_pc = NoTask | Entered | HasOwner | HasFlag bool | Serving bool | WorkerGone bool | Killed

text \<open>
  \<open>ws_frees\<close> counts the calls of \<^verbatim>\<open>delete\<close> on the context, \<open>ws_fault\<close> records an access to it after
  the first of them. \<open>ws_caps\<close> says whether the task was created with capabilities, once there is one.
\<close>

record worker_start =
  ws_creator :: creator_pc
  ws_worker :: worker_pc
  ws_flag :: bool
  ws_caps :: "bool option"
  ws_frees :: nat
  ws_fault :: bool

definition fresh_context :: worker_start where
  "fresh_context = \<lparr>ws_creator = Allocated, ws_worker = NoTask, ws_flag = False, ws_caps = None,
     ws_frees = 0, ws_fault = False\<rparr>"

definition ws_touch :: "worker_start \<Rightarrow> worker_start" where
  "ws_touch s = s\<lparr>ws_fault := (ws_fault s \<or> ws_frees s > 0)\<rparr>"

definition ws_delete :: "worker_start \<Rightarrow> worker_start" where
  "ws_delete s = (ws_touch s)\<lparr>ws_frees := ws_frees s + 1\<rparr>"

text \<open>
  One round of the loop in \<^verbatim>\<open>begin\<close>: the task is refused and the context freed, or it exists, the flag
  is written, and the handle is stored; if the array of workers cannot grow the task is deleted
  wherever it stands.
\<close>

inductive creator_step :: "worker_start \<Rightarrow> worker_start \<Rightarrow> bool" where
  task_refused: "ws_creator s = Allocated \<Longrightarrow> creator_step s ((ws_delete s)\<lparr>ws_creator := CreatorFailed\<rparr>)"
| task_created: "ws_creator s = Allocated \<Longrightarrow>
    creator_step s (s\<lparr>ws_creator := Creator_Has c, ws_caps := Some c, ws_worker := Entered\<rparr>)"
| record_flag: "ws_creator s = Creator_Has c \<Longrightarrow>
    creator_step s ((ws_touch s)\<lparr>ws_flag := c, ws_creator := Recorded c\<rparr>)"
| stored: "ws_creator s = Recorded c \<Longrightarrow> creator_step s (s\<lparr>ws_creator := CreatorDone\<rparr>)"
| not_stored: "ws_creator s = Recorded c \<Longrightarrow>
    creator_step s (s\<lparr>ws_creator := CreatorFailed, ws_worker := Killed\<rparr>)"

text \<open>
  \<^verbatim>\<open>workerTaskEntry\<close>: the two reads, the \<^verbatim>\<open>delete\<close>, and \<^verbatim>\<open>deleteCurrentTask\<close> with the copy when the loop
  ends. Only \<^verbatim>\<open>end\<close> makes it end, which \<^verbatim>\<open>begin\<close> does not call before it has stored the worker. The
  context is never null and its owner is set before the task exists, so that the early return is not taken.
\<close>

inductive worker_step :: "worker_start \<Rightarrow> worker_start \<Rightarrow> bool" where
  read_owner: "ws_worker s = Entered \<Longrightarrow> worker_step s ((ws_touch s)\<lparr>ws_worker := HasOwner\<rparr>)"
| read_flag: "ws_worker s = HasOwner \<Longrightarrow> worker_step s ((ws_touch s)\<lparr>ws_worker := HasFlag (ws_flag s)\<rparr>)"
| free_context: "ws_worker s = HasFlag b \<Longrightarrow> worker_step s ((ws_delete s)\<lparr>ws_worker := Serving b\<rparr>)"
| leave: "ws_worker s = Serving b \<Longrightarrow> ws_creator s = CreatorDone \<Longrightarrow>
    worker_step s (s\<lparr>ws_worker := WorkerGone b\<rparr>)"

text \<open>
  The reachable states. With \<open>creator_first\<close> the system does not schedule the new task before
  \<^verbatim>\<open>begin\<close> has written the flag, as for a creator of higher priority on the same core.
\<close>

definition recorded :: "worker_start \<Rightarrow> bool" where
  "recorded s \<longleftrightarrow> (case ws_creator s of Allocated \<Rightarrow> False | Creator_Has _ \<Rightarrow> False | _ \<Rightarrow> True)"

inductive start_reachable :: "bool \<Rightarrow> worker_start \<Rightarrow> bool" for creator_first where
  fresh: "start_reachable creator_first fresh_context"
| creator: "start_reachable creator_first s \<Longrightarrow> creator_step s s' \<Longrightarrow> start_reachable creator_first s'"
| worker: "start_reachable creator_first s \<Longrightarrow> (creator_first \<longrightarrow> recorded s) \<Longrightarrow> worker_step s s' \<Longrightarrow>
    start_reachable creator_first s'"

section \<open>One delete at most\<close>

fun worker_frees :: "creator_pc \<Rightarrow> worker_pc \<Rightarrow> nat \<Rightarrow> bool" where
  "worker_frees Allocated w n \<longleftrightarrow> w = NoTask \<and> n = 0"
| "worker_frees p NoTask n \<longleftrightarrow> p = CreatorFailed \<and> n = 1"
| "worker_frees p Killed n \<longleftrightarrow> p = CreatorFailed \<and> n \<le> 1"
| "worker_frees p (Serving b) n \<longleftrightarrow> n = 1"
| "worker_frees p (WorkerGone b) n \<longleftrightarrow> n = 1"
| "worker_frees p w n \<longleftrightarrow> n = 0"

definition context_inv :: "worker_start \<Rightarrow> bool" where
  "context_inv s \<longleftrightarrow> worker_frees (ws_creator s) (ws_worker s) (ws_frees s)"

lemma context_inv_creator: "creator_step s s' \<Longrightarrow> context_inv s \<Longrightarrow> context_inv s'"
  by (erule creator_step.cases; cases "ws_worker s") (auto simp: context_inv_def ws_touch_def ws_delete_def)

lemma context_inv_worker: "worker_step s s' \<Longrightarrow> context_inv s \<Longrightarrow> context_inv s'"
  by (erule worker_step.cases; cases "ws_creator s") (auto simp: context_inv_def ws_touch_def ws_delete_def)

lemma context_inv_start: "context_inv fresh_context"
  by (simp add: context_inv_def fresh_context_def)

lemma context_inv_reachable: "start_reachable f s \<Longrightarrow> context_inv s"
  by (induction rule: start_reachable.induct) (blast intro: context_inv_start context_inv_creator context_inv_worker)+

lemma context_freed_once: "start_reachable f s \<Longrightarrow> ws_frees s \<le> 1"
  using context_inv_reachable [of f s]
  by (cases "ws_creator s"; cases "ws_worker s") (auto simp: context_inv_def)

section \<open>The creator first\<close>

text \<open>
  When the flag is recorded before the task runs nothing touches the freed object, and the worker
  carries the flag its task was created with.
\<close>

definition handed_over :: "worker_start \<Rightarrow> bool" where
  "handed_over s \<longleftrightarrow> context_inv s \<and> \<not> ws_fault s \<and>
     (case ws_creator s of Allocated \<Rightarrow> ws_worker s = NoTask
      | Creator_Has c \<Rightarrow> ws_worker s = Entered \<and> ws_caps s = Some c
      | Recorded c \<Rightarrow> ws_flag s = c \<and> ws_caps s = Some c
      | _ \<Rightarrow> ws_worker s = NoTask \<or> ws_caps s = Some (ws_flag s)) \<and>
     (case ws_worker s of HasFlag b \<Rightarrow> ws_caps s = Some b | Serving b \<Rightarrow> ws_caps s = Some b
      | WorkerGone b \<Rightarrow> ws_caps s = Some b | _ \<Rightarrow> True)"

lemma handed_over_creator: "creator_step s s' \<Longrightarrow> handed_over s \<Longrightarrow> handed_over s'"
  by (frule context_inv_creator, simp add: handed_over_def, erule creator_step.cases)
    (auto simp: handed_over_def context_inv_def ws_touch_def ws_delete_def split: worker_pc.splits)

lemma handed_over_worker: "worker_step s s' \<Longrightarrow> recorded s \<Longrightarrow> handed_over s \<Longrightarrow> handed_over s'"
  by (frule context_inv_worker, simp add: handed_over_def, erule worker_step.cases; cases "ws_creator s")
    (auto simp: handed_over_def context_inv_def recorded_def ws_touch_def ws_delete_def)

lemma handed_over_start: "handed_over fresh_context"
  by (simp add: handed_over_def context_inv_def fresh_context_def)

lemma handed_over_reachable: "start_reachable True s \<Longrightarrow> handed_over s"
  by (induction rule: start_reachable.induct) (blast intro: handed_over_start handed_over_creator handed_over_worker)+

theorem creator_first_is_safe:
  assumes "start_reachable True s"
  shows "\<not> ws_fault s" and "ws_worker s = Serving b \<Longrightarrow> ws_caps s = Some b"
    and "ws_worker s = WorkerGone b \<Longrightarrow> ws_caps s = Some b"
  using handed_over_reachable [OF assms] by (auto simp: handed_over_def)

section \<open>The race\<close>

text \<open>
  Without that assumption a worker that starts at once reads the flag before it is written and frees
  the context. The task was created with capabilities and carries False, so that it
  deletes itself as an ordinary task, and \<^verbatim>\<open>begin\<close> then writes to the freed object.
\<close>

definition hasty_worker :: "creator_pc \<Rightarrow> worker_pc \<Rightarrow> nat \<Rightarrow> worker_start" where
  "hasty_worker p w n = \<lparr>ws_creator = p, ws_worker = w, ws_flag = False, ws_caps = Some True, ws_frees = n,
     ws_fault = False\<rparr>"

lemma hasty_run:
  "start_reachable False (hasty_worker (Creator_Has True) Entered 0)"
  "start_reachable False (hasty_worker (Creator_Has True) HasOwner 0)"
  "start_reachable False (hasty_worker (Creator_Has True) (HasFlag False) 0)"
  "start_reachable False (hasty_worker (Creator_Has True) (Serving False) 1)"
proof -
  show 1: "start_reachable False (hasty_worker (Creator_Has True) Entered 0)"
    using start_reachable.creator [OF start_reachable.fresh creator_step.task_created, of False True]
    by (simp add: fresh_context_def hasty_worker_def)
  show 2: "start_reachable False (hasty_worker (Creator_Has True) HasOwner 0)"
    using start_reachable.worker [OF 1 _ worker_step.read_owner] by (simp add: hasty_worker_def ws_touch_def)
  show 3: "start_reachable False (hasty_worker (Creator_Has True) (HasFlag False) 0)"
    using start_reachable.worker [OF 2 _ worker_step.read_flag] by (simp add: hasty_worker_def ws_touch_def)
  show "start_reachable False (hasty_worker (Creator_Has True) (Serving False) 1)"
    using start_reachable.worker [OF 3 _ worker_step.free_context, of False]
    by (simp add: hasty_worker_def ws_touch_def ws_delete_def)
qed

theorem context_race:
  "\<exists>s. start_reachable False s \<and> ws_fault s \<and> ws_caps s = Some True \<and> ws_worker s = Serving False"
proof -
  have "start_reachable False
      ((ws_touch (hasty_worker (Creator_Has True) (Serving False) 1))\<lparr>ws_flag := True, ws_creator := Recorded True\<rparr>)"
    by (rule start_reachable.creator [OF hasty_run(4) creator_step.record_flag]) (simp add: hasty_worker_def)
  then show ?thesis by (intro exI conjI) (assumption, simp_all add: hasty_worker_def ws_touch_def)
qed

text \<open>
  A worker that is killed because its handle could not be stored leaves its context allocated when it
  has not freed it yet.
\<close>

theorem killed_worker_leaks:
  "\<exists>s. start_reachable True s \<and> ws_creator s = CreatorFailed \<and> ws_worker s = Killed \<and> ws_frees s = 0"
proof -
  let ?a = "fresh_context\<lparr>ws_creator := Creator_Has False, ws_caps := Some False, ws_worker := Entered\<rparr>"
  let ?b = "(ws_touch ?a)\<lparr>ws_flag := False, ws_creator := Recorded False\<rparr>"
  have "start_reachable True ?a"
    by (rule start_reachable.creator [OF start_reachable.fresh creator_step.task_created])
      (simp add: fresh_context_def)
  then have "start_reachable True ?b"
    by (rule start_reachable.creator [OF _ creator_step.record_flag]) simp
  then have "start_reachable True (?b\<lparr>ws_creator := CreatorFailed, ws_worker := Killed\<rparr>)"
    by (rule start_reachable.creator [OF _ creator_step.not_stored [of _ False]]) simp
  then show ?thesis by (intro exI conjI) (assumption, simp_all add: ws_touch_def fresh_context_def)
qed

end
