(* ===== verification/V1_Compat.thy ===== *)
theory V1_Compat
  imports Facade_Jobs
begin

text \<open>
  The wrapper with the interface of version 1, \<^verbatim>\<open>compat/v1_compat.cpp\<close>: errors become \<^verbatim>\<open>false\<close> or the id 0,
  the dispatch policy is derived from a job mode, and the ids of added jobs are remembered so that
  jobs can be enumerated by index.
\<close>

section \<open>Configuration and state\<close>

datatype SchedulerJobMode = InlineMode | WorkerTask

record SchedulerTaskConfig =
  tcf_name :: "string option"
  tcf_stackSize :: nat
  tcf_priority :: nat
  tcf_coreId :: int
  tcf_usePsramStack :: bool

record ESPSchedulerConfig =
  ecf_usePSRAMBuffers :: bool

record SchedulerV1JobInfo =
  v1i_id :: u32
  v1i_enabled :: bool
  v1i_mode :: SchedulerJobMode
  v1i_schedule :: ScheduleSpec
  v1i_nextRunUtc :: DateTime

definition emptyV1Info :: SchedulerV1JobInfo where
  "emptyV1Info = \<lparr>v1i_id = 0, v1i_enabled = False, v1i_mode = InlineMode, v1i_schedule = defaultSpec, v1i_nextRunUtc = epochDate\<rparr>"

text \<open>The defaults of the configuration structs.\<close>

definition defaultServiceConfig :: SchedulerServiceConfig where
  "defaultServiceConfig = \<lparr>svc_commandQueueDepth = 16, svc_eventQueueDepth = 16, svc_taskStackSize = 4096,
     svc_taskPriority = 1, svc_coreId = tskNO_AFFINITY, svc_usePsramStack = False, svc_controlTimeoutMs = 2000\<rparr>"

definition defaultWorkerPoolConfig :: WorkerPoolConfig where
  "defaultWorkerPoolConfig = \<lparr>wp_workerCount = 1, wp_queueDepth = 8, wp_stackSize = 6144, wp_priority = 1,
     wp_coreId = tskNO_AFFINITY, wp_usePsramStack = False\<rparr>"

definition defaultSchedulerConfig :: SchedulerConfig where
  "defaultSchedulerConfig = \<lparr>cfg_mode = Background, cfg_minValidEpochSeconds = 1577836800, cfg_usePSRAMMetadata = False,
     cfg_service = defaultServiceConfig, cfg_defaultAsyncBackend = WorkerPool,
     cfg_defaultWorkerPool = defaultWorkerPoolConfig, cfg_defaultDedicatedTask = defaultDedicatedTask,
     cfg_espWorker = False\<rparr>"

definition makeCompatSchedulerConfig :: "ESPSchedulerConfig \<Rightarrow> SchedulerConfig" where
  "makeCompatSchedulerConfig config = defaultSchedulerConfig\<lparr>cfg_usePSRAMMetadata := ecf_usePSRAMBuffers config\<rparr>"

definition makeDedicatedOptions :: "SchedulerTaskConfig option \<Rightarrow> DedicatedTaskOptions" where
  "makeDedicatedOptions taskCfg =
     (case taskCfg of
        None \<Rightarrow> defaultDedicatedTask
      | Some t \<Rightarrow> \<lparr>dt_name = tcf_name t, dt_stackSize = tcf_stackSize t, dt_priority = tcf_priority t,
                   dt_coreId = tcf_coreId t, dt_usePsramStack = tcf_usePsramStack t\<rparr>)"

record ('c, 'q, 'x, 'o) V1Compat =
  v1_trackedJobIds :: "u32 list"
  v1_dedicatedTaskScratch :: DedicatedTaskOptions
  v1_workerExecutorId :: int
  v1_scheduler :: "('c, 'q, 'x, 'o) Impl"

text \<open>
  The constructor. The adapter around the caller's ESPWorker is the first executor the application
  registers. The inputs are those of \<^verbatim>\<open>begin\<close>.
\<close>

definition newV1Compat ::
  "nat \<Rightarrow> (nat option, 'c) QueueApi \<Rightarrow> (SchedulerEvent, 'q) QueueApi \<Rightarrow> ESPDate \<Rightarrow> 'o TaskApi \<Rightarrow> 'x ExecutorOps
     \<Rightarrow> ('c, 'q, 'o) Surroundings \<Rightarrow> 'o \<Rightarrow> heap \<Rightarrow> 'x \<Rightarrow> bool \<Rightarrow> ESPSchedulerConfig \<Rightarrow> clock \<Rightarrow> store
     \<Rightarrow> (('c, 'q, 'x, 'o) V1Compat \<times> clock \<times> store) option" where
  "newV1Compat recordSize cq eq date os ops su o1 h x worker config k m =
     (let i = newScheduler recordSize (makeCompatSchedulerConfig config) h x;
          (registered, i) = (if worker then registerExecutor (Some (ExternalRef 0)) i else (Inl ExecutorUnavailable, i));
          workerExecutorId = (case registered of Inl e \<Rightarrow> - 1 | Inr n \<Rightarrow> uint n)
      in map_option (\<lambda>(ok, i, k, m). (\<lparr>v1_trackedJobIds = [], v1_dedicatedTaskScratch = defaultDedicatedTask,
             v1_workerExecutorId = workerExecutorId, v1_scheduler = i\<rparr>, k, m))
           (scheduler_begin recordSize cq eq date os ops su o1 k m i))"

definition v1_deinit ::
  "(nat option, 'c) QueueApi \<Rightarrow> (SchedulerEvent, 'q) QueueApi \<Rightarrow> ESPDate \<Rightarrow> 'o TaskApi \<Rightarrow> 'x ExecutorOps
     \<Rightarrow> ('c, 'q, 'o) Surroundings \<Rightarrow> clock \<Rightarrow> store \<Rightarrow> ('c, 'q, 'x, 'o) V1Compat
     \<Rightarrow> (('c, 'q, 'x, 'o) V1Compat \<times> clock \<times> store) option" where
  "v1_deinit cq eq date os ops su k m v =
     map_option (\<lambda>(i, k, m). (v\<lparr>v1_scheduler := i, v1_trackedJobIds := []\<rparr>, k, m))
       (scheduler_end cq eq date os ops su True k m (v1_scheduler v))"

definition isInitialized :: "('c, 'q, 'x, 'o) V1Compat \<Rightarrow> bool" where
  "isInitialized v = running (v1_scheduler v)"

definition v1_setMinValidUnixSeconds ::
  "(nat option, 'c) QueueApi \<Rightarrow> ESPDate \<Rightarrow> ('c, 'q, 'o) Surroundings \<Rightarrow> int \<Rightarrow> clock \<Rightarrow> store \<Rightarrow> ('c, 'q, 'x, 'o) V1Compat
     \<Rightarrow> (('c, 'q, 'x, 'o) V1Compat \<times> clock \<times> store) option" where
  "v1_setMinValidUnixSeconds cq date su minEpochSeconds k m v =
     map_option (\<lambda>(i, k, m). (v\<lparr>v1_scheduler := i\<rparr>, k, m))
       (fac_setMinValidUnixSeconds cq date su minEpochSeconds k m (v1_scheduler v))"

definition v1_setMinValidUtc ::
  "(nat option, 'c) QueueApi \<Rightarrow> ESPDate \<Rightarrow> ('c, 'q, 'o) Surroundings \<Rightarrow> DateTime \<Rightarrow> clock \<Rightarrow> store \<Rightarrow> ('c, 'q, 'x, 'o) V1Compat
     \<Rightarrow> (('c, 'q, 'x, 'o) V1Compat \<times> clock \<times> store) option" where
  "v1_setMinValidUtc cq date su minUtc k m v =
     map_option (\<lambda>(i, k, m). (v\<lparr>v1_scheduler := i\<rparr>, k, m))
       (fac_setMinValidUtc cq date su minUtc k m (v1_scheduler v))"

definition v1_minValidUnixSeconds :: "('c, 'q, 'x, 'o) V1Compat \<Rightarrow> int" where
  "v1_minValidUnixSeconds v = fac_minValidUnixSeconds (v1_scheduler v)"

section \<open>Adding jobs\<close>

text \<open>Returns the options and the wrapper, whose scratch copy of the task options is overwritten.\<close>

definition jobOptionsForMode ::
  "SchedulerJobMode \<Rightarrow> SchedulerTaskConfig option \<Rightarrow> ('c, 'q, 'x, 'o) V1Compat \<Rightarrow> JobOptions \<times> ('c, 'q, 'x, 'o) V1Compat" where
  "jobOptionsForMode mode taskCfg v =
     (if mode = InlineMode then (defaultOptions\<lparr>opt_dispatch := Inline\<rparr>, v)
      else let options = defaultOptions\<lparr>opt_dispatch := Async\<rparr> in
        case taskCfg of
          Some t \<Rightarrow>
            let v = v\<lparr>v1_dedicatedTaskScratch := makeDedicatedOptions taskCfg\<rparr>
            in (options\<lparr>opt_executorId := defaultDedicatedExecutor, opt_dedicatedTask := Some (v1_dedicatedTaskScratch v)\<rparr>, v)
        | None \<Rightarrow>
            if v1_workerExecutorId v \<ge> 0
            then (options\<lparr>opt_executorId := word_of_int (v1_workerExecutorId v)\<rparr>, v)
            else (options\<lparr>opt_executorId := defaultWorkerExecutor (v1_scheduler v)\<rparr>, v))"

definition trackJob :: "u32 \<Rightarrow> ('c, 'q, 'x, 'o) V1Compat \<Rightarrow> ('c, 'q, 'x, 'o) V1Compat" where
  "trackJob jobId v = (if jobId \<noteq> 0 then v\<lparr>v1_trackedJobIds := v1_trackedJobIds v @ [jobId]\<rparr> else v)"

text \<open>What the six functions that add a job share: \<open>add\<close> is the call of the scheduler.\<close>

definition add_tracked ::
  "(JobOptions \<Rightarrow> ('c, 'q, 'x, 'o) Impl \<Rightarrow> (u32, 'c, 'q, 'x, 'o) outcome) \<Rightarrow> SchedulerJobMode \<Rightarrow> SchedulerTaskConfig option
     \<Rightarrow> ('c, 'q, 'x, 'o) V1Compat \<Rightarrow> (u32 \<times> ('c, 'q, 'x, 'o) V1Compat \<times> clock \<times> store) option" where
  "add_tracked add mode taskCfg v =
     (let (options, v) = jobOptionsForMode mode taskCfg v
      in map_option (\<lambda>(result, i, k, m).
             let jobId = (case result of Inr n \<Rightarrow> n | Inl e \<Rightarrow> 0)
             in (jobId, trackJob jobId (v\<lparr>v1_scheduler := i\<rparr>), k, m))
           (add options (v1_scheduler v)))"

definition v1_addJobOnceUtc_raw ::
  "(nat option, 'c) QueueApi \<Rightarrow> ESPDate \<Rightarrow> ('c, 'q, 'o) Surroundings \<Rightarrow> DateTime \<Rightarrow> SchedulerJobMode \<Rightarrow> nat option \<Rightarrow> nat
     \<Rightarrow> SchedulerTaskConfig option \<Rightarrow> clock \<Rightarrow> store \<Rightarrow> ('c, 'q, 'x, 'o) V1Compat
     \<Rightarrow> (u32 \<times> ('c, 'q, 'x, 'o) V1Compat \<times> clock \<times> store) option" where
  "v1_addJobOnceUtc_raw cq date su whenUtc mode callback userData taskCfg k m =
     add_tracked (\<lambda>options. addJobOnceUtc_raw cq date su whenUtc options callback userData k m) mode taskCfg"

definition v1_addJobOnceUtc_owning ::
  "(nat option, 'c) QueueApi \<Rightarrow> ESPDate \<Rightarrow> ('c, 'q, 'o) Surroundings \<Rightarrow> DateTime \<Rightarrow> SchedulerJobMode \<Rightarrow> nat option \<Rightarrow> nat
     \<Rightarrow> SchedulerTaskConfig option \<Rightarrow> clock \<Rightarrow> store \<Rightarrow> ('c, 'q, 'x, 'o) V1Compat
     \<Rightarrow> (u32 \<times> ('c, 'q, 'x, 'o) V1Compat \<times> clock \<times> store) option" where
  "v1_addJobOnceUtc_owning cq date su whenUtc mode callback userData taskCfg k m =
     add_tracked (\<lambda>options. addJobOnceUtc_owning cq date su whenUtc options callback userData k m) mode taskCfg"

definition v1_addJobOnceUtc_noData ::
  "(nat option, 'c) QueueApi \<Rightarrow> ESPDate \<Rightarrow> ('c, 'q, 'o) Surroundings \<Rightarrow> DateTime \<Rightarrow> SchedulerJobMode \<Rightarrow> nat option
     \<Rightarrow> SchedulerTaskConfig option \<Rightarrow> clock \<Rightarrow> store \<Rightarrow> ('c, 'q, 'x, 'o) V1Compat
     \<Rightarrow> (u32 \<times> ('c, 'q, 'x, 'o) V1Compat \<times> clock \<times> store) option" where
  "v1_addJobOnceUtc_noData cq date su whenUtc mode callback taskCfg k m =
     add_tracked (\<lambda>options. addJobOnceUtc_noData cq date su whenUtc options callback k m) mode taskCfg"

definition v1_addJob_raw ::
  "(nat option, 'c) QueueApi \<Rightarrow> ESPDate \<Rightarrow> ('c, 'q, 'o) Surroundings \<Rightarrow> ScheduleSpec \<Rightarrow> SchedulerJobMode \<Rightarrow> nat option \<Rightarrow> nat
     \<Rightarrow> SchedulerTaskConfig option \<Rightarrow> clock \<Rightarrow> store \<Rightarrow> ('c, 'q, 'x, 'o) V1Compat
     \<Rightarrow> (u32 \<times> ('c, 'q, 'x, 'o) V1Compat \<times> clock \<times> store) option" where
  "v1_addJob_raw cq date su schedule mode callback userData taskCfg k m =
     add_tracked (\<lambda>options. addJob_raw cq date su schedule options callback userData k m) mode taskCfg"

definition v1_addJob_owning ::
  "(nat option, 'c) QueueApi \<Rightarrow> ESPDate \<Rightarrow> ('c, 'q, 'o) Surroundings \<Rightarrow> ScheduleSpec \<Rightarrow> SchedulerJobMode \<Rightarrow> nat option \<Rightarrow> nat
     \<Rightarrow> SchedulerTaskConfig option \<Rightarrow> clock \<Rightarrow> store \<Rightarrow> ('c, 'q, 'x, 'o) V1Compat
     \<Rightarrow> (u32 \<times> ('c, 'q, 'x, 'o) V1Compat \<times> clock \<times> store) option" where
  "v1_addJob_owning cq date su schedule mode callback userData taskCfg k m =
     add_tracked (\<lambda>options. addJob_owning cq date su schedule options callback userData k m) mode taskCfg"

definition v1_addJob_noData ::
  "(nat option, 'c) QueueApi \<Rightarrow> ESPDate \<Rightarrow> ('c, 'q, 'o) Surroundings \<Rightarrow> ScheduleSpec \<Rightarrow> SchedulerJobMode \<Rightarrow> nat option
     \<Rightarrow> SchedulerTaskConfig option \<Rightarrow> clock \<Rightarrow> store \<Rightarrow> ('c, 'q, 'x, 'o) V1Compat
     \<Rightarrow> (u32 \<times> ('c, 'q, 'x, 'o) V1Compat \<times> clock \<times> store) option" where
  "v1_addJob_noData cq date su schedule mode callback taskCfg k m =
     add_tracked (\<lambda>options. addJob_noData cq date su schedule options callback k m) mode taskCfg"

section \<open>Managing jobs\<close>

text \<open>A result of the scheduler as a truth value.\<close>

definition as_bool ::
  "('r, 'c, 'q, 'x, 'o) outcome \<Rightarrow> ('c, 'q, 'x, 'o) V1Compat \<Rightarrow> (bool \<times> ('c, 'q, 'x, 'o) V1Compat \<times> clock \<times> store) option" where
  "as_bool r v = map_option (\<lambda>(result, i, k, m). (res_ok result, v\<lparr>v1_scheduler := i\<rparr>, k, m)) r"

definition v1_cancelJob ::
  "(nat option, 'c) QueueApi \<Rightarrow> ESPDate \<Rightarrow> ('c, 'q, 'o) Surroundings \<Rightarrow> u32 \<Rightarrow> clock \<Rightarrow> store \<Rightarrow> ('c, 'q, 'x, 'o) V1Compat
     \<Rightarrow> (bool \<times> ('c, 'q, 'x, 'o) V1Compat \<times> clock \<times> store) option" where
  "v1_cancelJob cq date su jobId k m v = as_bool (fac_cancelJob cq date su jobId k m (v1_scheduler v)) v"

definition v1_pauseJob ::
  "(nat option, 'c) QueueApi \<Rightarrow> ESPDate \<Rightarrow> ('c, 'q, 'o) Surroundings \<Rightarrow> u32 \<Rightarrow> clock \<Rightarrow> store \<Rightarrow> ('c, 'q, 'x, 'o) V1Compat
     \<Rightarrow> (bool \<times> ('c, 'q, 'x, 'o) V1Compat \<times> clock \<times> store) option" where
  "v1_pauseJob cq date su jobId k m v = as_bool (fac_pauseJob cq date su jobId k m (v1_scheduler v)) v"

definition v1_resumeJob ::
  "(nat option, 'c) QueueApi \<Rightarrow> ESPDate \<Rightarrow> ('c, 'q, 'o) Surroundings \<Rightarrow> u32 \<Rightarrow> clock \<Rightarrow> store \<Rightarrow> ('c, 'q, 'x, 'o) V1Compat
     \<Rightarrow> (bool \<times> ('c, 'q, 'x, 'o) V1Compat \<times> clock \<times> store) option" where
  "v1_resumeJob cq date su jobId k m v = as_bool (fac_resumeJob cq date su jobId k m (v1_scheduler v)) v"

definition v1_cancelAll ::
  "(nat option, 'c) QueueApi \<Rightarrow> ESPDate \<Rightarrow> ('c, 'q, 'o) Surroundings \<Rightarrow> clock \<Rightarrow> store \<Rightarrow> ('c, 'q, 'x, 'o) V1Compat
     \<Rightarrow> (('c, 'q, 'x, 'o) V1Compat \<times> clock \<times> store) option" where
  "v1_cancelAll cq date su k m v =
     map_option (\<lambda>(result, i, k, m). (v\<lparr>v1_scheduler := i, v1_trackedJobIds := []\<rparr>, k, m))
       (fac_cancelAll cq date su k m (v1_scheduler v))"

definition v1_tick ::
  "(SchedulerEvent, 'q) QueueApi \<Rightarrow> ESPDate \<Rightarrow> 'x ExecutorOps \<Rightarrow> DateTime \<Rightarrow> ('c, 'q, 'x, 'o) V1Compat
     \<Rightarrow> ('c, 'q, 'x, 'o) V1Compat option" where
  "v1_tick eq date ops nowUtc v = map_option (\<lambda>i. v\<lparr>v1_scheduler := i\<rparr>) (tick eq date ops nowUtc (v1_scheduler v))"

definition v1_tick_now ::
  "(SchedulerEvent, 'q) QueueApi \<Rightarrow> ESPDate \<Rightarrow> 'x ExecutorOps \<Rightarrow> clock \<Rightarrow> ('c, 'q, 'x, 'o) V1Compat
     \<Rightarrow> (('c, 'q, 'x, 'o) V1Compat \<times> clock) option" where
  "v1_tick_now eq date ops k v =
     map_option (\<lambda>(i, k). (v\<lparr>v1_scheduler := i\<rparr>, k)) (tick_now eq date ops k (v1_scheduler v))"

definition v1_computeNextOccurrence :: "ESPDate \<Rightarrow> ScheduleSpec \<Rightarrow> DateTime \<Rightarrow> DateTime option" where
  "v1_computeNextOccurrence date schedule fromUtc = computeNextOccurrence date schedule fromUtc"

section \<open>Enumerating jobs\<close>

text \<open>
  A sequence of calls of \<^verbatim>\<open>getJobInfo\<close>, one per id; each meets surroundings of its own. The result pairs
  each id with the answer.
\<close>

fun ask_all ::
  "(nat option, 'c) QueueApi \<Rightarrow> ESPDate \<Rightarrow> (nat \<Rightarrow> ('c, 'q, 'o) Surroundings) \<Rightarrow> u32 list \<Rightarrow> clock \<Rightarrow> store
     \<Rightarrow> ('c, 'q, 'x, 'o) Impl
     \<Rightarrow> ((u32 \<times> JobInfo option \<times> unit SchedulerResult) list \<times> ('c, 'q, 'x, 'o) Impl \<times> clock \<times> store) option" where
  "ask_all cq date su [] k m i = Some ([], i, k, m)"
| "ask_all cq date su (jobId # ids) k m i =
     Option.bind (fac_getJobInfo cq date (su 0) jobId k m i) (\<lambda>(out, r, i, k, m).
       map_option (\<lambda>(rs, i, k, m). ((jobId, out, r) # rs, i, k, m))
         (ask_all cq date (\<lambda>n. su (Suc n)) ids k m i))"

definition pruneTrackedJobs ::
  "(nat option, 'c) QueueApi \<Rightarrow> ESPDate \<Rightarrow> (nat \<Rightarrow> ('c, 'q, 'o) Surroundings) \<Rightarrow> clock \<Rightarrow> store \<Rightarrow> ('c, 'q, 'x, 'o) V1Compat
     \<Rightarrow> (('c, 'q, 'x, 'o) V1Compat \<times> clock \<times> store) option" where
  "pruneTrackedJobs cq date su k m v =
     map_option (\<lambda>(rs, i, k, m).
         (v\<lparr>v1_trackedJobIds := map fst (filter (\<lambda>(jobId, out, r). res_ok r) rs), v1_scheduler := i\<rparr>, k, m))
       (ask_all cq date su (v1_trackedJobIds v) k m (v1_scheduler v))"

definition v1_cleanup ::
  "(nat option, 'c) QueueApi \<Rightarrow> ESPDate \<Rightarrow> (nat \<Rightarrow> ('c, 'q, 'o) Surroundings) \<Rightarrow> clock \<Rightarrow> store \<Rightarrow> ('c, 'q, 'x, 'o) V1Compat
     \<Rightarrow> (('c, 'q, 'x, 'o) V1Compat \<times> clock \<times> store) option" where
  "v1_cleanup cq date su k m v = pruneTrackedJobs cq date su k m v"

definition v1_info :: "JobInfo \<Rightarrow> SchedulerV1JobInfo" where
  "v1_info info = \<lparr>v1i_id = ji_id info, v1i_enabled = (\<not> ji_paused info),
     v1i_mode = (if ji_dispatch info = Inline then InlineMode else WorkerTask),
     v1i_schedule = ji_schedule info, v1i_nextRunUtc = ji_nextRunUtc info\<rparr>"

text \<open>
  The second loop of \<^verbatim>\<open>getJobInfo\<close>: ids are asked until one with the right index answers. \<open>out\<close> of a
  successful call was written.
\<close>

fun nth_answer ::
  "(nat option, 'c) QueueApi \<Rightarrow> ESPDate \<Rightarrow> (nat \<Rightarrow> ('c, 'q, 'o) Surroundings) \<Rightarrow> nat \<Rightarrow> u32 list \<Rightarrow> nat \<Rightarrow> clock \<Rightarrow> store
     \<Rightarrow> ('c, 'q, 'x, 'o) Impl
     \<Rightarrow> (bool \<times> SchedulerV1JobInfo \<times> ('c, 'q, 'x, 'o) Impl \<times> clock \<times> store) option" where
  "nth_answer cq date su index [] current k m i = Some (False, emptyV1Info, i, k, m)"
| "nth_answer cq date su index (jobId # ids) current k m i =
     Option.bind (fac_getJobInfo cq date (su 0) jobId k m i) (\<lambda>(out, r, i, k, m).
       if \<not> res_ok r then nth_answer cq date (\<lambda>n. su (Suc n)) index ids current k m i
       else if current \<noteq> index then nth_answer cq date (\<lambda>n. su (Suc n)) index ids (current + 1) k m i
       else Some (True, v1_info (case out of Some info \<Rightarrow> info | None \<Rightarrow> emptyJobInfo), i, k, m))"

definition v1_getJobInfo ::
  "(nat option, 'c) QueueApi \<Rightarrow> ESPDate \<Rightarrow> (nat \<Rightarrow> ('c, 'q, 'o) Surroundings) \<Rightarrow> nat \<Rightarrow> clock \<Rightarrow> store
     \<Rightarrow> ('c, 'q, 'x, 'o) V1Compat
     \<Rightarrow> (bool \<times> SchedulerV1JobInfo \<times> ('c, 'q, 'x, 'o) V1Compat \<times> clock \<times> store) option" where
  "v1_getJobInfo cq date su index k m v =
     Option.bind (pruneTrackedJobs cq date su k m v) (\<lambda>(v', k, m).
       map_option (\<lambda>(found, out, i, k, m). (found, out, v'\<lparr>v1_scheduler := i\<rparr>, k, m))
         (nth_answer cq date (\<lambda>n. su (length (v1_trackedJobIds v) + n)) index (v1_trackedJobIds v') 0 k m (v1_scheduler v')))"

end
