(* ===== verification/V1_Spec.thy ===== *)
theory V1_Spec
  imports V1_Compat Facade_Spec
begin

text \<open>
  The version 1 wrapper against its promise: a job that was added is described back as it was added,
  through all layers down to the core, and the jobs that exist can be enumerated by index.
\<close>

section \<open>Asking for jobs\<close>

text \<open>
  A started scheduler that answers a whole sequence of calls: memory suffices, the service keeps up,
  and each call's command gets an address that is not in use.
\<close>

definition answering ::
  "('c \<Rightarrow> nat option list) \<Rightarrow> ('c \<Rightarrow> nat) \<Rightarrow> (nat \<Rightarrow> ('c, 'q, 'o) Surroundings) \<Rightarrow> store \<Rightarrow> ('c, 'q, 'x, 'o) Impl \<Rightarrow> bool" where
  "answering items depth su m i \<longleftrightarrow> im_started i \<and> (\<forall>n. im_heap i n) \<and> (\<forall>n. responsive items depth (su n) m i)"

lemma getJobInfo_answered:
  assumes "fifo_queue cq items depth" "answering items depth su m i"
  shows "\<exists>i'. fac_getJobInfo cq date (su 0) jobId k m i =
      Some (Some (snd (getJobInfo (core_of i) jobId)), fst (getJobInfo (core_of i) jobId), i', k, m) \<and>
    core_of i' = core_of i \<and> answering items depth (\<lambda>n. su (Suc n)) m i'"
proof (cases "background i")
  case None
  then show ?thesis using assms(2) by (auto simp: answering_def fac_getJobInfo_def core_of_def responsive_def)
next
  case (Some s)
  let ?a = "su_address (su 0)" and ?r = "getJobInfo (core_of i) jobId"
  have resp: "responsive items depth (su n) m i" "im_heap i n" for n using assms(2) by (simp_all add: answering_def)
  obtain q where q: "su_responds (su 0)" "m ?a = None" "ss_commandQueue s = Some q" "items q = []" "0 < depth q"
    using resp(1) [of 0] Some by (auto simp: responsive_def split: option.splits)
  have x: "execute_all date (map co_command [] @ [GetJobInfoCommand jobId True]) (ss_core s) k =
      ([] @ [InfoResult (fst ?r) (Some (snd ?r))], ss_core s, k)"
    using Some by (simp add: core_of_def Let_def case_prod_unfold)
  obtain q' m' where e: "executeBackgroundCommand cq date (GetJobInfoCommand jobId True) ?a True s k m (im_heap i) =
      Some (Inr (InfoResult (fst ?r) (Some (snd ?r))), s\<lparr>ss_commandQueue := Some q', ss_core := ss_core s\<rparr>, k, m'(?a := None),
        \<lambda>n. im_heap i (Suc n))" "items q' = []" "depth q' = depth q" "\<forall>b. b \<noteq> ?a \<longrightarrow> m' b = m b"
    using background_answers [where h = "im_heap i" and m = m and a = ?a, OF assms(1) q(3) _ resp(2) _ _ q(2) x] q(4,5) by auto
  let ?s = "s\<lparr>ss_commandQueue := Some q', ss_core := ss_core s\<rparr>"
  let ?i = "i\<lparr>im_service := Some ?s, im_heap := \<lambda>n. im_heap i (Suc n)\<rparr>"
  have m: "m'(?a := None) = m" using e(4) q(2) by auto
  have f: "fac_getJobInfo cq date (su 0) jobId k m i = Some (Some (snd ?r), fst ?r, ?i, k, m)"
    using assms(2) Some e(1) q(1) m by (simp add: answering_def fac_getJobInfo_def)
  have "responsive items depth (su n) m ?i" for n
    using resp(1) [of n] Some e(2,3) q(5) resp(2) by (simp add: responsive_def)
  then have "answering items depth (\<lambda>n. su (Suc n)) m ?i" using assms(2) by (simp add: answering_def)
  moreover have "core_of ?i = core_of i" using Some by (simp add: core_of_def)
  ultimately show ?thesis using f by blast
qed

lemma ask_all_answers:
  assumes "fifo_queue cq items depth" "answering items depth su m i"
  shows "\<exists>i'. ask_all cq date su ids k m i =
      Some (map (\<lambda>j. (j, Some (snd (getJobInfo (core_of i) j)), fst (getJobInfo (core_of i) j))) ids, i', k, m) \<and>
    core_of i' = core_of i \<and> answering items depth (\<lambda>n. su (length ids + n)) m i'"
  using assms(2)
proof (induction ids arbitrary: su i)
  case (Cons j ids)
  obtain i1 where 1: "fac_getJobInfo cq date (su 0) j k m i =
      Some (Some (snd (getJobInfo (core_of i) j)), fst (getJobInfo (core_of i) j), i1, k, m)"
    "core_of i1 = core_of i" "answering items depth (\<lambda>n. su (Suc n)) m i1"
    using getJobInfo_answered [OF assms(1) Cons.prems] by blast
  show ?case using Cons.IH [OF 1(3)] 1(1,2) by auto
qed auto

lemma nth_answer_found:
  assumes "fifo_queue cq items depth" "answering items depth su m i" "current \<le> index"
    and "\<forall>j \<in> set ids. res_ok (fst (getJobInfo (core_of i) j))"
  shows "\<exists>i'. nth_answer cq date su index ids current k m i =
      Some (index - current < length ids,
        if index - current < length ids then v1_info (snd (getJobInfo (core_of i) (ids ! (index - current)))) else emptyV1Info,
        i', k, m) \<and> core_of i' = core_of i"
  using assms(2-4)
proof (induction ids arbitrary: su i current)
  case (Cons j ids)
  obtain i1 where 1: "fac_getJobInfo cq date (su 0) j k m i =
      Some (Some (snd (getJobInfo (core_of i) j)), fst (getJobInfo (core_of i) j), i1, k, m)"
    "core_of i1 = core_of i" "answering items depth (\<lambda>n. su (Suc n)) m i1"
    using getJobInfo_answered [OF assms(1) Cons.prems(1)] by blast
  show ?case
  proof (cases "current = index")
    case True
    then show ?thesis using 1(1,2) Cons.prems(3) by simp
  next
    case False
    then have d: "index - current = Suc (index - (current + 1))" using Cons.prems(2) by simp
    have "nth_answer cq date su index (j # ids) current k m i =
        nth_answer cq date (\<lambda>n. su (Suc n)) index ids (current + 1) k m i1"
      using 1(1) Cons.prems(3) False by simp
    moreover obtain i2 where "nth_answer cq date (\<lambda>n. su (Suc n)) index ids (current + 1) k m i1 =
        Some (index - (current + 1) < length ids,
          if index - (current + 1) < length ids then v1_info (snd (getJobInfo (core_of i) (ids ! (index - (current + 1)))))
          else emptyV1Info, i2, k, m)" "core_of i2 = core_of i"
      using Cons.IH [OF 1(3), of "current + 1"] 1(2) Cons.prems(2,3) False by auto
    ultimately show ?thesis unfolding d by (simp del: nth_answer.simps)
  qed
qed simp

text \<open>
  C32: as long as the scheduler answers, \<^verbatim>\<open>getJobInfo(index)\<close> enumerates the tracked jobs that still
  exist: it forgets the others, succeeds exactly for the indices below their number, and describes
  the job at the index.
\<close>

theorem v1_getJobInfo_enumerates:
  assumes "fifo_queue cq items depth" "answering items depth su m (v1_scheduler v)"
  shows "\<exists>ids v'. ids = filter (\<lambda>j. res_ok (fst (getJobInfo (core_of (v1_scheduler v)) j))) (v1_trackedJobIds v) \<and>
    v1_getJobInfo cq date su index k m v =
      Some (index < length ids,
        if index < length ids then v1_info (snd (getJobInfo (core_of (v1_scheduler v)) (ids ! index))) else emptyV1Info,
        v', k, m) \<and>
    v1_trackedJobIds v' = ids \<and> core_of (v1_scheduler v') = core_of (v1_scheduler v)"
proof -
  let ?c = "core_of (v1_scheduler v)"
  define ids where "ids = filter (\<lambda>j. res_ok (fst (getJobInfo ?c j))) (v1_trackedJobIds v)"
  obtain i1 where 1: "ask_all cq date su (v1_trackedJobIds v) k m (v1_scheduler v) =
      Some (map (\<lambda>j. (j, Some (snd (getJobInfo ?c j)), fst (getJobInfo ?c j))) (v1_trackedJobIds v), i1, k, m)"
    "core_of i1 = ?c" "answering items depth (\<lambda>n. su (length (v1_trackedJobIds v) + n)) m i1"
    using ask_all_answers [OF assms] by blast
  let ?v = "v\<lparr>v1_trackedJobIds := ids, v1_scheduler := i1\<rparr>"
  have p: "pruneTrackedJobs cq date su k m v = Some (?v, k, m)"
    using 1(1) by (simp add: pruneTrackedJobs_def ids_def filter_map o_def)
  obtain i2 where 2: "nth_answer cq date (\<lambda>n. su (length (v1_trackedJobIds v) + n)) index ids 0 k m i1 =
      Some (index < length ids, if index < length ids then v1_info (snd (getJobInfo ?c (ids ! index))) else emptyV1Info, i2, k, m)"
    "core_of i2 = ?c"
    using nth_answer_found [OF assms(1) 1(3), of 0 index ids date k] 1(2) by (auto simp: ids_def)
  have "v1_getJobInfo cq date su index k m v =
      Some (index < length ids, if index < length ids then v1_info (snd (getJobInfo ?c (ids ! index))) else emptyV1Info,
        ?v\<lparr>v1_scheduler := i2\<rparr>, k, m)"
    using p 2(1) by (simp add: v1_getJobInfo_def)
  with 2(2) ids_def show ?thesis by (intro exI [of _ ids] exI [of _ "?v\<lparr>v1_scheduler := i2\<rparr>"]) simp
qed

section \<open>Adding jobs\<close>

lemma added_job_found:
  assumes "core_inv c" "core_nextId c \<noteq> - 1" "addJob date sched opts cb now c = (Inr n, c')"
  shows "\<exists>r. getJobInfo c' n = (Inr (), info_of r) \<and> jr_id r = n \<and> jr_schedule r = sched \<and>
    jr_dispatch r = opt_dispatch opts \<and> jr_paused r = opt_startPaused opts"
proof -
  have v: "cb_valid cb" "validate sched" using assms(3) by (auto simp: addJob_def split: if_splits)
  obtain ok nm h where a: "str_assign (opt_name opts) (newString (core_usePSRAMMetadata c)) (core_heap c) = (ok, nm, h)"
    by (metis prod_cases3)
  have "ok" using assms(3) v a by (auto simp: addJob_def Let_def job_record_for_def newJobRecord_def split: if_splits)
  then have out: "add_outcome c (added_record sched opts cb c nm) (Inr n) c'"
    using addJob_outcome [OF assms(1,2) v _ assms(3)] a by simp
  then obtain s x where "occupant c' = (occupant c)(s \<mapsto> x)" and x: "job_view x = job_view (added_record sched opts cb c nm)"
    "core_inv c'" "n = core_nextId c" by (auto simp: add_outcome_def)
  then have o: "occupant c' s = Some x" by simp
  have f: "jr_id x = n" "\<not> jr_canceled x" "jr_schedule x = sched" "jr_paused x = opt_startPaused opts"
    "jr_dispatch x = jr_dispatch (added_record sched opts cb c nm)"
    using x(1,3) by (simp_all add: job_view_def)
  have "jr_dispatch (added_record sched opts cb c nm) = opt_dispatch opts"
    by (simp add: added_record_def Let_def job_record_for_def split: option.splits)
  moreover have "live c' s = Some x" using o f(2) by (simp add: live_def)
  then have "job_map c' n = Some x" using job_map_iff [OF x(2)] f(1) by blast
  then have "getJobInfo c' n = (Inr (), info_of x)" by (auto simp: job_map_def getJobInfo_def split: sum.splits)
  ultimately show ?thesis using f by auto
qed

lemma jobOptionsForMode_simps:
  "opt_dispatch (fst (jobOptionsForMode mode t v)) = (if mode = InlineMode then Inline else Async)"
  "\<not> opt_startPaused (fst (jobOptionsForMode mode t v))"
  "v1_trackedJobIds (snd (jobOptionsForMode mode t v)) = v1_trackedJobIds v"
  "v1_scheduler (snd (jobOptionsForMode mode t v)) = v1_scheduler v"
  by (auto simp: jobOptionsForMode_def defaultOptions_def Let_def split: option.splits)

text \<open>
  C14: when the wrapper returns an id other than 0 for a job, the id is tracked and the job is
  described back as it was added: enabled, with the same mode and the same schedule. This goes
  through the wrapper, the scheduler, its service and the core.
\<close>

theorem v1_added_job_described:
  assumes "fifo_queue cq items depth" "responsive items depth su m (v1_scheduler v)"
    and "core_inv (core_of (v1_scheduler v))" "core_nextId (core_of (v1_scheduler v)) \<noteq> - 1"
    and "v1_addJob_raw cq date su schedule mode callback userData taskCfg k m v = Some (n, v', k', m')" "n \<noteq> 0"
  shows "v1_trackedJobIds v' = v1_trackedJobIds v @ [n] \<and>
    (\<exists>info. getJobInfo (core_of (v1_scheduler v')) n = (Inr (), info) \<and> v1i_id (v1_info info) = n \<and>
      v1i_enabled (v1_info info) \<and> v1i_mode (v1_info info) = mode \<and> v1i_schedule (v1_info info) = schedule)"
proof -
  let ?i = "v1_scheduler v" and ?o = "jobOptionsForMode mode taskCfg v"
  obtain fn where fn: "callback = Some fn"
    using assms(5,6) by (cases callback) (auto simp: v1_addJob_raw_def add_tracked_def addJob_raw_def case_prod_unfold
        trackJob_def)
  obtain r i1 where a: "addJobImpl cq date su schedule (fst ?o) (raw_callback fn userData) k m ?i = Some (r, i1, k', m')"
    "n = (case r of Inr j \<Rightarrow> j | Inl e \<Rightarrow> 0)" "v' = trackJob n ((snd ?o)\<lparr>v1_scheduler := i1\<rparr>)"
    using assms(5) fn by (auto simp: v1_addJob_raw_def add_tracked_def addJob_raw_def case_prod_unfold Let_def
        jobOptionsForMode_simps)
  have r: "r = Inr n" using a(2) assms(6) by (cases r) auto
  have run: "running ?i"
    using a(1) r by (auto simp: running_def addJobImpl_def split: if_splits)
  have "addJob date schedule (fst ?o) (raw_callback fn userData) (fst (date_now k)) (core_of ?i) = (Inr n, core_of i1)"
    using addJobImpl_view [OF assms(1) run assms(2), of date schedule "fst ?o" "raw_callback fn userData" k] a(1) r
    by (auto simp: view_def split: if_splits prod.splits)
  from added_job_found [OF assms(3,4) this] obtain x where x: "getJobInfo (core_of i1) n = (Inr (), info_of x)"
    "jr_id x = n" "jr_schedule x = schedule" "jr_dispatch x = (if mode = InlineMode then Inline else Async)" "\<not> jr_paused x"
    by (auto simp: jobOptionsForMode_simps)
  have "v1i_mode (v1_info (info_of x)) = mode" using x(4) by (cases mode) (simp_all add: v1_info_def info_of_def)
  moreover have "v1_trackedJobIds v' = v1_trackedJobIds v @ [n]" "v1_scheduler v' = i1"
    using a(3) assms(6) by (simp_all add: trackJob_def jobOptionsForMode_simps)
  ultimately show ?thesis using x by (intro conjI exI [of _ "info_of x"]) (simp_all add: v1_info_def info_of_def)
qed

text \<open>
  A single unanswered call makes the wrapper forget a job that still exists: \<^verbatim>\<open>pruneTrackedJobs\<close> takes
  every failure for a missing job.
\<close>

lemma timeout_forgets_job:
  assumes "fac_getJobInfo cq date (su 0) j k m i = Some (out, Inl Timeout, i', k', m')" "v1_trackedJobIds v = [j]"
    and "v1_scheduler v = i"
  shows "\<exists>v'. pruneTrackedJobs cq date su k m v = Some (v', k', m') \<and> v1_trackedJobIds v' = []"
  using assms by (simp add: pruneTrackedJobs_def)

section \<open>Witnesses\<close>

definition sample_v1 :: "(nat \<times> nat option list, nat \<times> SchedulerEvent list, unit, nat) Impl
    \<Rightarrow> (nat \<times> nat option list, nat \<times> SchedulerEvent list, unit, nat) V1Compat" where
  "sample_v1 i = \<lparr>v1_trackedJobIds = [5, 1], v1_dedicatedTaskScratch = defaultDedicatedTask, v1_workerExecutorId = - 1,
     v1_scheduler = i\<rparr>"

theorem v1_getJobInfo_enumerates_witness:
  "\<exists>v'. v1_getJobInfo list_queue utc_date (\<lambda>n. sample_surroundings) 0 (\<lambda>n. epochDate) Map.empty (sample_v1 sample_background) =
     Some (True, v1_info (info_of (job_at sample_core 0)), v', (\<lambda>n. epochDate), Map.empty) \<and> v1_trackedJobIds v' = [1]"
proof -
  have a: "answering snd fst (\<lambda>n. sample_surroundings) Map.empty (v1_scheduler (sample_v1 sample_background))"
    by (simp add: answering_def responsive_def background_def sample_v1_def sample_defs)
  have c: "core_of (v1_scheduler (sample_v1 sample_background)) = sample_core"
    by (simp add: core_of_def background_def sample_v1_def sample_defs)
  have "findJobSlot sample_core 5 = Inl NotFound" by (simp add: sample_core_def exec)
  then have g: "getJobInfo sample_core 5 = (Inl NotFound, emptyJobInfo)"
    "getJobInfo sample_core 1 = (Inr (), info_of (job_at sample_core 0))"
    by (simp_all add: getJobInfo_def sample_core_simps)
  have "v1_trackedJobIds (sample_v1 sample_background) = [5, 1]" by (simp add: sample_v1_def)
  then show ?thesis
    using v1_getJobInfo_enumerates [OF list_queue_fifo a, of utc_date 0 "\<lambda>n. epochDate"] by (auto simp: c g)
qed

theorem v1_added_job_described_witness:
  "\<exists>v' k' m'. v1_addJob_raw list_queue utc_date sample_surroundings every_minute InlineMode (Some 7) 3 None
     (\<lambda>n. \<lparr>epochSeconds = 65\<rparr>) Map.empty (sample_v1 sample_manual) = Some (2, v', k', m') \<and>
     v1_trackedJobIds v' = [5, 1, 2]"
proof -
  let ?v = "sample_v1 sample_manual"
  have r: "responsive snd fst sample_surroundings Map.empty (v1_scheduler ?v)" "core_of (v1_scheduler ?v) = sample_core"
    by (simp_all add: responsive_def core_of_def background_def sample_v1_def sample_defs)
  have "fst (addJob utc_date every_minute (defaultOptions\<lparr>opt_dispatch := Inline\<rparr>) (raw_callback 7 3) \<lparr>epochSeconds = 65\<rparr>
      sample_core) = Inr 2"
    by (simp add: sample_core_def raw_callback_def cb_valid_def sample_callback_def exec)
  then obtain v' k' m' where a: "v1_addJob_raw list_queue utc_date sample_surroundings every_minute InlineMode (Some 7) 3 None
     (\<lambda>n. \<lparr>epochSeconds = 65\<rparr>) Map.empty ?v = Some (2, v', k', m')"
    by (simp add: v1_addJob_raw_def add_tracked_def addJob_raw_def addJobImpl_def jobOptionsForMode_def background_def
        date_now_def sample_v1_def sample_defs Let_def case_prod_unfold)
  have c: "core_inv (core_of (v1_scheduler ?v))" "core_nextId (core_of (v1_scheduler ?v)) \<noteq> - 1"
    using sample_core_inv by (simp_all add: r(2) sample_core_simps)
  have "v1_trackedJobIds v' = v1_trackedJobIds ?v @ [2]"
    using v1_added_job_described [OF list_queue_fifo r(1) c a] by simp
  with a show ?thesis by (simp add: sample_v1_def)
qed

end
