(* ===== verification/Test_Suite.thy ===== *)
theory Test_Suite
  imports V1_Spec Facade_Life "HOL-Library.Monad_Syntax"
begin

text \<open>
  The repository's own tests, \<^verbatim>\<open>test/test_esp_scheduler/test_esp_scheduler.cpp\<close>, as runs of the model. A
  test is the list of the conditions it asserts, in order; \<open>None\<close> would be a call that does not
  return. The date library is the calendar of the test's time zone UTC, the system clock stands
  still between two calls of \<^verbatim>\<open>setSystemTimeUtc\<close>. Six tests are left out: the two of the moon, the
  three that wait for real tasks or measure time, and the repetition of background commands.
\<close>

section \<open>The harness\<close>

text \<open>\<^verbatim>\<open>date.fromUtc\<close>: seconds since the epoch of a date of the Gregorian calendar.\<close>

definition fromUtc :: "int \<Rightarrow> int \<Rightarrow> int \<Rightarrow> int \<Rightarrow> int \<Rightarrow> int \<Rightarrow> DateTime" where
  "fromUtc y mon d hh mm ss =
     (let y = (if mon \<le> 2 then y - 1 else y);
          era = y div 400;
          yoe = y mod 400;
          doy = (153 * (if mon > 2 then mon - 3 else mon + 9) + 2) div 5 + d - 1;
          days = era * 146097 + yoe * 365 + yoe div 4 - yoe div 100 + doy - 719468
      in \<lparr>epochSeconds = days * 86400 + hh * 3600 + mm * 60 + ss\<rparr>)"

definition manualConfig :: SchedulerConfig where
  "manualConfig = defaultSchedulerConfig\<lparr>cfg_mode := Manual,
     cfg_service := defaultServiceConfig\<lparr>svc_eventQueueDepth := 16\<rparr>\<rparr>"

text \<open>The callbacks only count their calls; a call is recorded under the number of its function.\<close>

definition inlineCallback :: nat where "inlineCallback = 1"
definition asyncCallback :: nat where "asyncCallback = 2"

record TestQueueExecutor =
  te_invocations :: "JobInvocation list"
  te_runtime :: bool

definition kMaxInvocations :: nat where "kMaxInvocations = 8"

definition te_begin :: "bool \<Rightarrow> TestQueueExecutor \<Rightarrow> bool \<times> TestQueueExecutor" where
  "te_begin runtime x = (True, x\<lparr>te_runtime := runtime, te_invocations := []\<rparr>)"

definition te_end :: "bool \<Rightarrow> TestQueueExecutor \<Rightarrow> TestQueueExecutor" where
  "te_end drainRunningJobs x = x\<lparr>te_runtime := False, te_invocations := []\<rparr>"

definition te_submit :: "JobInvocation \<Rightarrow> TestQueueExecutor \<Rightarrow> bool \<times> TestQueueExecutor" where
  "te_submit invocation x =
     (if length (te_invocations x) \<ge> kMaxInvocations then (False, x)
      else (True, x\<lparr>te_invocations := te_invocations x @ [invocation]\<rparr>))"

text \<open>The executors of a test: the one above is registered, the built-in ones besides the inline one are not used.\<close>

record TestExecutors =
  tx_queue :: TestQueueExecutor
  tx_calls :: "nat list"

definition call_back :: "JobInvocation \<Rightarrow> TestExecutors \<Rightarrow> TestExecutors" where
  "call_back invocation x =
     (case cb_invoke (inv_callback invocation) of
        None \<Rightarrow> x
      | Some (fn, userData) \<Rightarrow> x\<lparr>tx_calls := tx_calls x @ [fn]\<rparr>)"

definition test_ops :: "TestExecutors ExecutorOps" where
  "test_ops =
     \<lparr>ex_begin = (\<lambda>r x. case r of
          ExternalRef n \<Rightarrow> let (ok, q) = te_begin True (tx_queue x) in (ok, x\<lparr>tx_queue := q\<rparr>)
        | _ \<Rightarrow> (True, x)),
      ex_end = (\<lambda>r drain x. case r of
          ExternalRef n \<Rightarrow> x\<lparr>tx_queue := te_end drain (tx_queue x)\<rparr>
        | _ \<Rightarrow> x),
      ex_submit = (\<lambda>r invocation x. case r of
          InlineRef \<Rightarrow> (True, call_back invocation x)
        | ExternalRef n \<Rightarrow> let (ok, q) = te_submit invocation (tx_queue x) in (ok, x\<lparr>tx_queue := q\<rparr>)
        | _ \<Rightarrow> (False, x))\<rparr>"

type_synonym test_scheduler =
  "(nat \<times> nat option list, nat \<times> SchedulerEvent list, TestExecutors, nat) Impl"

definition queued_runs :: "test_scheduler \<Rightarrow> nat" where
  "queued_runs i = length (te_invocations (tx_queue (im_x i)))"

definition hits :: "nat \<Rightarrow> test_scheduler \<Rightarrow> nat" where
  "hits fn i = count_list (tx_calls (im_x i)) fn"

text \<open>\<^verbatim>\<open>completeOne\<close>, with the conditions it asserts.\<close>

definition completeOne :: "test_scheduler \<Rightarrow> bool list \<times> test_scheduler" where
  "completeOne i =
     (case te_invocations (tx_queue (im_x i)) of
        [] \<Rightarrow> ([False], i)
      | invocation # rest \<Rightarrow>
          let x = (im_x i)\<lparr>tx_queue := (tx_queue (im_x i))\<lparr>te_invocations := rest\<rparr>\<rparr>;
              x = call_back invocation x;
              event = finished_event (inv_jobId invocation) (inv_generation invocation) (inv_slotIndex invocation)
          in case im_eventQueue i of
               None \<Rightarrow> ([True, False], i\<lparr>im_x := x\<rparr>)
             | Some q \<Rightarrow> let (sent, q) = xQueueSend list_queue event q
                         in ([True, True, sent], i\<lparr>im_x := x, im_eventQueue := Some q\<rparr>))"

text \<open>Calls of the scheduler at a given system time, with enough memory and a service that answers.\<close>

definition system_time :: "DateTime \<Rightarrow> clock" where "system_time t = (\<lambda>n. t)"

definition test_surroundings ::
  "(nat \<times> nat option list, nat \<times> SchedulerEvent list, nat) Surroundings" where
  "test_surroundings = \<lparr>su_address = 1, su_responds = True, su_exited = True, su_rounds = 3, su_env = (\<lambda>s. s), su_listener = 1\<rparr>"

definition new_scheduler :: "SchedulerConfig \<Rightarrow> test_scheduler" where
  "new_scheduler config = newScheduler 200 config plenty
     \<lparr>tx_queue = \<lparr>te_invocations = [], te_runtime = False\<rparr>, tx_calls = []\<rparr>"

definition begin_at :: "DateTime \<Rightarrow> test_scheduler \<Rightarrow> (bool \<times> test_scheduler) option" where
  "begin_at t i = map_option (\<lambda>(ok, i, k, m). (ok, i))
     (scheduler_begin 200 list_queue list_queue utc_date counting_os test_ops test_surroundings 0 (system_time t) Map.empty i)"

definition end_at :: "DateTime \<Rightarrow> test_scheduler \<Rightarrow> test_scheduler option" where
  "end_at t i = map_option fst
     (scheduler_end list_queue list_queue utc_date counting_os test_ops test_surroundings True (system_time t) Map.empty i)"

definition reply :: "('r, nat \<times> nat option list, nat \<times> SchedulerEvent list, TestExecutors, nat) outcome
    \<Rightarrow> ('r SchedulerResult \<times> test_scheduler) option" where
  "reply r = map_option (\<lambda>(r, i, k, m). (r, i)) r"

definition add_at :: "DateTime \<Rightarrow> ScheduleSpec \<Rightarrow> JobOptions \<Rightarrow> nat \<Rightarrow> test_scheduler \<Rightarrow> (u32 SchedulerResult \<times> test_scheduler) option" where
  "add_at t spec options fn i =
     reply (addJob_raw list_queue utc_date test_surroundings spec options (Some fn) 0 (system_time t) Map.empty i)"

definition add_once_at :: "DateTime \<Rightarrow> DateTime \<Rightarrow> JobOptions \<Rightarrow> nat \<Rightarrow> test_scheduler \<Rightarrow> (u32 SchedulerResult \<times> test_scheduler) option" where
  "add_once_at t whenUtc options fn i =
     reply (addJobOnceUtc_raw list_queue utc_date test_surroundings whenUtc options (Some fn) 0 (system_time t) Map.empty i)"

definition cancel_at :: "DateTime \<Rightarrow> u32 \<Rightarrow> test_scheduler \<Rightarrow> (unit SchedulerResult \<times> test_scheduler) option" where
  "cancel_at t k i = reply (fac_cancelJob list_queue utc_date test_surroundings k (system_time t) Map.empty i)"

definition pause_at :: "DateTime \<Rightarrow> u32 \<Rightarrow> test_scheduler \<Rightarrow> (unit SchedulerResult \<times> test_scheduler) option" where
  "pause_at t k i = reply (fac_pauseJob list_queue utc_date test_surroundings k (system_time t) Map.empty i)"

definition resume_at :: "DateTime \<Rightarrow> u32 \<Rightarrow> test_scheduler \<Rightarrow> (unit SchedulerResult \<times> test_scheduler) option" where
  "resume_at t k i = reply (fac_resumeJob list_queue utc_date test_surroundings k (system_time t) Map.empty i)"

definition cancel_all_at :: "DateTime \<Rightarrow> test_scheduler \<Rightarrow> (unit SchedulerResult \<times> test_scheduler) option" where
  "cancel_all_at t i = reply (fac_cancelAll list_queue utc_date test_surroundings (system_time t) Map.empty i)"

definition refresh_at :: "DateTime \<Rightarrow> test_scheduler \<Rightarrow> (unit SchedulerResult \<times> test_scheduler) option" where
  "refresh_at t i =
     reply (fac_refreshAllSchedules list_queue list_queue utc_date test_ops test_surroundings (system_time t) Map.empty i)"

definition count_at :: "DateTime \<Rightarrow> test_scheduler \<Rightarrow> (nat SchedulerResult \<times> test_scheduler) option" where
  "count_at t i = reply (fac_jobCount list_queue utc_date test_surroundings (system_time t) Map.empty i)"

definition info_at :: "DateTime \<Rightarrow> u32 \<Rightarrow> test_scheduler \<Rightarrow> (JobInfo \<times> unit SchedulerResult \<times> test_scheduler) option" where
  "info_at t k i = map_option (\<lambda>(out, r, i, k, m). (case out of Some info \<Rightarrow> info | None \<Rightarrow> emptyJobInfo, r, i))
     (fac_getJobInfo list_queue utc_date test_surroundings k (system_time t) Map.empty i)"

definition set_min_at :: "DateTime \<Rightarrow> int \<Rightarrow> test_scheduler \<Rightarrow> test_scheduler option" where
  "set_min_at t s i = map_option fst (fac_setMinValidUnixSeconds list_queue utc_date test_surroundings s (system_time t) Map.empty i)"

definition tick_at :: "DateTime \<Rightarrow> test_scheduler \<Rightarrow> test_scheduler option" where
  "tick_at t i = tick list_queue utc_date test_ops t i"

definition value_of :: "u32 SchedulerResult \<Rightarrow> u32" where
  "value_of r = (case r of Inr n \<Rightarrow> n | Inl e \<Rightarrow> 0)"

text \<open>\<^verbatim>\<open>setUp\<close>: the shared scheduler at the start of a test.\<close>

definition new_year :: DateTime where "new_year = fromUtc 2025 1 1 0 0 0"

definition setUp :: "test_scheduler option" where
  "setUp = do {
     (ok, i) \<leftarrow> begin_at new_year (new_scheduler manualConfig);
     i \<leftarrow> set_min_at new_year 1577836800 i;
     (r, i) \<leftarrow> cancel_all_at new_year i;
     Some i }"

text \<open>A test passes if it returns and every condition holds.\<close>

definition passes :: "bool list option \<Rightarrow> bool" where
  "passes r = (case r of None \<Rightarrow> False | Some bs \<Rightarrow> list_all (\<lambda>b. b) bs)"

section \<open>Life cycle\<close>

definition test_begin_is_idempotent_and_end_is_explicit :: "bool list option" where
  "test_begin_is_idempotent_and_end_is_explicit = do {
     let i0 = new_scheduler manualConfig;
     (b1, i1) \<leftarrow> begin_at new_year i0;
     (b2, i2) \<leftarrow> begin_at new_year i1;
     i3 \<leftarrow> end_at new_year i2;
     Some [\<not> running i0, b1, b2, running i2, \<not> running i3] }"

definition test_begin_fails_for_missing_builtin_espworker :: "bool list option" where
  "test_begin_fails_for_missing_builtin_espworker = do {
     let i = new_scheduler (manualConfig\<lparr>cfg_defaultAsyncBackend := ESPWorker, cfg_espWorker := False\<rparr>);
     (b, i) \<leftarrow> begin_at new_year i;
     Some [\<not> b, defaultESPWorkerExecutor i = kInvalidExecutorId] }"

definition test_builtin_espworker_executor_id_available_when_configured :: "bool list option" where
  "test_builtin_espworker_executor_id_available_when_configured = do {
     let i = new_scheduler (manualConfig\<lparr>cfg_defaultAsyncBackend := ESPWorker, cfg_espWorker := True\<rparr>);
     (b, i1) \<leftarrow> begin_at new_year i;
     i2 \<leftarrow> end_at new_year i1;
     Some [defaultESPWorkerExecutor i = 0, defaultWorkerExecutor i = kInvalidExecutorId, b] }"

definition test_begin_fails_for_invalid_service_stack_size :: "bool list option" where
  "test_begin_fails_for_invalid_service_stack_size = do {
     (b, i) \<leftarrow> begin_at new_year (new_scheduler
       (defaultSchedulerConfig\<lparr>cfg_mode := Background, cfg_service := defaultServiceConfig\<lparr>svc_taskStackSize := 1000\<rparr>\<rparr>));
     Some [\<not> b] }"

section \<open>The calendar\<close>

definition next_is :: "ScheduleSpec \<Rightarrow> DateTime \<Rightarrow> DateTime \<Rightarrow> bool list option" where
  "next_is s t expected = Some (case computeNextOccurrence utc_date s t of
      None \<Rightarrow> [False] | Some n \<Rightarrow> [True, isEqual utc_date n expected])"

definition test_daily_at_local_next_same_day :: "bool list option" where
  "test_daily_at_local_next_same_day =
     next_is (dailyAtLocal 9 30) (fromUtc 2025 1 1 8 15 10) (fromUtc 2025 1 1 9 30 0)"

definition test_daily_at_local_rolls_to_next_day :: "bool list option" where
  "test_daily_at_local_rolls_to_next_day =
     next_is (dailyAtLocal 6 0) (fromUtc 2025 1 1 7 0 1) (fromUtc 2025 1 2 6 0 0)"

definition test_weekly_mask_advances_to_next_weekday :: "bool list option" where
  "test_weekly_mask_advances_to_next_weekday =
     next_is (weeklyAtLocal 62 18 30) (fromUtc 2025 3 4 19 0 0) (fromUtc 2025 3 5 18 30 0)"

definition test_dom_dow_or_logic_matches_either :: "bool list option" where
  "test_dom_dow_or_logic_matches_either =
     next_is (custom (sf_only 0) (sf_only 9) (sf_only 10) sf_any (sf_only 1))
       (fromUtc 2024 7 1 8 0 0) (fromUtc 2024 7 1 9 0 0)"

definition test_next_wake_ticks_prefers_local_midnight_over_later_due_job :: "(u32 \<Rightarrow> ticks) \<Rightarrow> bool list option" where
  "test_next_wake_ticks_prefers_local_midnight_over_later_due_job pdMS_TO_TICKS =
     Some [nextWakeTicks utc_date pdMS_TO_TICKS (fromUtc 2025 1 1 23 59 30) True
             (epochSeconds (fromUtc 2025 1 2 10 0 0)) (pdMS_TO_TICKS 1000) = pdMS_TO_TICKS 30000]"

section \<open>Jobs in manual mode\<close>

definition test_inline_tick_runs_and_reschedules :: "bool list option" where
  "test_inline_tick_runs_and_reschedules = do {
     i \<leftarrow> setUp;
     (added, i) \<leftarrow> add_at new_year (dailyAtLocal 6 0) defaultOptions inlineCallback i;
     i1 \<leftarrow> tick_at (fromUtc 2025 1 1 6 0 0) i;
     i2 \<leftarrow> tick_at (fromUtc 2025 1 1 23 0 0) i1;
     i3 \<leftarrow> tick_at (fromUtc 2025 1 2 6 0 0) i2;
     Some [res_ok added, hits inlineCallback i1 = 1, hits inlineCallback i2 = 1, hits inlineCallback i3 = 2] }"

definition test_get_job_info_reports_next_run_by_job_id :: "bool list option" where
  "test_get_job_info_reports_next_run_by_job_id = do {
     i \<leftarrow> setUp;
     (added, i) \<leftarrow> add_at new_year (dailyAtLocal 6 0) defaultOptions inlineCallback i;
     (info, r, i) \<leftarrow> info_at new_year (value_of added) i;
     Some [res_ok added, res_ok r, ji_id info = value_of added, \<not> ji_paused info, ji_hasNext info,
           isEqual utc_date (ji_nextRunUtc info) (fromUtc 2025 1 1 6 0 0)] }"

definition test_tick_waits_until_clock_valid_and_primes_once :: "bool list option" where
  "test_tick_waits_until_clock_valid_and_primes_once = do {
     i \<leftarrow> setUp;
     (added, i) \<leftarrow> add_once_at new_year (fromUtc 2025 1 1 6 0 0) defaultOptions inlineCallback i;
     i1 \<leftarrow> tick_at (fromUtc 1970 1 1 0 0 0) i;
     i2 \<leftarrow> tick_at (fromUtc 2025 1 1 6 0 0) i1;
     i3 \<leftarrow> tick_at (fromUtc 2025 1 1 6 1 0) i2;
     Some [res_ok added, hits inlineCallback i1 = 0, hits inlineCallback i2 = 1, hits inlineCallback i3 = 1] }"

text \<open>The body of the next test, with the scheduler as it is before \<^verbatim>\<open>end\<close>.\<close>

definition recurring_run :: "(bool list \<times> test_scheduler) option" where
  "recurring_run = do {
     (b, i) \<leftarrow> begin_at new_year (new_scheduler manualConfig);
     let t0 = fromUtc 1970 1 1 0 0 0;
     (added, i) \<leftarrow> add_at t0 (dailyAtLocal 6 0) defaultOptions inlineCallback i;
     (info1, r1, i) \<leftarrow> info_at t0 (value_of added) i;
     i \<leftarrow> tick_at t0 i;
     (info2, r2, i) \<leftarrow> info_at t0 (value_of added) i;
     i \<leftarrow> tick_at new_year i;
     (info3, r3, i) \<leftarrow> info_at new_year (value_of added) i;
     Some ([b, res_ok added, res_ok r1, \<not> ji_hasNext info1, res_ok r2, \<not> ji_hasNext info2, res_ok r3, ji_hasNext info3,
           isEqual utc_date (ji_nextRunUtc info3) (fromUtc 2025 1 1 6 0 0)], i) }"

definition test_recurring_job_waits_until_clock_valid_before_priming :: "bool list option" where
  "test_recurring_job_waits_until_clock_valid_before_priming = do {
     (conditions, i) \<leftarrow> recurring_run;
     i \<leftarrow> end_at new_year i;
     Some conditions }"

definition test_pause_resume_cancel_and_job_count :: "bool list option" where
  "test_pause_resume_cancel_and_job_count = do {
     i \<leftarrow> setUp;
     (first, i) \<leftarrow> add_at new_year (dailyAtLocal 6 0) defaultOptions inlineCallback i;
     (second, i) \<leftarrow> add_at new_year (dailyAtLocal 7 0) defaultOptions inlineCallback i;
     (n1, i) \<leftarrow> count_at new_year i;
     (r1, i) \<leftarrow> pause_at new_year (value_of first) i;
     (r2, i) \<leftarrow> resume_at new_year (value_of first) i;
     (r3, i) \<leftarrow> cancel_at new_year (value_of second) i;
     (n2, i) \<leftarrow> count_at new_year i;
     Some [res_ok first, res_ok second, n1 = Inr 2, res_ok r1, res_ok r2, res_ok r3, n2 = Inr 1] }"

definition test_slot_reuse_keeps_old_job_id_invalid :: "bool list option" where
  "test_slot_reuse_keeps_old_job_id_invalid = do {
     (b, i) \<leftarrow> begin_at new_year (new_scheduler manualConfig);
     (first, i) \<leftarrow> add_once_at new_year (fromUtc 2025 1 1 6 0 0) defaultOptions inlineCallback i;
     i \<leftarrow> tick_at (fromUtc 2025 1 1 6 0 0) i;
     (info1, r1, i) \<leftarrow> info_at new_year (value_of first) i;
     (second, i) \<leftarrow> add_at new_year (dailyAtLocal 7 0) defaultOptions inlineCallback i;
     i \<leftarrow> tick_at (fromUtc 2025 1 1 6 1 0) i;
     (info2, r2, i) \<leftarrow> info_at new_year (value_of second) i;
     i \<leftarrow> end_at new_year i;
     Some [b, res_ok first, r1 = Inl NotFound, res_ok second, value_of first \<noteq> value_of second, res_ok r2,
           ji_id info2 = value_of second] }"

definition test_executor_unavailable_is_reported :: "bool list option" where
  "test_executor_unavailable_is_reported = do {
     i \<leftarrow> setUp;
     (r, i) \<leftarrow> add_at new_year (dailyAtLocal 6 0) (defaultOptions\<lparr>opt_dispatch := Async, opt_executorId := 99\<rparr>) asyncCallback i;
     Some [r = Inl ExecutorUnavailable] }"

definition test_refresh_all_schedules_updates_local_recurring_job :: "bool list option" where
  "test_refresh_all_schedules_updates_local_recurring_job = do {
     i \<leftarrow> setUp;
     let t1 = fromUtc 2025 1 1 8 0 0;
     (added, i) \<leftarrow> add_at t1 (dailyAtLocal 9 30) defaultOptions inlineCallback i;
     (info1, r1, i) \<leftarrow> info_at t1 (value_of added) i;
     let t2 = fromUtc 2025 1 1 10 0 0;
     (r2, i) \<leftarrow> refresh_at t2 i;
     (info3, r3, i) \<leftarrow> info_at t2 (value_of added) i;
     Some [res_ok added, res_ok r1, ji_hasNext info1, isEqual utc_date (ji_nextRunUtc info1) (fromUtc 2025 1 1 9 30 0),
           res_ok r2, res_ok r3, ji_hasNext info3, isEqual utc_date (ji_nextRunUtc info3) (fromUtc 2025 1 2 9 30 0)] }"

definition test_refresh_all_schedules_leaves_one_shot_utc_unchanged :: "bool list option" where
  "test_refresh_all_schedules_leaves_one_shot_utc_unchanged = do {
     i \<leftarrow> setUp;
     let whenUtc = fromUtc 2025 1 1 12 0 0;
     (added, i) \<leftarrow> add_once_at (fromUtc 2025 1 1 8 0 0) whenUtc defaultOptions inlineCallback i;
     let t2 = fromUtc 2025 1 1 10 0 0;
     (r1, i) \<leftarrow> refresh_at t2 i;
     (info, r2, i) \<leftarrow> info_at t2 (value_of added) i;
     Some [res_ok added, res_ok r1, res_ok r2, ji_hasNext info, isEqual utc_date (ji_nextRunUtc info) whenUtc] }"

definition test_local_midnight_refreshes_before_due_dispatch :: "bool list option" where
  "test_local_midnight_refreshes_before_due_dispatch = do {
     i \<leftarrow> setUp;
     let t = fromUtc 2025 1 1 0 10 0;
     (added, i) \<leftarrow> add_at t (dailyAtLocal 6 0) defaultOptions inlineCallback i;
     i1 \<leftarrow> tick_at t i;
     i2 \<leftarrow> tick_at (fromUtc 2025 1 2 0 1 0) i1;
     (info, r, i3) \<leftarrow> info_at t (value_of added) i2;
     Some [res_ok added, hits inlineCallback i1 = 0, hits inlineCallback i2 = 0, res_ok r,
           isEqual utc_date (ji_nextRunUtc info) (fromUtc 2025 1 2 6 0 0)] }"

definition test_ntp_listener_refreshes_on_next_tick :: "bool list option" where
  "test_ntp_listener_refreshes_on_next_tick = do {
     i \<leftarrow> setUp;
     let t = fromUtc 2025 1 1 0 10 0;
     (added, i) \<leftarrow> add_at t (dailyAtLocal 6 0) defaultOptions inlineCallback i;
     i1 \<leftarrow> tick_at t i;
     let synced = fromUtc 2025 1 2 0 1 0;
     i2 \<leftarrow> tick_at synced (on_time_sync list_queue i1);
     (info, r, i3) \<leftarrow> info_at synced (value_of added) i2;
     Some [res_ok added, hits inlineCallback i1 = 0, hits inlineCallback i2 = 0, res_ok r,
           isEqual utc_date (ji_nextRunUtc info) (fromUtc 2025 1 2 6 0 0)] }"

definition test_invalid_astronomical_schedule_validation :: "bool list option" where
  "test_invalid_astronomical_schedule_validation = do {
     i \<leftarrow> setUp;
     (r1, i) \<leftarrow> add_at new_year (spec_sunrise 1500) defaultOptions inlineCallback i;
     (r2, i) \<leftarrow> add_at new_year (moonPhaseAngle 360 1) defaultOptions inlineCallback i;
     (r3, i) \<leftarrow> add_at new_year (moonIlluminationPercent (Fin 50) (Fin 0)) defaultOptions inlineCallback i;
     Some [\<not> res_ok r1, \<not> res_ok r2, \<not> res_ok r3] }"

section \<open>Sunrise and sunset\<close>

text \<open>The sun of the calendar rises at six and sets at eighteen o'clock.\<close>

definition test_astronomical_job_primes_next_run_immediately :: "bool list option" where
  "test_astronomical_job_primes_next_run_immediately = do {
     i \<leftarrow> setUp;
     let t = fromUtc 2025 6 1 0 0 0;
     (added, i) \<leftarrow> add_at t (spec_sunrise 0) defaultOptions inlineCallback i;
     (info, r, i) \<leftarrow> info_at t (value_of added) i;
     let riseToday = date_sunrise utc_date t;
     Some [res_ok added, res_ok r, ji_hasNext info, sun_ok riseToday,
           isEqual utc_date (ji_nextRunUtc info) (sun_value riseToday)] }"

definition test_sunrise_next_occurrence_with_offsets :: "bool list option" where
  "test_sunrise_next_occurrence_with_offsets = do {
     let t = fromUtc 2025 6 1 0 0 0;
     let riseToday = date_sunrise utc_date t;
     a \<leftarrow> next_is (spec_sunrise 0) t (sun_value riseToday);
     b \<leftarrow> next_is (spec_sunrise 30) t (addMinutes utc_date (sun_value riseToday) 30);
     Some (sun_ok riseToday # a @ b) }"

definition test_sunset_next_occurrence_with_offsets :: "bool list option" where
  "test_sunset_next_occurrence_with_offsets = do {
     let t = fromUtc 2025 6 1 0 0 0;
     let setToday = date_sunset utc_date t;
     a \<leftarrow> next_is (spec_sunset 0) t (sun_value setToday);
     b \<leftarrow> next_is (spec_sunset (- 20)) t (addMinutes utc_date (sun_value setToday) (- 20));
     Some (sun_ok setToday # a @ b) }"

definition test_refresh_all_schedules_updates_sunrise_schedule :: "bool list option" where
  "test_refresh_all_schedules_updates_sunrise_schedule = do {
     i \<leftarrow> setUp;
     let t1 = fromUtc 2025 6 1 0 0 0;
     (added, i) \<leftarrow> add_at t1 (spec_sunrise 0) defaultOptions inlineCallback i;
     (info1, r1, i) \<leftarrow> info_at t1 (value_of added) i;
     let riseToday = date_sunrise utc_date t1;
     let t2 = fromUtc 2025 6 1 12 0 0;
     (r2, i) \<leftarrow> refresh_at t2 i;
     (info2, r3, i) \<leftarrow> info_at t2 (value_of added) i;
     expected \<leftarrow> next_is (spec_sunrise 0) t2 (ji_nextRunUtc info2);
     Some ([res_ok added, res_ok r1, sun_ok riseToday, isEqual utc_date (ji_nextRunUtc info1) (sun_value riseToday),
            res_ok r2, res_ok r3] @ expected) }"

section \<open>Overlapping runs\<close>

text \<open>The start that these tests share: the registered executor, and a daily job for it at six.\<close>

definition overlap_start ::
  "OverlapPolicy \<Rightarrow> (bool list \<times> u32 SchedulerResult \<times> test_scheduler) option" where
  "overlap_start overlap = do {
     let (executorId, i) = registerExecutor (Some (ExternalRef 0)) (new_scheduler manualConfig);
     (b, i) \<leftarrow> begin_at new_year i;
     (added, i) \<leftarrow> add_at new_year (dailyAtLocal 6 0)
       (defaultOptions\<lparr>opt_dispatch := Async, opt_executorId := (case executorId of Inr n \<Rightarrow> n | Inl e \<Rightarrow> 0),
          opt_overlap := overlap\<rparr>) asyncCallback i;
     Some ([res_ok executorId, b, res_ok added], added, i) }"

definition test_skip_if_running_behavior :: "bool list option" where
  "test_skip_if_running_behavior = do {
     (ok, skipJob, i) \<leftarrow> overlap_start SkipIfRunning;
     i1 \<leftarrow> tick_at (fromUtc 2025 1 1 6 0 0) i;
     i2 \<leftarrow> tick_at (fromUtc 2025 1 2 6 0 0) i1;
     let (c, i3) = completeOne i2;
     i4 \<leftarrow> tick_at (fromUtc 2025 1 2 6 0 0) i3;
     i5 \<leftarrow> tick_at (fromUtc 2025 1 3 6 0 0) i4;
     i6 \<leftarrow> end_at new_year i5;
     Some (ok @ [queued_runs i1 = 1, queued_runs i2 = 1] @ c @
           [hits asyncCallback i4 = 1, queued_runs i4 = 0, queued_runs i5 = 1]) }"

definition test_queue_one_behavior :: "bool list option" where
  "test_queue_one_behavior = do {
     (ok, added, i) \<leftarrow> overlap_start QueueOne;
     i1 \<leftarrow> tick_at (fromUtc 2025 1 1 6 0 0) i;
     i2 \<leftarrow> tick_at (fromUtc 2025 1 2 6 0 0) i1;
     i3 \<leftarrow> tick_at (fromUtc 2025 1 3 6 0 0) i2;
     let (c1, i4) = completeOne i3;
     i5 \<leftarrow> tick_at (fromUtc 2025 1 3 6 0 0) i4;
     let (c2, i6) = completeOne i5;
     i7 \<leftarrow> tick_at (fromUtc 2025 1 3 6 1 0) i6;
     i8 \<leftarrow> end_at new_year i7;
     Some (ok @ [queued_runs i3 = 1] @ c1 @ [queued_runs i5 = 1] @ c2 @ [hits asyncCallback i7 = 2]) }"

definition test_allow_parallel_behavior :: "bool list option" where
  "test_allow_parallel_behavior = do {
     (ok, added, i) \<leftarrow> overlap_start AllowParallel;
     i1 \<leftarrow> tick_at (fromUtc 2025 1 1 6 0 0) i;
     i2 \<leftarrow> tick_at (fromUtc 2025 1 2 6 0 0) i1;
     let (c1, i3) = completeOne i2;
     let (c2, i4) = completeOne i3;
     i5 \<leftarrow> tick_at (fromUtc 2025 1 2 6 1 0) i4;
     i6 \<leftarrow> end_at new_year i5;
     Some (ok @ [queued_runs i2 = 2] @ c1 @ c2 @ [hits asyncCallback i5 = 2]) }"

definition test_cancel_running_async_job_and_stale_completion_is_ignored :: "bool list option" where
  "test_cancel_running_async_job_and_stale_completion_is_ignored = do {
     (ok, added, i) \<leftarrow> overlap_start SkipIfRunning;
     i1 \<leftarrow> tick_at (fromUtc 2025 1 1 6 0 0) i;
     (r1, i2) \<leftarrow> cancel_at new_year (value_of added) i1;
     let (c, i3) = completeOne i2;
     i4 \<leftarrow> tick_at (fromUtc 2025 1 1 6 1 0) i3;
     (info, r2, i5) \<leftarrow> info_at new_year (value_of added) i4;
     i6 \<leftarrow> end_at new_year i5;
     Some (ok @ [queued_runs i1 = 1, res_ok r1] @ c @ [r2 = Inl NotFound]) }"

section \<open>Background mode\<close>

definition background_start :: "(bool \<times> test_scheduler) option" where
  "background_start = do {
     (b, i) \<leftarrow> begin_at new_year (new_scheduler defaultSchedulerConfig);
     i \<leftarrow> set_min_at new_year 0 i;
     Some (b, i) }"

definition test_background_multiple_add_job_commands_do_not_corrupt_command_lifetime :: "bool list option" where
  "test_background_multiple_add_job_commands_do_not_corrupt_command_lifetime = do {
     (b, i) \<leftarrow> background_start;
     (recurring, i) \<leftarrow> add_at new_year (dailyAtLocal 6 0) defaultOptions inlineCallback i;
     (oneShot, i) \<leftarrow> add_once_at new_year (addSeconds utc_date new_year 60) defaultOptions inlineCallback i;
     (n, i) \<leftarrow> count_at new_year i;
     i \<leftarrow> end_at new_year i;
     Some [b, res_ok recurring, res_ok oneShot, n = Inr 2] }"

definition test_background_refresh_all_schedules_roundtrip_updates_next_run :: "bool list option" where
  "test_background_refresh_all_schedules_roundtrip_updates_next_run = do {
     (b, i) \<leftarrow> background_start;
     let t1 = fromUtc 2025 1 1 8 0 0;
     (added, i) \<leftarrow> add_at t1 (dailyAtLocal 9 30) defaultOptions inlineCallback i;
     (info1, r1, i) \<leftarrow> info_at t1 (value_of added) i;
     let t2 = fromUtc 2025 1 1 10 0 0;
     (r2, i) \<leftarrow> refresh_at t2 i;
     (info3, r3, i) \<leftarrow> info_at t2 (value_of added) i;
     i \<leftarrow> end_at t2 i;
     Some [b, res_ok added, res_ok r1, isEqual utc_date (ji_nextRunUtc info1) (fromUtc 2025 1 1 9 30 0),
           res_ok r2, res_ok r3, isEqual utc_date (ji_nextRunUtc info3) (fromUtc 2025 1 2 9 30 0)] }"

section \<open>Version 1\<close>

definition test_v1_compat_cleanup_prunes_canceled_jobs :: "bool list option" where
  "test_v1_compat_cleanup_prunes_canceled_jobs = do {
     let su = (\<lambda>n :: nat. test_surroundings);
     (v, k, m) \<leftarrow> newV1Compat 200 list_queue list_queue utc_date counting_os test_ops test_surroundings 0 plenty
       \<lparr>tx_queue = \<lparr>te_invocations = [], te_runtime = False\<rparr>, tx_calls = []\<rparr> False \<lparr>ecf_usePSRAMBuffers = False\<rparr>
       (system_time new_year) Map.empty;
     (jobId, v, k, m) \<leftarrow> v1_addJob_raw list_queue utc_date test_surroundings (dailyAtLocal 6 0) InlineMode
       (Some inlineCallback) 0 None k m v;
     (found1, info1, v, k, m) \<leftarrow> v1_getJobInfo list_queue utc_date su 0 k m v;
     (canceled, v, k, m) \<leftarrow> v1_cancelJob list_queue utc_date test_surroundings jobId k m v;
     (v, k, m) \<leftarrow> v1_cleanup list_queue utc_date su k m v;
     (found2, info2, v, k, m) \<leftarrow> v1_getJobInfo list_queue utc_date su 0 k m v;
     (v, k, m) \<leftarrow> v1_deinit list_queue list_queue utc_date counting_os test_ops test_surroundings k m v;
     Some [jobId \<noteq> 0, found1, v1i_id info1 = jobId, canceled, \<not> found2] }"

end
