(* ===== verification/Test_Results.thy ===== *)
theory Test_Results
  imports Test_Suite
begin

text \<open>
  The outcome of the repository's tests on the model, by evaluation in the kernel. The search for the
  next time of the day is replaced by its closed form first; everything else is run as it stands.
\<close>

section \<open>Fixed times of the day\<close>

text \<open>The calendar of the tests, in the form the simplifier uses.\<close>

lemma utc_calendar [simp]:
  "getMonthLocal utc_date d = fst (civil_month_day (epochSeconds d div 86400))"
  "getDayLocal utc_date d = snd (civil_month_day (epochSeconds d div 86400))"
  "getWeekdayLocal utc_date d = (epochSeconds d div 86400 + 4) mod 7"
  "differenceInMinutes utc_date d e = (epochSeconds d - epochSeconds e) div 60"
  "isEqual utc_date d e \<longleftrightarrow> epochSeconds d = epochSeconds e"
  "isBefore utc_date d e \<longleftrightarrow> epochSeconds d < epochSeconds e"
  "addSeconds utc_date d n = \<lparr>epochSeconds = epochSeconds d + n\<rparr>"
  "addMinutes utc_date d n = \<lparr>epochSeconds = epochSeconds d + 60 * n\<rparr>"
  "addDays utc_date d n = \<lparr>epochSeconds = epochSeconds d + 86400 * n\<rparr>"
  "startOfDayLocal utc_date d = \<lparr>epochSeconds = epochSeconds d - epochSeconds d mod 86400\<rparr>"
  "date_sunrise utc_date d = \<lparr>sun_ok = True, sun_value = \<lparr>epochSeconds = epochSeconds d - epochSeconds d mod 86400 + 21600\<rparr>\<rparr>"
  "date_sunset utc_date d = \<lparr>sun_ok = True, sun_value = \<lparr>epochSeconds = epochSeconds d - epochSeconds d mod 86400 + 64800\<rparr>\<rparr>"
  by (simp_all add: utc_date_def fixed_offset_date_def local_days_def local_time_def minus_div_mult_eq_mod minus_mod_eq_div_mult)

lemma next_cron_utc:
  assumes "t mod 60 = 0" "epochSeconds s \<le> t" "t < epochSeconds s + 86400"
    and "cron_matches utc_date spec \<lparr>epochSeconds = t\<rparr>"
    and "\<And>u. u mod 60 = 0 \<Longrightarrow> epochSeconds s \<le> u \<Longrightarrow> u < t \<Longrightarrow> \<not> cron_matches utc_date spec \<lparr>epochSeconds = u\<rparr>"
  shows "computeNextCronOccurrence utc_date spec s = Some \<lparr>epochSeconds = t\<rparr>"
proof -
  let ?c = "roundToNextMinute utc_date s"
  note b = roundToNextMinute_bounds [OF utc_date_laws(1), where d = s]
  have "first_hit (cron_matches utc_date spec) (\<lambda>i. \<lparr>epochSeconds = epochSeconds ?c + 60 * int i\<rparr>) kMaxSearchMinutes
      \<lparr>epochSeconds = t\<rparr>"
    unfolding first_hit_minutes [OF b(1)]
  proof (intro conjI allI impI)
    show "epochSeconds ?c \<le> epochSeconds \<lparr>epochSeconds = t\<rparr>" using b(3) [of t] assms(1,2) by simp
    show "epochSeconds \<lparr>epochSeconds = t\<rparr> < epochSeconds ?c + 60 * int kMaxSearchMinutes"
      using assms(3) b(2) by (simp add: kMaxSearchMinutes_def)
    fix u :: DateTime
    assume "epochSeconds u mod 60 = 0 \<and> epochSeconds ?c \<le> epochSeconds u \<and> epochSeconds u < epochSeconds \<lparr>epochSeconds = t\<rparr>"
    then show "\<not> cron_matches utc_date spec u" using assms(5) [of "epochSeconds u"] b(2)
      by (cases u) simp
  qed (use assms in auto)
  then show ?thesis
    unfolding computeNextCronOccurrence_def cron_loop_iff [OF utc_date_laws(1)] using utc_date_reading assms(1) by auto
qed

text \<open>A schedule for one time of the day, whatever its days.\<close>

definition at_time :: "int \<Rightarrow> int \<Rightarrow> ScheduleSpec \<Rightarrow> bool" where
  "at_time h m spec \<longleftrightarrow> sp_hour spec = sf_only h \<and> sp_minute spec = sf_only m \<and> sp_kind spec = Cron \<and>
     \<not> sp_isOneShot spec \<and> 0 \<le> h \<and> h < 24 \<and> 0 \<le> m \<and> m < 60"

definition on_day :: "ScheduleSpec \<Rightarrow> int \<Rightarrow> bool" where
  "on_day spec day \<longleftrightarrow> sf_matches (sp_month spec) (fst (civil_month_day day)) \<and>
     cron_day_ok spec (snd (civil_month_day day)) ((day + 4) mod 7)"

lemma time_of_day:
  assumes "0 \<le> h" "h < 24" "0 \<le> m" "m < 60" "u mod 60 = (0 :: int)"
  shows "u mod 86400 = h * 3600 + m * 60 \<longleftrightarrow> u mod 86400 div 60 mod 60 = m \<and> u mod 86400 div 60 div 60 = h"
proof -
  have "u mod 86400 mod 60 = 0" using assms(5) by (simp add: mod_mod_cancel)
  then have "u mod 86400 = u mod 86400 div 60 * 60" by (metis div_mult_mod_eq add.right_neutral)
  moreover have "u mod 86400 div 60 = u mod 86400 div 60 div 60 * 60 + u mod 86400 div 60 mod 60" by simp
  ultimately show ?thesis using assms(1-4) by (smt (verit) pos_mod_bound pos_mod_sign)
qed

lemma at_time_matches:
  assumes "at_time h m spec" "u mod 60 = 0"
  shows "cron_matches utc_date spec \<lparr>epochSeconds = u\<rparr> \<longleftrightarrow> u mod 86400 = h * 3600 + m * 60 \<and> on_day spec (u div 86400)"
proof -
  have "0 \<le> u mod 86400 div 60" by (simp add: pos_imp_zdiv_nonneg_iff)
  moreover have "cron_matches utc_date spec \<lparr>epochSeconds = u\<rparr> \<longleftrightarrow> 0 \<le> u mod 86400 div 60 \<and>
      (u mod 86400 div 60 mod 60 = m \<and> u mod 86400 div 60 div 60 = h) \<and> on_day spec (u div 86400)"
    using assms(1)
    by (simp add: cron_matches_def at_time_def sf_matches_only on_day_def cron_day_ok_alt Let_def conj_commute conj_left_commute)
  ultimately show ?thesis using time_of_day [of h m u] assms by (simp add: at_time_def)
qed

lemma at_time_next:
  assumes "at_time h m spec" "t mod 86400 = h * 3600 + m * 60" "on_day spec (t div 86400)"
    and "epochSeconds s \<le> t" "t < epochSeconds s + 86400"
  shows "computeNext utc_date spec s = Some \<lparr>epochSeconds = t\<rparr>"
proof -
  have "(h * 3600 + m * 60) mod 60 = (0 :: int)" by simp
  then have t60: "t mod 60 = 0" using assms(2) mod_mod_cancel [of 60 86400 t] by simp
  have "\<not> cron_matches utc_date spec \<lparr>epochSeconds = u\<rparr>" if "u mod 60 = 0" "epochSeconds s \<le> u" "u < t" for u
  proof
    assume "cron_matches utc_date spec \<lparr>epochSeconds = u\<rparr>"
    then have "u mod 86400 = t mod 86400" using at_time_matches [OF assms(1) that(1)] assms(2) by simp
    then have "86400 dvd t - u" by (metis mod_eq_dvd_iff)
    then have "t - u \<ge> 86400" using that(3) zdvd_imp_le [of 86400 "t - u"] by simp
    then show False using that(2) assms(5) by linarith
  qed
  then have "computeNextCronOccurrence utc_date spec s = Some \<lparr>epochSeconds = t\<rparr>"
    using assms(2-5) t60 at_time_matches [OF assms(1) t60] by (intro next_cron_utc) auto
  then show ?thesis using assms(1) by (simp add: computeNext_def resolvedScheduleKind_def at_time_def)
qed

lemma daily_simps [exec]: "sp_isOneShot (dailyAtLocal h m) = False" "sp_kind (dailyAtLocal h m) = Cron"
  by (simp_all add: dailyAtLocal_def defaultSpec_def)

text \<open>A daily schedule: the next instant with that time of the day, the present one included.\<close>

lemma daily_next [exec]:
  assumes "0 \<le> h" "h < 24" "0 \<le> m" "m < 60"
  shows "computeNext utc_date (dailyAtLocal h m) t =
    Some \<lparr>epochSeconds = (let d = epochSeconds t - epochSeconds t mod 86400 + (h * 3600 + m * 60)
       in if epochSeconds t \<le> d then d else d + 86400)\<rparr>"
proof -
  define e x where "e = epochSeconds t" and "x = h * 3600 + m * 60"
  have x: "0 \<le> x" "x < 86400" using assms by (auto simp: x_def)
  define d where "d = e - e mod 86400 + x"
  define n where "n = (if e \<le> d then d else d + 86400)"
  have e: "0 \<le> e mod 86400" "e mod 86400 < 86400" by simp_all
  then have "e \<le> n" "n < e + 86400" using x by (auto simp: n_def d_def)
  moreover have "n mod 86400 = x"
  proof -
    have "d mod 86400 = x" unfolding d_def using x by (simp add: minus_mod_eq_mult_div)
    then show ?thesis by (simp add: n_def)
  qed
  moreover have "at_time h m (dailyAtLocal h m)" "on_day (dailyAtLocal h m) day" for day
    using assms by (simp_all add: at_time_def on_day_def dailyAtLocal_def defaultSpec_def cron_day_ok_def)
  ultimately have "computeNext utc_date (dailyAtLocal h m) t = Some \<lparr>epochSeconds = n\<rparr>"
    unfolding e_def x_def by (intro at_time_next [of h m]) auto
  then show ?thesis by (simp add: n_def d_def e_def x_def Let_def)
qed

section \<open>Running the model\<close>

text \<open>
  Evaluation proceeds along the calls: the continuation of a call is simplified only once its result
  is known.
\<close>

lemma bind_weak_cong: "m = m' \<Longrightarrow> Option.bind m f = Option.bind m' f" by simp


lemmas lazily = bind_weak_cong let_weak_cong

lemmas await_manual_numeral = await_manual.simps(2) [where rounds = "pred_numeral v" for v, folded numeral_eq_Suc]

lemma list_queue_simps [exec]:
  "xQueueCreate list_queue d h = (if h 0 then Some (d, []) else None, \<lambda>n. h (Suc n))"
  "xQueueSend list_queue x (d, xs) = (if length xs < d then (True, d, xs @ [x]) else (False, d, xs))"
  "xQueueReceive list_queue (d, []) = (None, d, [])" "xQueueReceive list_queue (d, x # xs) = (Some x, d, xs)"
  by (simp_all add: list_queue_def)

lemma test_ops_simps [exec]:
  "ex_begin test_ops InlineRef x = (True, x)" "ex_begin test_ops WorkerPoolRef x = (True, x)"
  "ex_begin test_ops DedicatedRef x = (True, x)" "ex_begin test_ops ESPWorkerRef x = (True, x)"
  "ex_begin test_ops (ExternalRef n) x = (True, x\<lparr>tx_queue := \<lparr>te_invocations = [], te_runtime = True\<rparr>\<rparr>)"
  "ex_end test_ops InlineRef b x = x" "ex_end test_ops WorkerPoolRef b x = x"
  "ex_end test_ops DedicatedRef b x = x" "ex_end test_ops ESPWorkerRef b x = x"
  "ex_end test_ops (ExternalRef n) b x = x\<lparr>tx_queue := \<lparr>te_invocations = [], te_runtime = False\<rparr>\<rparr>"
  "ex_submit test_ops InlineRef i x = (True, call_back i x)"
  "ex_submit test_ops (ExternalRef n) i x =
     (if length (te_invocations (tx_queue x)) \<ge> 8 then (False, x)
      else (True, x\<lparr>tx_queue := (tx_queue x)\<lparr>te_invocations := te_invocations (tx_queue x) @ [i]\<rparr>\<rparr>))"
  by (simp_all add: test_ops_def te_begin_def te_end_def te_submit_def kMaxInvocations_def)

lemmas exec_facade [exec] =
  scheduler_begin_def open_events_def startExecutors_def new_object_def
  async_ref_def registerTimeSyncListener_def newScheduler_def scheduler_end_def end_manual_def end_finish_def
  close_runtime_def stopExecutors_def unregisterTimeSyncListener_def resetTimeContextTracking_def store_refresh_flag_def
  await_manual_numeral running_def arr_clear_def cancelAll_def background_def
  addJobOnceUtc_raw_def addJob_raw_def addJobImpl_def date_now_def raw_callback_def cb_valid_def
  fac_setMinValidUnixSeconds_def setMinValidUnixSeconds_def fac_cancelAll_def fac_cancelJob_def fac_pauseJob_def fac_resumeJob_def
  fac_jobCount_def fac_getJobInfo_def getJobInfo_def info_of_def emptyJobInfo_def jobCount_def
  tick_def drainManualEvents_def manual_event_loop.simps impl_refreshTimeContextIfNeeded_def time_context_def
  refreshAllSchedules_def refresh_slot_def activeInvocationCount_def
  dispatchDue_def dispatch_loop.simps pruneInvalidDueEntries.simps resolver_def impl_executorFor_def
  dispatchOne.simps handleCompletion.simps dispatchDeferredIfNeeded.simps invocation_of_def inline_start_def
  schedule_following_def complete_idle_def cb_invoke_def str_view_def

lemmas exec_tests [exec] = new_scheduler_def begin_at_def end_at_def test_surroundings_def manualConfig_def
  defaultSchedulerConfig_def defaultServiceConfig_def system_time_def
  add_at_def add_once_at_def reply_def cancel_at_def pause_at_def resume_at_def cancel_all_at_def count_at_def info_at_def
  set_min_at_def tick_at_def value_of_def call_back_def hits_def queued_runs_def inlineCallback_def asyncCallback_def

lemma new_year_epoch [exec]: "new_year = \<lparr>epochSeconds = 1735689600\<rparr>"
  by (simp add: new_year_def fromUtc_def)

lemma fieldWithinRange_only: "0 \<le> mx \<Longrightarrow> mx < 63 \<Longrightarrow> fieldWithinRange (sf_only v) 0 mx \<longleftrightarrow> 0 \<le> v \<and> v \<le> mx"
  by (auto simp: fieldWithinRange_iff sf_matches_only)

lemma daily_valid [exec]: "0 \<le> h \<Longrightarrow> h < 24 \<Longrightarrow> 0 \<le> m \<Longrightarrow> m < 60 \<Longrightarrow> validate (dailyAtLocal h m)"
  by (simp add: validate_def resolvedScheduleKind_def dailyAtLocal_def defaultSpec_def fieldWithinRange_only
      fieldWithinRange_def [of sf_any])

lemma two_AND [exec]: "Suc (Suc 0) AND numeral n = (2 :: nat) AND numeral n" by (simp add: numeral_2_eq_2)

lemmas sun_loop_numeral [exec] = sun_loop.simps(2) [where n = "pred_numeral v" for v, folded numeral_eq_Suc]

lemma sun_next [exec]:
  "computeNext utc_date (spec_sunrise off) t = computeNextSunOccurrence utc_date (spec_sunrise off) t True"
  "computeNext utc_date (spec_sunset off) t = computeNextSunOccurrence utc_date (spec_sunset off) t False"
  by (simp_all add: computeNext_def resolvedScheduleKind_def spec_sunrise_def spec_sunset_def defaultSpec_def)

lemma sun_specs [exec]:
  "sp_isOneShot (spec_sunrise off) = False" "sp_isOneShot (spec_sunset off) = False"
  "sp_kind (spec_sunrise off) = Sunrise" "sp_kind (spec_sunset off) = Sunset"
  "sp_sunOffsetMinutes (spec_sunrise off) = off" "sp_sunOffsetMinutes (spec_sunset off) = off"
  "validate (spec_sunrise off) \<longleftrightarrow> \<bar>off\<bar> \<le> 1440"
  by (auto simp: spec_sunrise_def spec_sunset_def defaultSpec_def validate_def resolvedScheduleKind_def kMinSunOffsetMinutes_def kMaxSunOffsetMinutes_def)

lemma moon_invalid [exec]: "\<not> validate (moonPhaseAngle 360 n)" "\<not> validate (moonIlluminationPercent p (Fin 0))"
  by (simp_all add: validate_def resolvedScheduleKind_def moonPhaseAngle_def moonIlluminationPercent_def defaultSpec_def
     kMaxMoonPhaseAngle_def)

lemma utc_next_minute [exec]: "roundToNextMinute utc_date t =
   (if epochSeconds t mod 60 = 0 then t else \<lparr>epochSeconds = epochSeconds t - epochSeconds t mod 60 + 60\<rparr>)"
  by (rule DateTime_eqI) (simp add: roundToNextMinute_epoch)


lemmas exec_service [exec] =
  service_begin_def newService_def counting_os_def createTaskPinned_def isValidStackSize_def kMinStackSizeBytes_def
  service_request_def run_command_def executeBackgroundCommand_def newCommand_def send_def drainCommands_def
  command_loop.simps process_command_def co_signal_def end_background_def stop_def
  release_loop.simps deleteTask_def

lemmas exec_compat [exec] =
  newV1Compat_def makeCompatSchedulerConfig_def v1_addJob_raw_def add_tracked_def jobOptionsForMode_def trackJob_def
  v1_getJobInfo_def pruneTrackedJobs_def v1_cancelJob_def as_bool_def v1_cleanup_def
  v1_deinit_def v1_info_def emptyV1Info_def

lemmas exec_scenes [exec] =
  fromUtc_def setUp_def defaultESPWorkerExecutor_def defaultWorkerExecutor_def kInvalidExecutorId_def refresh_at_def
  fac_refreshAllSchedules_def on_time_sync_def requestTimeContextRefresh_def registerExecutor_def overlap_start_def
  completeOne_def finished_event_def handleEvent_def async_started_def stop_running_def next_is_def
  computeNextOccurrence_def background_start_def computeNextSunOccurrence_def kMaxSunSearchDays_def
  passes_def

section \<open>Catching up\<close>

text \<open>
  The core in \<^verbatim>\<open>test_recurring_job_waits_until_clock_valid_before_priming\<close> while the first tick with a
  valid clock is at work: the job was planned for today by the refresh, then for the first of January
  1970 by the pending request, and it has run for \<open>n\<close> days since.
\<close>

definition daily_record :: "int \<Rightarrow> JobRecord" where
  "daily_record t = \<lparr>jr_id = 1, jr_generation = 1, jr_occupied = True, jr_schedule = dailyAtLocal 6 0, jr_dispatch = Inline,
     jr_overlap = SkipIfRunning, jr_executorId = 0, jr_paused = False, jr_canceled = False, jr_queuedWhileRunning = False,
     jr_hasNext = True, jr_pendingSchedule = False, jr_refreshPending = False, jr_runningCount = 0,
     jr_nextRunUtc = \<lparr>epochSeconds = t\<rparr>, jr_scheduleFromUtc = \<lparr>epochSeconds = 0\<rparr>,
     jr_callback = raw_callback inlineCallback 0, jr_name = \<lparr>str_data = None, str_length = 0, str_usePSRAM = False\<rparr>,
     jr_dedicatedTask = defaultDedicatedTask, jr_hasDedicatedTaskOptions = False\<rparr>"

definition catching_up :: "SchedulerIdIndex \<Rightarrow> nat \<Rightarrow> SchedulerCore" where
  "catching_up ix n = \<lparr>core_minValidEpochSeconds = 1577836800, core_usePSRAMMetadata = False, core_nextId = 2,
     core_jobs = \<lparr>arr_data = [daily_record (86400 * int n + 21600)], arr_capacity = 4, arr_elemSize = 200, arr_usePSRAM = False\<rparr>,
     core_freeSlots = \<lparr>arr_data = [], arr_capacity = 0, arr_elemSize = 4, arr_usePSRAM = False\<rparr>,
     core_pendingSchedules = \<lparr>arr_data = [], arr_capacity = 4, arr_elemSize = 4, arr_usePSRAM = False\<rparr>,
     core_jobIndex = ix,
     core_dueHeap = \<lparr>arr_data = [\<lparr>due_nextEpoch = 86400 * int n + 21600, due_slotIndex = 0, due_generation = 1\<rparr>,
        \<lparr>due_nextEpoch = 1735711200, due_slotIndex = 0, due_generation = 1\<rparr>],
        arr_capacity = 4, arr_elemSize = 16, arr_usePSRAM = False\<rparr>,
     core_heap = plenty\<rparr>"

definition inline_only :: "(u8 \<Rightarrow> (JobInvocation \<Rightarrow> TestExecutors \<Rightarrow> bool \<times> TestExecutors) option) \<Rightarrow> TestExecutors IExecutorResolver" where
  "inline_only f = \<lparr>inlineExecutor = Some (ex_submit test_ops InlineRef), executorFor = f\<rparr>"

definition calls :: "nat \<Rightarrow> nat list" where
  "calls n = replicate n inlineCallback"

lemma catches_up_a_day:
  assumes "n < 20089"
  shows "dispatch_loop utc_date (inline_only f) new_year (catching_up ix n) x =
    dispatch_loop utc_date (inline_only f) new_year (catching_up ix (Suc n)) (x\<lparr>tx_calls := tx_calls x @ [inlineCallback]\<rparr>)"
proof (cases "n = 20088")
  case True
  then show ?thesis
    by (subst dispatch_loop.simps)
      (simp add: exec inline_only_def catching_up_def daily_record_def cong: lazily split del: if_split del: dispatch_loop.simps)
next
  case False
  with assms show ?thesis
    by (subst dispatch_loop.simps)
      (simp add: exec inline_only_def catching_up_def daily_record_def cong: lazily split del: if_split del: dispatch_loop.simps)
qed

lemma catches_up:
  "n \<le> 20089 \<Longrightarrow> dispatch_loop utc_date (inline_only f) new_year (catching_up ix (20089 - n)) x =
     Some (catching_up ix 20089, x\<lparr>tx_calls := tx_calls x @ calls n\<rparr>)"
proof (induction n arbitrary: x)
  case 0
  then show ?case
    by (subst dispatch_loop.simps)
      (simp add: exec calls_def inline_only_def catching_up_def daily_record_def cong: lazily split del: if_split del: dispatch_loop.simps)
next
  case (Suc n)
  then have "Suc (20089 - Suc n) = 20089 - n" "20089 - Suc n < 20089" by simp_all
  then show ?case using Suc catches_up_a_day [of "20089 - Suc n"] by (simp add: calls_def)
qed

lemma first_valid_tick:
  "c = catching_up (core_jobIndex c) 0 \<Longrightarrow>
   dispatch_loop utc_date \<lparr>inlineExecutor = Some (ex_submit test_ops InlineRef), executorFor = f\<rparr>
     \<lparr>epochSeconds = 1735689600\<rparr> c x =
   Some (catching_up (core_jobIndex c) 20089, x\<lparr>tx_calls := tx_calls x @ calls 20089\<rparr>)"
  using catches_up [of 20089 f "core_jobIndex c" x] by (simp add: inline_only_def new_year_epoch)

lemma count_calls: "count_list (calls n) (Suc 0) = n"
  by (induction n) (simp_all add: calls_def inlineCallback_def)

lemma recurring_run_outcome:
  "\<exists>i. recurring_run = Some (replicate 9 True, i) \<and> hits inlineCallback i = 20089 \<and> end_at new_year i \<noteq> None"
  unfolding recurring_run_def
  by (simp add: exec first_valid_tick count_calls catching_up_def daily_record_def plenty_def
      cong: lazily split del: if_split del: dispatch_loop.simps)

text \<open>
  C28: a daily job that was added before the clock was valid is run once for every day since 1970 as
  soon as the clock is valid: 20089 times within one \<^verbatim>\<open>tick\<close> on the first of January 2025. The
  repository's test for this situation looks at the next run only, and passes.
\<close>

theorem catch_up_storm:
  "passes test_recurring_job_waits_until_clock_valid_before_priming \<and>
   (\<exists>i. recurring_run = Some (replicate 9 True, i) \<and> hits inlineCallback i = 20089)"
proof -
  obtain i i' where r: "recurring_run = Some (replicate 9 True, i)" "hits inlineCallback i = 20089"
    and e: "end_at new_year i = Some i'" using recurring_run_outcome by blast
  have p: "test_recurring_job_waits_until_clock_valid_before_priming = Some (replicate 9 True)"
    by (simp add: test_recurring_job_waits_until_clock_valid_before_priming_def r(1) e)
  show ?thesis using r(2) by (simp add: p r(1) passes_def list_all_iff)
qed

section \<open>Outcomes\<close>

lemma life_cycle_tests:
  "passes test_begin_is_idempotent_and_end_is_explicit" "passes test_begin_fails_for_missing_builtin_espworker"
  "passes test_builtin_espworker_executor_id_available_when_configured"
  "passes test_begin_fails_for_invalid_service_stack_size"
  unfolding test_begin_is_idempotent_and_end_is_explicit_def test_begin_fails_for_missing_builtin_espworker_def
    test_builtin_espworker_executor_id_available_when_configured_def test_begin_fails_for_invalid_service_stack_size_def
  by (simp_all add: exec cong: lazily split del: if_split)

lemma weekly_test: "passes test_weekly_mask_advances_to_next_weekday"
proof -
  have d: "dowDays 62 = [1, 2, 3, 4, 5]" "civil_month_day 20152 = (3, 5)" by code_simp+
  have s: "at_time 18 30 (weeklyAtLocal 62 18 30)"
    by (simp add: at_time_def weeklyAtLocal_def defaultSpec_def Let_def)
  have "on_day (weeklyAtLocal 62 18 30) 20152"
    using d by (simp add: on_day_def weeklyAtLocal_def defaultSpec_def cron_day_ok_def sf_matches_list)
  with at_time_next [OF s, of 1741199400 "fromUtc 2025 3 4 19 0 0"] show ?thesis
    by (simp add: test_weekly_mask_advances_to_next_weekday_def next_is_def computeNextOccurrence_def fromUtc_def passes_def)
qed

lemma day_of_month_or_week_test: "passes test_dom_dow_or_logic_matches_either"
proof -
  let ?s = "custom (sf_only 0) (sf_only 9) (sf_only 10) sf_any (sf_only 1)"
  have c: "civil_month_day 19905 = (7, 1)" by code_simp
  have a: "\<not> sf_isAny (sf_only 1)" by (simp add: sf_only_def emptyField_def)
  have s: "at_time 9 0 ?s" by (simp add: at_time_def custom_def defaultSpec_def)
  have "on_day ?s 19905"
    using a c by (simp add: on_day_def custom_def defaultSpec_def cron_day_ok_def sf_matches_only)
  with at_time_next [OF s, of 1719824400 "fromUtc 2024 7 1 8 0 0"] show ?thesis
    by (simp add: test_dom_dow_or_logic_matches_either_def next_is_def computeNextOccurrence_def fromUtc_def passes_def)
qed

lemma calendar_tests:
  "passes test_daily_at_local_next_same_day" "passes test_daily_at_local_rolls_to_next_day"
  "passes test_sunrise_next_occurrence_with_offsets" "passes test_sunset_next_occurrence_with_offsets"
  "passes (test_next_wake_ticks_prefers_local_midnight_over_later_due_job pdMS_TO_TICKS)"
  unfolding test_daily_at_local_next_same_day_def test_daily_at_local_rolls_to_next_day_def
    test_sunrise_next_occurrence_with_offsets_def test_sunset_next_occurrence_with_offsets_def
    test_next_wake_ticks_prefers_local_midnight_over_later_due_job_def nextWakeTicks_def
  by (simp_all add: exec cong: lazily split del: if_split)

lemma manual_tests:
  "passes test_inline_tick_runs_and_reschedules" "passes test_get_job_info_reports_next_run_by_job_id"
  "passes test_tick_waits_until_clock_valid_and_primes_once" "passes test_pause_resume_cancel_and_job_count"
  "passes test_slot_reuse_keeps_old_job_id_invalid" "passes test_executor_unavailable_is_reported"
  "passes test_invalid_astronomical_schedule_validation"
  unfolding test_inline_tick_runs_and_reschedules_def test_get_job_info_reports_next_run_by_job_id_def
    test_tick_waits_until_clock_valid_and_primes_once_def test_pause_resume_cancel_and_job_count_def
    test_slot_reuse_keeps_old_job_id_invalid_def test_executor_unavailable_is_reported_def
    test_invalid_astronomical_schedule_validation_def
  by (simp_all add: exec cong: lazily split del: if_split)

lemma refresh_tests:
  "passes test_refresh_all_schedules_updates_local_recurring_job"
  "passes test_refresh_all_schedules_leaves_one_shot_utc_unchanged"
  "passes test_local_midnight_refreshes_before_due_dispatch" "passes test_ntp_listener_refreshes_on_next_tick"
  "passes test_astronomical_job_primes_next_run_immediately"
  "passes test_refresh_all_schedules_updates_sunrise_schedule"
  unfolding test_refresh_all_schedules_updates_local_recurring_job_def
    test_refresh_all_schedules_leaves_one_shot_utc_unchanged_def test_local_midnight_refreshes_before_due_dispatch_def
    test_ntp_listener_refreshes_on_next_tick_def test_astronomical_job_primes_next_run_immediately_def
    test_refresh_all_schedules_updates_sunrise_schedule_def
  by (simp_all add: exec cong: lazily split del: if_split)

lemma overlap_tests:
  "passes test_queue_one_behavior" "passes test_allow_parallel_behavior"
  "passes test_cancel_running_async_job_and_stale_completion_is_ignored"
  unfolding test_queue_one_behavior_def test_allow_parallel_behavior_def
    test_cancel_running_async_job_and_stale_completion_is_ignored_def
  by (simp_all add: exec cong: lazily split del: if_split)

lemma service_tests:
  "passes test_background_multiple_add_job_commands_do_not_corrupt_command_lifetime"
  "passes test_background_refresh_all_schedules_roundtrip_updates_next_run"
  "passes test_v1_compat_cleanup_prunes_canceled_jobs"
  unfolding test_background_multiple_add_job_commands_do_not_corrupt_command_lifetime_def
    test_background_refresh_all_schedules_roundtrip_updates_next_run_def test_v1_compat_cleanup_prunes_canceled_jobs_def
  by (simp_all add: exec cong: lazily split del: if_split)

text \<open>
  Thirty tests of the repository pass on the model. Of a further one, one condition does not hold: in
  \<^verbatim>\<open>test_skip_if_running_behavior\<close> an occurrence that was skipped because the job was still running is
  submitted after all when the completion is handled within the same minute. The tenth condition,
  that nothing is queued then, fails; the others hold.
\<close>

lemma repository_tests:
  "passes test_begin_is_idempotent_and_end_is_explicit \<and> passes test_begin_fails_for_missing_builtin_espworker \<and>
   passes test_builtin_espworker_executor_id_available_when_configured \<and>
   passes test_begin_fails_for_invalid_service_stack_size \<and>
   passes test_daily_at_local_next_same_day \<and> passes test_daily_at_local_rolls_to_next_day \<and>
   passes test_weekly_mask_advances_to_next_weekday \<and> passes test_dom_dow_or_logic_matches_either \<and>
   passes test_sunrise_next_occurrence_with_offsets \<and> passes test_sunset_next_occurrence_with_offsets \<and>
   passes (test_next_wake_ticks_prefers_local_midnight_over_later_due_job pdMS_TO_TICKS) \<and>
   passes test_inline_tick_runs_and_reschedules \<and> passes test_get_job_info_reports_next_run_by_job_id \<and>
   passes test_tick_waits_until_clock_valid_and_primes_once \<and> passes test_pause_resume_cancel_and_job_count \<and>
   passes test_slot_reuse_keeps_old_job_id_invalid \<and> passes test_executor_unavailable_is_reported \<and>
   passes test_invalid_astronomical_schedule_validation \<and>
   passes test_refresh_all_schedules_updates_local_recurring_job \<and>
   passes test_refresh_all_schedules_leaves_one_shot_utc_unchanged \<and>
   passes test_local_midnight_refreshes_before_due_dispatch \<and> passes test_ntp_listener_refreshes_on_next_tick \<and>
   passes test_astronomical_job_primes_next_run_immediately \<and>
   passes test_refresh_all_schedules_updates_sunrise_schedule \<and>
   passes test_queue_one_behavior \<and> passes test_allow_parallel_behavior \<and>
   passes test_cancel_running_async_job_and_stale_completion_is_ignored \<and>
   passes test_background_multiple_add_job_commands_do_not_corrupt_command_lifetime \<and>
   passes test_background_refresh_all_schedules_roundtrip_updates_next_run \<and>
   passes test_v1_compat_cleanup_prunes_canceled_jobs \<and>
   test_skip_if_running_behavior =
     Some [True, True, True, True, True, True, True, True, True, False, True]"
proof -
  have "test_skip_if_running_behavior =
      Some [True, True, True, True, True, True, True, True, True, False, True]"
    unfolding test_skip_if_running_behavior_def by (simp add: exec cong: lazily split del: if_split)
  then show ?thesis
    using life_cycle_tests weekly_test day_of_month_or_week_test calendar_tests manual_tests refresh_tests overlap_tests
      service_tests by simp
qed

end
