(* ===== verification/Spec2Isabelle.thy ===== *)
theory Spec2Isabelle
  imports Core_Scenarios Clock_Change Buffer_Ownership Scheduler_System Command_Ownership Command_Types Service_Task Worker_Start V1_Spec Test_Results
begin

text \<open>
  A verification library for ESPToolKit/esp-scheduler, a job scheduler for ESP32 boards.

  \<^bold>\<open>The program.\<close> An application adds jobs, each a schedule (cron fields, a one-shot instant, sun or moon
  events), options and a callback. \<^verbatim>\<open>SchedulerCore\<close> keeps the jobs in a table of slots, the planned runs
  in a heap ordered by epoch, and an index from ids to slots; \<^verbatim>\<open>dispatchDue\<close> hands due jobs to
  executors and plans the next run with \<^verbatim>\<open>ScheduleCalculator\<close>. Executors run callbacks in place, in a
  pool of worker tasks, in a task per run, or in the ESPWorker library, and post completion events.
  \<^verbatim>\<open>ESPScheduler\<close> owns either one core that the application drives with \<^verbatim>\<open>tick\<close> (manual mode), or a
  \<^verbatim>\<open>SchedulerService\<close>, a task with its own core that takes commands from a queue (background mode).
  \<^verbatim>\<open>ESPSchedulerV1Compat\<close> offers the interface of version 1 on top.

  \<^bold>\<open>The theories\<close>, with the files of \<^verbatim>\<open>src/src/esp_scheduler/\<close> they model. Functions keep their names; a
  prefix or suffix marks overloads and names that another class uses too. Fields carry a prefix per
  struct (\<open>jr_\<close> job record, \<open>core_\<close> core, \<open>ss_\<close> service, \<open>im_\<close> facade, \<open>wpe_\<close> worker pool).
  \<^item> \<open>Sched_Prelude\<close>: named theorems, lemmas on lists and words.
  \<^item> \<open>Runtime_Array\<close>, \<open>Id_Index\<close>, \<open>Due_Heap\<close>: \<^verbatim>\<open>core/runtime_containers.h\<close>, \<^verbatim>\<open>core/due_heap.h\<close>. The answers of the
    allocator are an explicit sequence (\<open>heap\<close>), so every failed allocation is a branch. The index
    is shown to implement a finite map, the heap a priority queue, as interpretations of the locales
    of these contracts.
  \<^item> \<open>Buffer_Ownership\<close>: the same containers on pointers, with constructors, destructors, moves and
    \<^verbatim>\<open>scheduler_allocator.h\<close>. An object is its buffer pointer and the contents of the theories above, which
    the operations refine. A locale states what owning one buffer means; for the three classes it gives that
    no sequence of calls, moves and failed allocations frees a block twice, leaks or shares it.
  \<^item> \<open>Schedule_Field\<close>, \<open>Schedule_Spec\<close>, \<open>Schedule_Calculator\<close>: \<^verbatim>\<open>schedule/\<close>. \<open>Esp_Date\<close> is the interface of the
    ESPDate library, a record of functions that is a parameter everywhere. Its arithmetic on UTC instants is a
    documented law (\<open>utc_arithmetic\<close>). That the time of day of a minute denotes that minute is not a law: it
    fails on days on which the zone's clock is changed. It is a condition on a period (\<open>steady_clock\<close>), named by the
    theorems that need it; calendars with a fixed offset and with a change to summer time are the instances. Shown: the fields
    accept what they name, validation, the cron search finds the earliest match, the sun and moon searches never go
    back in time, and neither does the cron search while the clock is steady.
  \<^item> \<open>Scheduler_Types\<close>, \<open>Scheduler_Core\<close>, \<open>Scheduler_Dispatch\<close>: \<^verbatim>\<open>core/\<close> and the shared headers. \<open>Core_Invariant\<close> is
    the representation invariant and its preservation, \<open>Core_Spec\<close> the abstraction to a map from ids
    to jobs and the effect of each operation on it, \<open>Core_Dispatch\<close> the dispatch loop
    and the invariants of reachable states, \<open>Dispatch_Progress\<close> that the loop ends while the clock is steady since
    the instant the jobs are planned from (\<open>planned_from\<close>, kept by every operation), \<open>Clock_Change\<close> that it does
    not end for a daily inline job on the day the clock is put forward, \<open>Dispatch_Safety\<close> what is submitted and when the next run
    is due, \<open>Core_Exec\<close> evaluation on concrete states, \<open>Core_Scenarios\<close> runs that show defects.
  \<^item> \<open>Rtos\<close>: FreeRTOS queues and tasks as records of functions with their documented laws, and
    \<^verbatim>\<open>executors/task_support.h\<close>.
  \<^item> \<open>Executors\<close>, \<open>Executor_Contract\<close>: \<^verbatim>\<open>executors/\<close>. The contract, an accepted invocation runs exactly once
    and a refused one never, is a locale that all four executors interpret.
    \<open>Worker_Start\<close> follows the context object that \<^verbatim>\<open>begin\<close> of the pool hands to a new worker.
  \<^item> \<open>Service\<close>, \<open>Service_Spec\<close>, \<open>Command_Ownership\<close>: \<^verbatim>\<open>service/\<close>. Commands are served in order and answered, a
    round ends and keeps the invariant, the sleep is bounded; \<open>Service_Task\<close> shows that the task ends when a stop
    is requested, and what destroying a scheduler releases; the hand-over of a command's memory
    between caller and service is a step relation over all interleavings.
  \<^item> \<open>Facade\<close>, \<open>Facade_Jobs\<close>, \<open>Facade_Spec\<close>, \<open>Facade_Life\<close>: \<^verbatim>\<open>scheduler.cpp\<close>. Both modes refine the core's
    operations; \<^verbatim>\<open>begin\<close> is all or nothing, \<^verbatim>\<open>end\<close> returns and leaves nothing behind, \<^verbatim>\<open>tick\<close> returns.
    \<open>Command_Types\<close> gives the results of commands their types back and shows that the service and the facade
    preserve them; it follows exactly when an operation reports \<^verbatim>\<open>NotInitialized\<close>.
  \<^item> \<open>Job_Flights\<close>, \<open>Invocation_Flow\<close>, \<open>Scheduler_System\<close>: the composition of core, executors and event queue. The
    invocations a core counts as running (\<open>flight\<close>) are untouched by everything but starting and
    completing; the locale \<open>tracked_executors\<close> is what the core needs of the executors to keep the account;
    the system of all executors of the repository satisfies it (a sublocale). In every interleaving the
    running counts are exactly the unfinished invocations, no completion is stale, and a completion that was lost
    keeps its slot busy for good.
  \<^item> \<open>V1_Compat\<close>, \<open>V1_Spec\<close>: \<^verbatim>\<open>compat/\<close>. What is added through the wrapper is described back by it.

  \<^item> \<open>Test_Suite\<close>, \<open>Test_Results\<close>: \<^verbatim>\<open>test/test_esp_scheduler/\<close>. The repository's tests as runs of the model, evaluated in the
    kernel, to validate the model: they pass, but for one condition on \<^verbatim>\<open>SkipIfRunning\<close>; one of them passes after 20089 runs that it
    does not look at.

  \<^bold>\<open>Loops and inputs.\<close> Loops over a known range are structural recursion on their bound. Loops whose text
  has no bound (the dispatch loop, the loops that empty a queue) are partial functions into
  \<open>option\<close> with their equations as code, and are shown to return (the dispatch loop under the condition above). Waits with a deadline take the number of rounds that fit before
  it as an argument, and the theorems hold for every number. What runs in other tasks meanwhile is an
  input too (\<open>Surroundings\<close>, \<open>surroundings\<close> of the service's loop, the answers of executors and of the operating system, the clock).

  \<^bold>\<open>Idealisations.\<close> Ids, generations, running counts, masks and tick counts are words of their width;
  epoch seconds are integers, and finite doubles of the astronomical searches are exact reals. The
  invariants across \<^verbatim>\<open>addJob\<close> suppose that fewer than \<open>2^32 - 1\<close> ids were handed out, the account of
  invocations that fewer than \<open>2^16\<close>, the range of \<^verbatim>\<open>runningCount\<close>, are unfinished at a time. A turn of a worker, from
  taking an item to posting its completion, is one step. An inline callback does not call back into its own
  scheduler.

  \<^bold>\<open>Not modelled\<close>: \<^verbatim>\<open>name()\<close> of the executors, the end of a worker's task by itself, which queue the wait on the
  queue set reports (it is not used), calls on a scheduler whose \<^verbatim>\<open>Impl\<close> could not be allocated, executors that an application
  registers beyond their interface, the examples, and
  six of the 38 tests (the moon, real tasks and waiting times, the repetition of background commands).
\<close>

end
